(* ===== verification/Prelude.thy ===== *)
theory Prelude
  imports Main "HOL-Library.Word" "HOL-Library.Multiset"
begin

unbundle bit_operations_syntax

text \<open>
  Shared vocabulary of the development: the machine integers of the Rust sources, the result
  type of a Rust function (a value, an error, a panic, or undefined behaviour), the build
  configuration that decides which checks are compiled in, and the generic lemmas on words and
  lists that the component theories use.
\<close>

section \<open>Machine integers\<close>

type_synonym u8 = "8 word"
type_synonym u16 = "16 word"
type_synonym u32 = "32 word"
type_synonym u64 = "64 word"
type_synonym usize = "64 word"

section \<open>Outcomes of a Rust function\<close>

text \<open>
  \<open>Ok\<close> and \<open>Err\<close> are the two variants of Rust's \<open>Result\<close>. \<open>Panic\<close> is a failed assertion, an
  arithmetic overflow of a build with overflow checks, or a slice operation with bad bounds.
  \<open>Undef\<close> is undefined behaviour: a raw pointer that is null or points outside its mapping is
  dereferenced.
\<close>

datatype ('e, 'a) res = Ok 'a | Err 'e | Panic | Undef

definition returns :: "('e, 'a) res \<Rightarrow> bool" where
  "returns r \<longleftrightarrow> (case r of Ok _ \<Rightarrow> True | Err _ \<Rightarrow> True | Panic \<Rightarrow> False | Undef \<Rightarrow> False)"

lemma returns_simps [simp]:
  "returns (Ok a)" "returns (Err e)" "\<not> returns Panic" "\<not> returns Undef"
  by (simp_all add: returns_def)

text \<open>The \<open>?\<close> operator on a computation that threads a state.\<close>

fun and_then :: "'s \<times> ('e, 'a) res \<Rightarrow> ('a \<Rightarrow> 's \<Rightarrow> 's \<times> ('e, 'b) res) \<Rightarrow> 's \<times> ('e, 'b) res" where
  "and_then (s, Ok a) k = k a s"
| "and_then (s, Err e) k = (s, Err e)"
| "and_then (s, Panic) k = (s, Panic)"
| "and_then (s, Undef) k = (s, Undef)"

text \<open>A stateless fallible step inside a computation whose state is \<open>s\<close>.\<close>

definition try_in :: "'s \<Rightarrow> ('e, 'a) res \<Rightarrow> ('a \<Rightarrow> 's \<times> ('e, 'b) res) \<Rightarrow> 's \<times> ('e, 'b) res" where
  "try_in s r k = and_then (s, r) (\<lambda>a _. k a)"

lemma try_in_simps [simp]:
  "try_in s (Ok a) k = k a" "try_in s (Err e) k = (s, Err e)"
  "try_in s Panic k = (s, Panic)" "try_in s Undef k = (s, Undef)"
  by (simp_all add: try_in_def)

lemma try_in_split:
  "P (try_in s r k) \<longleftrightarrow> (\<forall>a. r = Ok a \<longrightarrow> P (k a)) \<and> (\<forall>e. r = Err e \<longrightarrow> P (s, Err e)) \<and>
     (r = Panic \<longrightarrow> P (s, Panic)) \<and> (r = Undef \<longrightarrow> P (s, Undef))"
  by (cases r) simp_all

text \<open>The same for a computation without a state, and \<open>Result::map_err\<close>.\<close>

fun res_then :: "('e, 'a) res \<Rightarrow> ('a \<Rightarrow> ('e, 'b) res) \<Rightarrow> ('e, 'b) res" where
  "res_then (Ok a) k = k a"
| "res_then (Err e) k = Err e"
| "res_then Panic k = Panic"
| "res_then Undef k = Undef"

fun map_err :: "('e \<Rightarrow> 'f) \<Rightarrow> ('e, 'a) res \<Rightarrow> ('f, 'a) res" where
  "map_err f (Ok a) = Ok a"
| "map_err f (Err e) = Err (f e)"
| "map_err f Panic = Panic"
| "map_err f Undef = Undef"

lemma and_then_Ok_iff:
  "and_then p k = (s', Ok b) \<longleftrightarrow> (\<exists>s a. p = (s, Ok a) \<and> k a s = (s', Ok b))"
  by (cases p; cases "snd p") auto

lemma try_in_Ok_iff: "try_in s r k = (s', Ok b) \<longleftrightarrow> (\<exists>a. r = Ok a \<and> k a = (s', Ok b))"
  by (cases r) auto

lemma res_then_Ok_iff: "res_then p k = Ok b \<longleftrightarrow> (\<exists>a. p = Ok a \<and> k a = Ok b)"
  by (cases p) auto

lemma res_then_Undef_iff: "res_then p k = Undef \<longleftrightarrow> p = Undef \<or> (\<exists>a. p = Ok a \<and> k a = Undef)"
  by (cases p) auto

lemma map_err_iff [simp]:
  "map_err f p = Undef \<longleftrightarrow> p = Undef" "map_err f p = Panic \<longleftrightarrow> p = Panic"
  "map_err f p = Ok a \<longleftrightarrow> p = Ok a" "map_err f p = Err e' \<longleftrightarrow> (\<exists>e. p = Err e \<and> e' = f e)"
  by (cases p; auto)+

text \<open>
  The I/O errors the crates build: an error number of the operating system, a message made with
  \<open>io::Error::other\<close>, or one made with a kind and a message.
\<close>

datatype errno = EBUSY | ENOBUFS | EAGAIN | ENETDOWN | Errno int

datatype io_error =
    OsError errno | OtherError string | InvalidDataError string | InvalidInputError string
  | NotFoundError string | WriteZeroError string

text \<open>
  \<^verbatim>\<open>Error::kind\<close>, for the kinds the sources compare with: the numbers of \<^verbatim>\<open>ENOENT\<close> and \<^verbatim>\<open>ETIMEDOUT\<close> are those
  of Linux.
\<close>

datatype error_kind = NotFoundKind | WouldBlockKind | TimedOutKind | OtherKind

fun kind_of :: "io_error \<Rightarrow> error_kind" where
  "kind_of (NotFoundError m) = NotFoundKind"
| "kind_of (OsError EAGAIN) = WouldBlockKind"
| "kind_of (OsError (Errno n)) =
     (if n = 2 then NotFoundKind else if n = 110 then TimedOutKind else OtherKind)"
| "kind_of _ = OtherKind"

section \<open>Build configuration\<close>

text \<open>
  The crate feature \<open>no_safety_checks\<close> removes the run-time checks marked with
  \<open>#[cfg(not(feature = "no_safety_checks"))]\<close>; a release build removes \<open>debug_assert!\<close> and the
  overflow checks. Both are arguments of the operations they change.
\<close>

record build =
  safety_checks :: bool
  debug_assertions :: bool

definition add_chk :: "build \<Rightarrow> 'a::len word \<Rightarrow> 'a word \<Rightarrow> ('e, 'a word) res" where
  "add_chk b x y =
     (if debug_assertions b \<and> 2 ^ LENGTH('a) \<le> unat x + unat y then Panic else Ok (x + y))"

definition sub_chk :: "build \<Rightarrow> 'a::len word \<Rightarrow> 'a word \<Rightarrow> ('e, 'a word) res" where
  "sub_chk b x y = (if debug_assertions b \<and> x < y then Panic else Ok (x - y))"

lemma add_chk_Ok [simp]: "unat x + unat y < 2 ^ LENGTH('a) \<Longrightarrow> add_chk b x (y :: 'a::len word) = Ok (x + y)"
  by (simp add: add_chk_def)

lemma sub_chk_Ok [simp]: "y \<le> x \<Longrightarrow> sub_chk b x y = Ok (x - y)"
  by (simp add: sub_chk_def not_less)

lemma add_chk_cases: "add_chk b x y = Ok (x + y) \<or> add_chk b x y = Panic"
  by (simp add: add_chk_def)

lemma sub_chk_cases: "sub_chk b x y = Ok (x - y) \<or> sub_chk b x y = Panic"
  by (simp add: sub_chk_def)

section \<open>Power-of-two sizes and masks\<close>

text \<open>A ring holds \<open>2 ^ k\<close> descriptors and indices are reduced with a mask of \<open>k\<close> ones.\<close>

definition ring_size :: "nat \<Rightarrow> bool" where
  "ring_size N \<longleftrightarrow> (\<exists>k \<le> 31. N = 2 ^ k)"

lemma ring_size_pos: "ring_size N \<Longrightarrow> 0 < N"
  by (auto simp: ring_size_def)

lemma ring_size_le: "ring_size N \<Longrightarrow> N \<le> 2 ^ 31"
proof -
  assume "ring_size N"
  then obtain k where "k \<le> 31" "N = 2 ^ k" by (auto simp: ring_size_def)
  then have "N \<le> 2 ^ 31" using power_increasing [of k 31 "2::nat"] by simp
  then show ?thesis .
qed

lemma ring_size_lt: "ring_size N \<Longrightarrow> N < 2 ^ 32"
  by (drule ring_size_le) simp

lemma ring_size_dvd: "ring_size N \<Longrightarrow> N dvd 2 ^ 32"
  unfolding ring_size_def by (elim exE conjE) (simp only: le_imp_power_dvd)

lemma ring_size_pow2: "k \<le> 31 \<Longrightarrow> ring_size (2 ^ k)"
  by (auto simp: ring_size_def)

lemma unat_and_mask:
  fixes w :: u32
  assumes "ring_size N"
  shows "unat (w AND of_nat (N - 1)) = unat w mod N"
proof -
  from assms obtain k where k: "k \<le> 31" "N = 2 ^ k" by (auto simp: ring_size_def)
  have "(of_nat (N - 1) :: u32) = mask k"
    by (simp add: k mask_eq_exp_minus_1 of_nat_diff)
  then have "w AND of_nat (N - 1) = take_bit k w"
    by (simp only: take_bit_eq_mask)
  then have "unat (w AND of_nat (N - 1)) = take_bit k (unat w)"
    by (simp only: unsigned_take_bit_eq)
  then show ?thesis
    using k(2) by (simp only: take_bit_eq_mod)
qed

lemma unat_add_mod_ring:
  fixes a b :: u32
  assumes "ring_size N"
  shows "unat (a + b) mod N = (unat a + unat b) mod N"
proof -
  have "unat (a + b) = (unat a + unat b) mod 2 ^ 32"
    by (simp add: unat_word_ariths)
  then show ?thesis
    by (simp only: mod_mod_cancel [OF ring_size_dvd [OF assms]])
qed

lemma unat_of_nat_mod_ring:
  assumes "ring_size N"
  shows "unat (of_nat n :: u32) mod N = n mod N"
proof -
  have "unat (of_nat n :: u32) = n mod 2 ^ 32"
    by (simp add: unat_of_nat)
  then show ?thesis
    by (simp only: mod_mod_cancel [OF ring_size_dvd [OF assms]])
qed

lemma unat_plus_of_nat_mod_ring:
  assumes "ring_size N"
  shows "unat (a + of_nat n :: u32) mod N = (unat a + n) mod N"
  by (metis assms mod_add_right_eq unat_add_mod_ring unat_of_nat_mod_ring)

lemma unat_of_nat_u32: "n < 2 ^ 32 \<Longrightarrow> unat (of_nat n :: u32) = n"
  by (simp add: unat_of_nat)

lemma unat_of_nat_u64: "n < 2 ^ 64 \<Longrightarrow> unat (of_nat n :: u64) = n"
  by (simp add: unat_of_nat)

lemma unat_ucast_32_64 [simp]: "unat (ucast (x :: u32) :: u64) = unat x"
  by (simp add: unsigned_ucast_eq take_bit_nat_eq_self_iff) (rule order_less_trans [OF unsigned_less], simp)

lemma ucast_eq_of_nat: "ucast (x :: 'a::len word) = (of_nat (unat x) :: 'b::len word)"
  by (metis of_nat_unat ucast_id)

lemma unat_ucast_64_32: "unat (ucast (x :: u64) :: u32) = unat x mod 2 ^ 32"
  by (simp only: unsigned_ucast_eq take_bit_eq_mod) simp

lemma unat_plus_1_u32: "unat (x :: u32) < 2 ^ 32 - 1 \<Longrightarrow> unat (x + 1) = Suc (unat x)"
  by (simp add: unat_word_ariths(1))

lemma unat_lt_u32: "unat (x :: u32) < 2 ^ 32"
  by (rule order_less_le_trans [OF unsigned_less]) simp

lemma unat_dec_u32: "x \<noteq> 0 \<Longrightarrow> unat (x - 1 :: u32) < unat x"
  by (simp add: unat_minus_one unat_gt_0)

text \<open>Two offsets smaller than the size fall on the same slot only if they are equal.\<close>

lemma mod_offset_neq:
  fixes i j N s :: nat
  assumes "i < j" "j < i + N"
  shows "(s + i) mod N \<noteq> (s + j) mod N"
proof
  assume "(s + i) mod N = (s + j) mod N"
  then have "N dvd (s + j) - (s + i)"
    by (metis add_left_mono assms(1) less_imp_le mod_eq_dvd_iff_nat)
  then have "N dvd j - i" by simp
  then show False using assms by (auto dest: dvd_imp_le)
qed

lemma mod_offset_eq:
  fixes i j N s :: nat
  assumes "i < N" "j < N" "(s + i) mod N = (s + j) mod N"
  shows "i = j"
  using assms mod_offset_neq [of i j N s] mod_offset_neq [of j i N s]
  by (cases i j rule: linorder_cases) auto

section \<open>Multisets\<close>

lemma distinct_sub_mset:
  assumes "mset xs \<subseteq># mset ys" "distinct ys"
  shows "distinct xs"
  unfolding distinct_count_atmost_1
proof
  fix a
  have "count (mset xs) a \<le> count (mset ys) a" using assms(1) by (rule mset_subset_eq_count)
  also have "\<dots> \<le> 1" using assms(2) by (simp add: distinct_count_atmost_1)
  finally have "count (mset xs) a \<le> 1" .
  moreover have "count (mset xs) a = 0 \<longleftrightarrow> a \<notin> set xs"
    by (metis count_eq_zero_iff set_mset_mset)
  ultimately show "count (mset xs) a = (if a \<in> set xs then 1 else 0)"
    by (auto simp: le_Suc_eq)
qed

text \<open>The bytes of a text of one-byte characters.\<close>

definition text_bytes :: "string \<Rightarrow> u8 list" where
  "text_bytes s = map of_char s"

end
