(* ===== verification/Ring.thy ===== *)
theory Ring
  imports Prelude
begin

unbundle bit_operations_syntax

text \<open>
  The ring buffers of \<^verbatim>\<open>xdp-socket/src/ring.rs\<close>: constants, descriptors, the memory-mapped ring
  and its accessors, the two \<^verbatim>\<open>fill\<close> functions, \<^verbatim>\<open>mut_bytes_at\<close>, \<^verbatim>\<open>set\<close>, and the ring kinds.

  A \<^verbatim>\<open>RingMmap\<close> holds four raw pointers into one mapping. They are either all null (the value of
  \<^verbatim>\<open>Default\<close>) or all valid, so they are one optional record of the cells they point to; reading
  through the null pointers is undefined behaviour. The producer and consumer indices and the
  descriptors are shared with the kernel: the kernel's side changes them between two calls.
\<close>

section \<open>Data\<close>

definition FRAME_SIZE :: usize where "FRAME_SIZE = 2048"
definition FRAME_COUNT :: usize where "FRAME_COUNT = 4096"

lemma frame_consts [simp]: "unat FRAME_SIZE = 2048" "unat FRAME_COUNT = 4096"
  by (simp_all add: FRAME_SIZE_def FRAME_COUNT_def)

record owned_mmap =
  mm_ptr :: u64
  mm_size :: usize

record 'a ring_cells =
  producer_ix :: u32
  consumer_ix :: u32
  desc_ix :: "'a list"
  flags_ix :: u32

record 'a ring_mmap =
  mmap_of :: owned_mmap
  cells :: "'a ring_cells option"

definition ring_mmap_default :: "'a ring_mmap" where
  "ring_mmap_default = \<lparr>mmap_of = \<lparr>mm_ptr = 0, mm_size = 0\<rparr>, cells = None\<rparr>"

record xdp_desc =
  d_addr :: u64
  d_len :: u32
  d_options :: u32

definition xdp_desc_new :: "u64 \<Rightarrow> u32 \<Rightarrow> u32 \<Rightarrow> xdp_desc" where
  "xdp_desc_new addr len options = \<lparr>d_addr = addr, d_len = len, d_options = options\<rparr>"

record 'a ring =
  ring_mem :: "'a ring_mmap"
  ring_len :: usize
  mod_mask :: u32

definition ring_default :: "'a ring" where
  "ring_default = \<lparr>ring_mem = ring_mmap_default, ring_len = 0, mod_mask = 0\<rparr>"

section \<open>Accessors\<close>

definition frame_size :: "'a ring \<Rightarrow> u64" where
  "frame_size r = FRAME_SIZE"

text \<open>Access through the pointers: \<open>Undef\<close> when they are null.\<close>

definition with_cells :: "'a ring \<Rightarrow> ('a ring_cells \<Rightarrow> ('e, 'b) res) \<Rightarrow> ('e, 'b) res" where
  "with_cells r f = (case cells (ring_mem r) of None \<Rightarrow> Undef | Some c \<Rightarrow> f c)"

definition set_cells :: "'a ring \<Rightarrow> 'a ring_cells \<Rightarrow> 'a ring" where
  "set_cells r c = r\<lparr>ring_mem := (ring_mem r)\<lparr>cells := Some c\<rparr>\<rparr>"

definition ring_consumer :: "'a ring \<Rightarrow> ('e, u32) res" where
  "ring_consumer r = with_cells r (\<lambda>c. Ok (consumer_ix c))"

definition ring_producer :: "'a ring \<Rightarrow> ('e, u32) res" where
  "ring_producer r = with_cells r (\<lambda>c. Ok (producer_ix c))"

definition update_producer :: "'a ring \<Rightarrow> u32 \<Rightarrow> ('e, 'a ring) res" where
  "update_producer r v = with_cells r (\<lambda>c. Ok (set_cells r (c\<lparr>producer_ix := v\<rparr>)))"

definition update_consumer :: "'a ring \<Rightarrow> u32 \<Rightarrow> ('e, 'a ring) res" where
  "update_consumer r v = with_cells r (\<lambda>c. Ok (set_cells r (c\<lparr>consumer_ix := v\<rparr>)))"

definition ring_flags :: "'a ring \<Rightarrow> ('e, u32) res" where
  "ring_flags r = with_cells r (\<lambda>c. Ok (flags_ix c))"

definition increment :: "build \<Rightarrow> 'a ring \<Rightarrow> u32 \<Rightarrow> ('e, u32) res" where
  "increment b r v =
     res_then (add_chk b v 1) (\<lambda>v1.
     res_then (sub_chk b (ring_len r) 1) (\<lambda>l1.
     Ok (v1 AND ucast l1)))"

text \<open>
  \<^verbatim>\<open>desc_at\<close> reads a slot; \<^verbatim>\<open>mut_desc_at\<close> gives a mutable reference to it, modelled by the
  function that the caller applies to the slot.
\<close>

definition desc_at :: "build \<Rightarrow> 'a ring \<Rightarrow> u32 \<Rightarrow> ('e, 'a) res" where
  "desc_at b r i =
     (if debug_assertions b \<and> \<not> ucast i < ring_len r then Panic
      else with_cells r (\<lambda>c. if unat i < length (desc_ix c) then Ok (desc_ix c ! unat i) else Undef))"

definition mut_desc_at :: "build \<Rightarrow> 'a ring \<Rightarrow> u32 \<Rightarrow> ('a \<Rightarrow> 'a) \<Rightarrow> ('e, 'a ring) res" where
  "mut_desc_at b r i f =
     (if debug_assertions b \<and> \<not> ucast i < ring_len r then Panic
      else with_cells r (\<lambda>c. if unat i < length (desc_ix c)
        then Ok (set_cells r (c\<lparr>desc_ix := (desc_ix c)[unat i := f (desc_ix c ! unat i)]\<rparr>))
        else Undef))"

section \<open>Filling a ring\<close>

text \<open>
  \<^verbatim>\<open>for i in 0..self.len as u32\<close>: the loop counter \<open>i\<close> and the number of iterations left. The
  body takes the reference to the slot, with the checks of \<open>desc_at\<close>, and then writes \<open>mk\<close> of the frame
  address through it; the two instances differ in \<open>mk\<close> only.
\<close>

fun fill_loop :: "build \<Rightarrow> (u64 \<Rightarrow> 'a) \<Rightarrow> u32 \<Rightarrow> nat \<Rightarrow> u32 \<Rightarrow> 'a ring \<Rightarrow> ('e, 'a ring) res" where
  "fill_loop b mk start 0 i r = Ok r"
| "fill_loop b mk start (Suc n) i r =
     res_then (desc_at b r i) (\<lambda>_.
     res_then (add_chk b i start) (\<lambda>fr.
     res_then (mut_desc_at b r i (\<lambda>_. mk (ucast fr * FRAME_SIZE))) (\<lambda>r'.
     fill_loop b mk start n (i + 1) r')))"

definition fill_u64 :: "build \<Rightarrow> u64 ring \<Rightarrow> u32 \<Rightarrow> ('e, u64 ring) res" where
  "fill_u64 b r start = fill_loop b (\<lambda>a. a) start (unat (ucast (ring_len r) :: u32)) 0 r"

definition fill_desc :: "build \<Rightarrow> xdp_desc ring \<Rightarrow> u32 \<Rightarrow> ('e, xdp_desc ring) res" where
  "fill_desc b r start =
     fill_loop b (\<lambda>a. \<lparr>d_addr = a, d_len = 0, d_options = 0\<rparr>) start
       (unat (ucast (ring_len r) :: u32)) 0 r"

section \<open>Packet buffers\<close>

text \<open>
  A slice of UMEM bytes is the offset of its first byte and its length. \<open>frames\<close> is the pointer to
  the UMEM: \<open>None\<close> when it is null, \<open>Some n\<close> when it points to a mapping of \<open>n\<close> bytes. A slice that
  does not lie inside the mapping is undefined behaviour.
\<close>

record slice =
  sl_off :: nat
  sl_len :: nat

definition mut_bytes_at ::
  "build \<Rightarrow> xdp_desc ring \<Rightarrow> nat option \<Rightarrow> u32 \<Rightarrow> usize \<Rightarrow> xdp_desc ring \<times> ('e, slice) res" where
  "mut_bytes_at b r frames index len =
     (if safety_checks b \<and> \<not> index < ucast FRAME_COUNT then (r, Panic)
      else if safety_checks b \<and> \<not> (ucast len :: u32) < ucast FRAME_SIZE then (r, Panic)
      else try_in r (desc_at b r index) (\<lambda>d.
        try_in r (if safety_checks b then add_chk b (d_addr d) len else Ok (d_addr d + len)) (\<lambda>end_addr.
          if safety_checks b \<and> \<not> end_addr < FRAME_SIZE * FRAME_COUNT then (r, Panic)
          else try_in r (mut_desc_at b r index (\<lambda>d. d\<lparr>d_len := ucast len\<rparr>)) (\<lambda>r'.
            case frames of
              None \<Rightarrow> (r', Undef)
            | Some n \<Rightarrow>
                if unat (d_addr d) + unat len \<le> n
                then (r', Ok \<lparr>sl_off = unat (d_addr d), sl_len = unat len\<rparr>)
                else (r', Undef)))))"

definition set_desc :: "build \<Rightarrow> xdp_desc ring \<Rightarrow> u32 \<Rightarrow> u32 \<Rightarrow> ('e, xdp_desc ring) res" where
  "set_desc b r index len =
     (if safety_checks b \<and> \<not> index < ucast FRAME_COUNT then Panic
      else if safety_checks b \<and> \<not> len < ucast FRAME_SIZE then Panic
      else mut_desc_at b r index
        (\<lambda>_. \<lparr>d_addr = ucast index * FRAME_SIZE, d_len = len, d_options = 0\<rparr>))"

end
