(* ===== verification/Slots.thy ===== *)
theory Slots
  imports Ring
begin

unbundle bit_operations_syntax

text \<open>
  The contract between a ring and the socket that uses it. A client of a ring reads and writes
  slots by a free-running 32-bit index and sees a run of consecutive slots as a list (a window).
  The locale \<open>slot_store\<close> states what reads and writes promise, the locale \<open>published_ring\<close> adds
  the producer index that the other side reads; the lemmas about windows are proved once from
  these laws. Both are interpreted on the rings of the theory \<open>Ring\<close>.
\<close>

section \<open>Windows\<close>

definition window :: "(u32 \<Rightarrow> 'a) \<Rightarrow> u32 \<Rightarrow> nat \<Rightarrow> 'a list" where
  "window f s n = map (\<lambda>i. f (s + of_nat i)) [0..<n]"

lemma length_window [simp]: "length (window f s n) = n"
  by (simp add: window_def)

lemma window_0 [simp]: "window f s 0 = []"
  by (simp add: window_def)

lemma nth_window [simp]: "i < n \<Longrightarrow> window f s n ! i = f (s + of_nat i)"
  by (simp add: window_def)

lemma window_Suc: "window f s (Suc n) = window f s n @ [f (s + of_nat n)]"
  by (simp add: window_def)

lemma window_append: "window f s (n + m) = window f s n @ window f (s + of_nat n) m"
  by (induction m) (simp_all add: window_Suc add.assoc)

lemma window_Cons: "window f s (Suc n) = f s # window f (s + 1) n"
  using window_append [of f s 1 n] by (simp add: window_def)

lemma window_numeral: "window f s (numeral k) = f s # window f (s + 1) (pred_numeral k)"
  by (simp add: numeral_eq_Suc window_Cons)

lemma window_split: "k \<le> n \<Longrightarrow> window f s n = window f s k @ window f (s + of_nat k) (n - k)"
  using window_append [of f s k "n - k"] by simp

lemma take_window: "k \<le> n \<Longrightarrow> take k (window f s n) = window f s k"
  by (simp add: window_split)

lemma drop_window: "k \<le> n \<Longrightarrow> drop k (window f s n) = window f (s + of_nat k) (n - k)"
  by (simp add: window_split)

lemma map_window: "map g (window f s n) = window (\<lambda>i. g (f i)) s n"
  by (simp add: window_def)

lemma window_cong:
  assumes "\<And>i. i < n \<Longrightarrow> f (s + of_nat i) = g (t + of_nat i)"
  shows "window f s n = window g t n"
  using assms by (simp add: window_def)

section \<open>The slot contract\<close>

locale slot_store =
  fixes ok :: "'r \<Rightarrow> bool"
    and cap :: "'r \<Rightarrow> nat"
    and rd :: "'r \<Rightarrow> u32 \<Rightarrow> 'a"
    and wr :: "'r \<Rightarrow> u32 \<Rightarrow> 'a \<Rightarrow> 'r"
  assumes cap_size: "ok r \<Longrightarrow> ring_size (cap r)"
    and ok_wr: "ok r \<Longrightarrow> ok (wr r i v)"
    and cap_wr: "ok r \<Longrightarrow> cap (wr r i v) = cap r"
    and rd_cong: "ok r \<Longrightarrow> unat i mod cap r = unat j mod cap r \<Longrightarrow> rd r i = rd r j"
    and rd_wr_same: "ok r \<Longrightarrow> unat i mod cap r = unat j mod cap r \<Longrightarrow> rd (wr r i v) j = v"
    and rd_wr_other: "ok r \<Longrightarrow> unat i mod cap r \<noteq> unat j mod cap r \<Longrightarrow> rd (wr r i v) j = rd r j"
begin

lemma rd_wr_offset:
  assumes "ok r" "i < cap r" "k < cap r"
  shows "rd (wr r (s + of_nat k) v) (s + of_nat i) = (if i = k then v else rd r (s + of_nat i))"
proof (cases "i = k")
  case True
  then show ?thesis using assms(1) by (simp add: rd_wr_same)
next
  case False
  have "(unat s + k) mod cap r \<noteq> (unat s + i) mod cap r"
    using mod_offset_eq [of k "cap r" i "unat s"] assms False by auto
  then have "unat (s + of_nat k) mod cap r \<noteq> unat (s + of_nat i) mod cap r"
    using cap_size [OF assms(1)] by (simp add: unat_plus_of_nat_mod_ring)
  then show ?thesis using assms(1) False by (simp add: rd_wr_other)
qed

text \<open>A write outside a window leaves it, one just behind it extends it, one inside replaces.\<close>

lemma window_wr_outside:
  assumes "ok r" "n \<le> k" "k < cap r"
  shows "window (rd (wr r (s + of_nat k) v)) s n = window (rd r) s n"
  using assms by (intro window_cong) (simp add: rd_wr_offset)

lemma window_wr_snoc:
  assumes "ok r" "n < cap r"
  shows "window (rd (wr r (s + of_nat n) v)) s (Suc n) = window (rd r) s n @ [v]"
  using assms by (simp add: window_Suc window_wr_outside rd_wr_same)

lemma window_wr_inside:
  assumes "ok r" "k < n" "n \<le> cap r"
  shows "window (rd (wr r (s + of_nat k) v)) s n = (window (rd r) s n)[k := v]"
  using assms by (intro nth_equalityI) (auto simp: rd_wr_offset nth_list_update)

lemma rd_wrap: "ok r \<Longrightarrow> rd r (s + of_nat (cap r)) = rd r s"
  by (rule rd_cong) (simp_all add: unat_plus_of_nat_mod_ring cap_size)

lemma window_wrap:
  assumes "ok r"
  shows "window (rd r) (s + of_nat (cap r)) n = window (rd r) s n"
proof (rule window_cong)
  fix i
  have "s + of_nat (cap r) + of_nat i = s + of_nat i + of_nat (cap r)" by (simp add: ac_simps)
  then show "rd r (s + of_nat (cap r) + of_nat i) = rd r (s + of_nat i)"
    by (simp only: rd_wrap [OF assms])
qed

end

text \<open>A ring whose producer index is published to the other side.\<close>

locale published_ring = slot_store ok cap rd wr
  for ok :: "'r \<Rightarrow> bool"
    and cap :: "'r \<Rightarrow> nat"
    and rd :: "'r \<Rightarrow> u32 \<Rightarrow> 'a"
    and wr :: "'r \<Rightarrow> u32 \<Rightarrow> 'a \<Rightarrow> 'r" +
  fixes head :: "'r \<Rightarrow> u32"
    and publish :: "'r \<Rightarrow> u32 \<Rightarrow> 'r"
  assumes head_wr: "ok r \<Longrightarrow> head (wr r i v) = head r"
    and head_publish: "ok r \<Longrightarrow> head (publish r h) = h"
    and rd_publish: "ok r \<Longrightarrow> rd (publish r h) = rd r"
    and ok_publish: "ok r \<Longrightarrow> ok (publish r h)"
    and cap_publish: "ok r \<Longrightarrow> cap (publish r h) = cap r"
begin

text \<open>Writing the slot at the head and publishing the next index appends one entry.\<close>

lemma entries_push:
  assumes r: "ok r" and room: "unat (head r - c) < cap r"
    and r': "r' = publish (wr r (head r) v) (head r + 1)"
  shows "window (rd r') c (unat (head r' - c)) = window (rd r) c (unat (head r - c)) @ [v]"
proof -
  let ?n = "unat (head r - c)"
  have w: "ok (wr r (head r) v)" using r by (rule ok_wr)
  have le: "cap r \<le> 2 ^ 31" by (rule ring_size_le [OF cap_size [OF r]])
  have "unat (head r - c + 1) = Suc ?n"
    by (rule unat_plus_1_u32) (use room le in simp)
  then have n: "unat (head r' - c) = Suc ?n"
    by (simp only: r' head_publish [OF w] diff_add_eq)
  have h: "c + of_nat ?n = head r" by simp
  have "window (rd r') c (Suc ?n) = window (rd (wr r (c + of_nat ?n) v)) c (Suc ?n)"
    by (simp only: r' rd_publish [OF w] h)
  also have "\<dots> = window (rd r) c ?n @ [v]"
    by (rule window_wr_snoc [OF r room])
  finally show ?thesis by (simp only: n)
qed

end

section \<open>Rings keep the contract\<close>

text \<open>
  A well-formed ring has valid pointers, an array of \<open>ring_len\<close> descriptors, a length that is a
  power of two and the mask that belongs to it.
\<close>

definition ring_ok :: "'a ring \<Rightarrow> bool" where
  "ring_ok r \<longleftrightarrow>
     (case cells (ring_mem r) of
        None \<Rightarrow> False
      | Some c \<Rightarrow> length (desc_ix c) = unat (ring_len r)) \<and>
     ring_size (unat (ring_len r)) \<and>
     mod_mask r = of_nat (unat (ring_len r) - 1)"

definition ring_cap :: "'a ring \<Rightarrow> nat" where
  "ring_cap r = unat (ring_len r)"

definition the_cells :: "'a ring \<Rightarrow> 'a ring_cells" where
  "the_cells r = the (cells (ring_mem r))"

definition slot_rd :: "'a ring \<Rightarrow> u32 \<Rightarrow> 'a" where
  "slot_rd r i = desc_ix (the_cells r) ! unat (i AND mod_mask r)"

definition slot_wr :: "'a ring \<Rightarrow> u32 \<Rightarrow> 'a \<Rightarrow> 'a ring" where
  "slot_wr r i v = set_cells r
     (the_cells r\<lparr>desc_ix := (desc_ix (the_cells r))[unat (i AND mod_mask r) := v]\<rparr>)"

definition prod_ix :: "'a ring \<Rightarrow> u32" where "prod_ix r = producer_ix (the_cells r)"
definition cons_ix :: "'a ring \<Rightarrow> u32" where "cons_ix r = consumer_ix (the_cells r)"

definition set_prod :: "'a ring \<Rightarrow> u32 \<Rightarrow> 'a ring" where
  "set_prod r h = set_cells r (the_cells r\<lparr>producer_ix := h\<rparr>)"
definition set_cons :: "'a ring \<Rightarrow> u32 \<Rightarrow> 'a ring" where
  "set_cons r h = set_cells r (the_cells r\<lparr>consumer_ix := h\<rparr>)"

lemma set_cells_simps [simp]:
  "ring_len (set_cells r c) = ring_len r" "mod_mask (set_cells r c) = mod_mask r"
  "the_cells (set_cells r c) = c" "cells (ring_mem (set_cells r c)) = Some c"
  "set_cells (set_cells r c) c' = set_cells r c'"
  by (simp_all add: set_cells_def the_cells_def)

lemma ring_okD:
  assumes "ring_ok r"
  shows "cells (ring_mem r) = Some (the_cells r)" "length (desc_ix (the_cells r)) = ring_cap r"
    "ring_size (ring_cap r)" "mod_mask r = of_nat (ring_cap r - 1)"
  using assms by (auto simp: ring_ok_def the_cells_def ring_cap_def split: option.splits)

lemma ring_ok_iff:
  "ring_ok r \<longleftrightarrow> cells (ring_mem r) = Some (the_cells r) \<and>
     length (desc_ix (the_cells r)) = ring_cap r \<and> ring_size (ring_cap r) \<and>
     mod_mask r = of_nat (ring_cap r - 1)"
  by (auto simp: ring_ok_def the_cells_def ring_cap_def split: option.splits)

lemma slot_index: "ring_ok r \<Longrightarrow> unat (i AND mod_mask r) = unat i mod ring_cap r"
  by (simp only: ring_okD(4) unat_and_mask [OF ring_okD(3)])

lemma slot_index_lt: "ring_ok r \<Longrightarrow> unat (i AND mod_mask r) < ring_cap r"
  by (simp add: slot_index ring_okD(3) ring_size_pos)

named_theorems ring_simps \<open>how the ring operations act on a well-formed ring\<close>

lemma cap_ring_simps [simp]:
  "ring_cap (slot_wr r i v) = ring_cap r" "ring_cap (set_prod r h) = ring_cap r"
  "ring_cap (set_cons r h) = ring_cap r"
  "ring_len (slot_wr r i v) = ring_len r" "ring_len (set_prod r h) = ring_len r"
  "ring_len (set_cons r h) = ring_len r"
  "mod_mask (slot_wr r i v) = mod_mask r" "mod_mask (set_prod r h) = mod_mask r"
  "mod_mask (set_cons r h) = mod_mask r"
  by (simp_all add: ring_cap_def slot_wr_def set_prod_def set_cons_def)

lemma index_ring_simps [simp]:
  "prod_ix (slot_wr r i v) = prod_ix r" "prod_ix (set_prod r h) = h" "prod_ix (set_cons r h) = prod_ix r"
  "cons_ix (slot_wr r i v) = cons_ix r" "cons_ix (set_prod r h) = cons_ix r" "cons_ix (set_cons r h) = h"
  by (simp_all add: prod_ix_def cons_ix_def slot_wr_def set_prod_def set_cons_def)

lemma slot_rd_publish [simp]:
  "slot_rd (set_prod r h) = slot_rd r" "slot_rd (set_cons r h) = slot_rd r"
  by (simp_all add: fun_eq_iff slot_rd_def set_prod_def set_cons_def)

lemma ring_ok_preserved [simp]:
  "ring_ok r \<Longrightarrow> ring_ok (slot_wr r i v)" "ring_ok r \<Longrightarrow> ring_ok (set_prod r h)"
  "ring_ok r \<Longrightarrow> ring_ok (set_cons r h)"
  by (simp_all add: ring_ok_iff) (simp_all add: slot_wr_def set_prod_def set_cons_def)

interpretation rings: published_ring ring_ok ring_cap slot_rd slot_wr prod_ix set_prod
proof unfold_locales
  show "ring_size (ring_cap r)" if "ring_ok r" for r :: "'a ring"
    using that by (rule ring_okD)
  show "slot_rd r i = slot_rd r j"
    if "ring_ok r" "unat i mod ring_cap r = unat j mod ring_cap r" for r :: "'a ring" and i j
    using that by (simp add: slot_rd_def slot_index)
  show "slot_rd (slot_wr r i v) j = v"
    if "ring_ok r" "unat i mod ring_cap r = unat j mod ring_cap r" for r :: "'a ring" and i j v
    using that slot_index_lt [of r j]
    by (simp add: slot_rd_def slot_wr_def slot_index ring_okD(2))
  show "slot_rd (slot_wr r i v) j = slot_rd r j"
    if "ring_ok r" "unat i mod ring_cap r \<noteq> unat j mod ring_cap r" for r :: "'a ring" and i j v
    using that by (simp add: slot_rd_def slot_wr_def slot_index)
qed simp_all

lemma slot_rd_wr: "ring_ok r \<Longrightarrow> slot_rd (slot_wr r i v) = (\<lambda>j. if unat i mod ring_cap r = unat j mod ring_cap r then v else slot_rd r j)"
  by (auto simp: fun_eq_iff rings.rd_wr_same rings.rd_wr_other)

text \<open>The operations of the code, on a well-formed ring, in terms of the contract.\<close>

lemma with_cells_ok [ring_simps]: "ring_ok r \<Longrightarrow> with_cells r f = f (the_cells r)"
  by (simp add: with_cells_def ring_okD)

lemma accessors_ok [ring_simps]:
  assumes "ring_ok r"
  shows "ring_consumer r = Ok (cons_ix r)" "ring_producer r = Ok (prod_ix r)"
    "update_producer r v = Ok (set_prod r v)" "update_consumer r v = Ok (set_cons r v)"
  using assms by (simp_all add: ring_consumer_def ring_producer_def update_producer_def
      update_consumer_def cons_ix_def prod_ix_def set_prod_def set_cons_def with_cells_ok)

lemma slot_in_range:
  assumes "ring_ok r"
  shows "(ucast (i AND mod_mask r) :: usize) < ring_len r"
  using slot_index_lt [OF assms, of i] by (simp add: word_less_nat_alt ring_cap_def)

lemma desc_at_ok [ring_simps]: "ring_ok r \<Longrightarrow> desc_at b r (i AND mod_mask r) = Ok (slot_rd r i)"
  by (simp add: desc_at_def slot_in_range with_cells_ok ring_okD(2) slot_index_lt slot_rd_def)

lemma mut_desc_at_ok [ring_simps]:
  "ring_ok r \<Longrightarrow> mut_desc_at b r (i AND mod_mask r) f = Ok (slot_wr r i (f (slot_rd r i)))"
  by (simp add: mut_desc_at_def slot_in_range with_cells_ok ring_okD(2) slot_index_lt
      slot_rd_def slot_wr_def)

end
