(* ===== verification/Ring_Facts.thy ===== *)
theory Ring_Facts
  imports Slots
begin

unbundle bit_operations_syntax

text \<open>
  What the operations of \<^verbatim>\<open>ring.rs\<close> do on well-formed rings: the frames that \<^verbatim>\<open>fill\<close> hands out, the
  slice that \<^verbatim>\<open>mut_bytes_at\<close> returns and the checks that keep it inside the UMEM, the bounds of
  \<^verbatim>\<open>increment\<close>, and the descriptor that \<^verbatim>\<open>set\<close> writes.
\<close>

section \<open>Frame addresses\<close>

definition frame_addr :: "nat \<Rightarrow> u64" where
  "frame_addr k = of_nat (k * 2048)"

lemma unat_frame_addr: "k < 2 ^ 32 \<Longrightarrow> unat (frame_addr k) = k * 2048"
  unfolding frame_addr_def by (rule unat_of_nat_u64) simp

lemma frame_addr_inj: "k < 2 ^ 32 \<Longrightarrow> l < 2 ^ 32 \<Longrightarrow> frame_addr k = frame_addr l \<Longrightarrow> k = l"
  by (drule arg_cong [where f = unat]) (simp add: unat_frame_addr)

lemma ucast_times_frame_size: "ucast (w :: u32) * FRAME_SIZE = frame_addr (unat w)"
  by (simp add: frame_addr_def FRAME_SIZE_def)

lemma unmasked_index: "ring_ok r \<Longrightarrow> unat i < ring_cap r \<Longrightarrow> i AND mod_mask r = i"
  by (rule word_unat_eq_iff [THEN iffD2]) (simp add: slot_index)

section \<open>Filling\<close>

lemma desc_at_direct: "ring_ok r \<Longrightarrow> unat i < ring_cap r \<Longrightarrow> desc_at b r i = Ok (slot_rd r i)"
  by (metis desc_at_ok unmasked_index)

lemma mut_desc_at_direct:
  "ring_ok r \<Longrightarrow> unat i < ring_cap r \<Longrightarrow> mut_desc_at b r i f = Ok (slot_wr r i (f (slot_rd r i)))"
  by (metis mut_desc_at_ok unmasked_index)

definition same_indices :: "'a ring \<Rightarrow> 'a ring \<Rightarrow> bool" where
  "same_indices r r' \<longleftrightarrow> ring_len r' = ring_len r \<and> prod_ix r' = prod_ix r \<and> cons_ix r' = cons_ix r"

lemma same_indices_cap: "same_indices r r' \<Longrightarrow> ring_cap r' = ring_cap r"
  by (simp add: same_indices_def ring_cap_def)

lemma fill_loop_ok:
  assumes "ring_ok r" "unat i + n \<le> ring_cap r" "unat start + ring_cap r \<le> 2 ^ 32"
  shows "\<exists>r'. (fill_loop b mk start n i r :: ('e, 'a ring) res) = Ok r' \<and> ring_ok r' \<and> same_indices r r' \<and>
    (\<forall>j < ring_cap r. slot_rd r' (of_nat j) =
       (if unat i \<le> j \<and> j < unat i + n then mk (frame_addr (unat start + j)) else slot_rd r (of_nat j)))"
  using assms
proof (induction n arbitrary: i r)
  case 0
  then show ?case by (auto simp: same_indices_def)
next
  case (Suc n)
  have cap: "ring_cap r < 2 ^ 32" using ring_okD(3) [OF Suc.prems(1)] by (rule ring_size_lt)
  have i: "unat i < ring_cap r" and sum: "unat i + unat start < 2 ^ 32" using Suc.prems by simp_all
  let ?r = "slot_wr r i (mk (frame_addr (unat start + unat i)))"
  have i1: "unat (i + 1) = Suc (unat i)"
  proof (cases "unat i < 2 ^ 32 - 1")
    case True then show ?thesis by (rule unat_plus_1_u32)
  next
    case False then show ?thesis using i cap by simp
  qed
  have "unat (i + start) = unat start + unat i"
    using sum by (simp add: unat_word_ariths(1))
  then have addr: "ucast (i + start) * FRAME_SIZE = frame_addr (unat start + unat i)"
    by (simp only: ucast_times_frame_size)
  have "(fill_loop b mk start (Suc n) i r :: ('e, 'a ring) res) = fill_loop b mk start n (i + 1) ?r"
    using sum i Suc.prems(1) by (simp add: desc_at_direct mut_desc_at_direct addr)
  moreover obtain r' where "(fill_loop b mk start n (i + 1) ?r :: ('e, 'a ring) res) = Ok r'" "ring_ok r'" "same_indices ?r r'"
    and rd: "\<forall>j < ring_cap r. slot_rd r' (of_nat j) =
       (if Suc (unat i) \<le> j \<and> j < Suc (unat i + n) then mk (frame_addr (unat start + j))
        else slot_rd ?r (of_nat j))"
    using Suc.IH [of ?r "i + 1"] Suc.prems i1 by auto
  moreover have "slot_rd ?r (of_nat j) =
      (if j = unat i then mk (frame_addr (unat start + j)) else slot_rd r (of_nat j))"
    if "j < ring_cap r" for j
    using rings.rd_wr_offset [OF Suc.prems(1) that i, of 0] by simp
  moreover have "slot_rd ?r i = mk (frame_addr (unat start + unat i))"
    using Suc.prems(1) by (simp add: rings.rd_wr_same)
  ultimately show ?case
    by (intro exI [of _ r']) (auto simp: same_indices_def)
qed

text \<open>What \<^verbatim>\<open>fill\<close> makes of a ring: every slot has the frame of its number.\<close>

definition filled_with :: "(u64 \<Rightarrow> 'a) \<Rightarrow> u32 \<Rightarrow> 'a ring \<Rightarrow> 'a ring \<Rightarrow> bool" where
  "filled_with mk start r r' \<longleftrightarrow> ring_ok r' \<and> same_indices r r' \<and>
     window (slot_rd r') 0 (ring_cap r) = map (\<lambda>k. mk (frame_addr (unat start + k))) [0..<ring_cap r]"

lemma fill_filled:
  assumes "ring_ok r" "unat start + ring_cap r \<le> 2 ^ 32"
  shows "\<exists>r'. fill_loop b mk start (unat (ucast (ring_len r) :: u32)) 0 r = Ok r' \<and> filled_with mk start r r'"
proof -
  have "ring_cap r < 2 ^ 32" using ring_okD(3) [OF assms(1)] by (rule ring_size_lt)
  then have n: "unat (ucast (ring_len r) :: u32) = ring_cap r"
    by (simp add: unat_ucast_64_32 ring_cap_def)
  show ?thesis
    using fill_loop_ok [OF assms(1), of 0 "ring_cap r" start b mk] assms(2)
    by (auto simp: n filled_with_def intro!: nth_equalityI)
qed

definition frame_desc :: "u64 \<Rightarrow> xdp_desc" where
  "frame_desc a = \<lparr>d_addr = a, d_len = 0, d_options = 0\<rparr>"

lemma fill_desc_filled:
  "ring_ok r \<Longrightarrow> unat start + ring_cap r \<le> 2 ^ 32 \<Longrightarrow>
    \<exists>r'. fill_desc b r start = Ok r' \<and> filled_with frame_desc start r r'"
  unfolding fill_desc_def frame_desc_def by (rule fill_filled)

lemma fill_u64_filled:
  "ring_ok r \<Longrightarrow> unat start + ring_cap r \<le> 2 ^ 32 \<Longrightarrow>
    \<exists>r'. fill_u64 b r start = Ok r' \<and> filled_with (\<lambda>a. a) start r r'"
  unfolding fill_u64_def by (rule fill_filled)

lemma fill_desc_Ok:
  assumes "ring_ok r" "unat start + ring_cap r \<le> 2 ^ 32" "fill_desc b r start = (Ok r' :: ('e, xdp_desc ring) res)"
  shows "filled_with frame_desc start r r'"
proof -
  obtain r'' where "fill_desc b r start = (Ok r'' :: ('e, xdp_desc ring) res)" "filled_with frame_desc start r r''"
    using fill_desc_filled [OF assms(1,2)] by blast
  then show ?thesis using assms(3) by simp
qed

lemma fill_u64_Ok:
  assumes "ring_ok r" "unat start + ring_cap r \<le> 2 ^ 32" "fill_u64 b r start = (Ok r' :: ('e, u64 ring) res)"
  shows "filled_with (\<lambda>a. a) start r r'"
proof -
  obtain r'' where "fill_u64 b r start = (Ok r'' :: ('e, u64 ring) res)" "filled_with (\<lambda>a. a) start r r''"
    using fill_u64_filled [OF assms(1,2)] by blast
  then show ?thesis using assms(3) by simp
qed

section \<open>Packet buffers\<close>

lemma mut_bytes_at_ok:
  assumes "ring_ok r" "ring_cap r \<le> 4096" "unat len < 2048"
    "unat (d_addr (slot_rd r i)) + unat len < 8388608" "8388608 \<le> n"
  shows "mut_bytes_at b r (Some n) (i AND mod_mask r) len =
    (slot_wr r i ((slot_rd r i)\<lparr>d_len := ucast len\<rparr>),
     Ok \<lparr>sl_off = unat (d_addr (slot_rd r i)), sl_len = unat len\<rparr>)"
proof -
  have 1: "i AND mod_mask r < ucast FRAME_COUNT"
    using slot_index_lt [OF assms(1), of i] assms(2) by (simp add: word_less_nat_alt FRAME_COUNT_def)
  have 2: "(ucast len :: u32) < ucast FRAME_SIZE"
    using assms(3) by (simp add: word_less_nat_alt FRAME_SIZE_def unat_ucast_64_32)
  have 3: "unat (d_addr (slot_rd r i) + len) = unat (d_addr (slot_rd r i)) + unat len"
    using assms(4) by (simp add: unat_word_ariths(1))
  then have 4: "d_addr (slot_rd r i) + len < FRAME_SIZE * FRAME_COUNT"
    using assms(4) by (simp add: word_less_nat_alt FRAME_SIZE_def FRAME_COUNT_def)
  show ?thesis
    using assms(1,4,5) 1 2 4 by (simp add: mut_bytes_at_def ring_simps)
qed

text \<open>
  With the safety checks compiled in, no descriptor content, index or length reaches memory
  outside the mapping, as long as \<open>addr + len\<close> does not wrap around 64 bits.
\<close>

lemma mut_bytes_at_in_bounds:
  assumes "safety_checks b" "ring_ok r" "8388608 \<le> n"
    "unat (d_addr (slot_rd r i)) + unat len < 2 ^ 64"
  shows "snd (mut_bytes_at b r (Some n) (i AND mod_mask r) len) = Panic \<or>
    (\<exists>s. snd (mut_bytes_at b r (Some n) (i AND mod_mask r) len) = Ok s \<and> sl_off s + sl_len s < 8388608)"
proof -
  have "unat (d_addr (slot_rd r i) + len) = unat (d_addr (slot_rd r i)) + unat len"
    using assms(4) by (simp add: unat_word_ariths(1))
  then show ?thesis
    using assms
    by (auto simp: mut_bytes_at_def ring_simps word_less_nat_alt FRAME_SIZE_def FRAME_COUNT_def
        add_chk_def)
qed

section \<open>Properties\<close>

lemma increment_lt:
  assumes "ring_ok r" "increment b r v = Ok w"
  shows "unat w < ring_cap r \<and> unat w = (unat v + 1) mod ring_cap r"
proof -
  have N: "ring_size (ring_cap r)" using assms(1) by (rule ring_okD)
  have "1 \<le> ring_len r"
    using ring_size_pos [OF N] by (simp add: ring_cap_def word_le_nat_alt)
  then have len: "unat (ring_len r - 1) = ring_cap r - 1"
    by (simp add: ring_cap_def unat_sub)
  have "(ucast (ring_len r - 1) :: u32) = of_nat (unat (ring_len r - 1))"
    by (rule ucast_eq_of_nat)
  then have "(ucast (ring_len r - 1) :: u32) = of_nat (ring_cap r - 1)"
    by (simp only: len)
  then have "w = (v + 1) AND of_nat (ring_cap r - 1)"
    using assms(2) \<open>1 \<le> ring_len r\<close> by (auto simp: increment_def res_then_Ok_iff add_chk_def split: if_splits)
  then have "unat w = unat (v + 1) mod ring_cap r"
    by (simp only: unat_and_mask [OF N])
  then show ?thesis
    using unat_add_mod_ring [OF N, of v 1] ring_size_pos [OF N] by simp
qed

end
