(* ===== verification/Socket.thy ===== *)
theory Socket
  imports Ring_Facts
begin

unbundle bit_operations_syntax

text \<open>
  The socket of \<^verbatim>\<open>xdp-socket/src/socket.rs\<close>: its fields, its errors, its two constructors, and the
  contract \<open>socket_dir\<close> of the two traits \<^verbatim>\<open>Seek_\<close> and \<^verbatim>\<open>Commit_\<close> that the methods shared by both
  directions are written against. The TX and the RX socket interpret the contract in the theories
  \<open>Tx\<close> and \<open>Rx\<close>.
\<close>

section \<open>State and errors\<close>

datatype ring_error = RingFull | RingEmpty | NotAvailable | InvalidIndex | InvalidLength | Io io_error

text \<open>\<^verbatim>\<open>Display\<close>, with the text of the I/O error as an argument.\<close>

fun display_ring_error :: "(io_error \<Rightarrow> string) \<Rightarrow> ring_error \<Rightarrow> string" where
  "display_ring_error f RingFull = ''Ring is full''"
| "display_ring_error f RingEmpty = ''Ring is empty''"
| "display_ring_error f NotAvailable = ''Not enough available frames''"
| "display_ring_error f InvalidIndex = ''Invalid index for ring access''"
| "display_ring_error f InvalidLength = ''Invalid length for ring access''"
| "display_ring_error f (Io e) = ''I/O error: '' @ f e"

record inner =
  umem :: owned_mmap
  inner_fd :: int

record socket =
  s_inner :: "inner option"
  x_ring :: "xdp_desc ring"
  u_ring :: "u64 ring"
  available :: u32
  producer :: u32
  consumer :: u32
  frames :: "nat option"
  raw_fd :: int

definition socket_default :: socket where
  "socket_default =
     \<lparr>s_inner = None, x_ring = ring_default, u_ring = ring_default,
      available = 0, producer = 0, consumer = 0, frames = None, raw_fd = 0\<rparr>"

text \<open>The pointer \<^verbatim>\<open>inner.umem.0 as *mut u8\<close>, as the mapping it points to.\<close>

definition umem_frames :: "owned_mmap \<Rightarrow> nat option" where
  "umem_frames m = (if mm_ptr m = 0 then None else Some (unat (mm_size m)))"

definition socket_new :: "inner option \<Rightarrow> xdp_desc ring \<Rightarrow> u64 ring \<Rightarrow> socket" where
  "socket_new io x u =
     (case io of
        Some i \<Rightarrow>
          \<lparr>s_inner = Some i, x_ring = x, u_ring = u,
           available = ucast (ring_len x), producer = 0, consumer = 0,
           frames = umem_frames (umem i), raw_fd = inner_fd i\<rparr>
      | None \<Rightarrow> socket_default)"

definition socket_frame_size :: "socket \<Rightarrow> usize" where
  "socket_frame_size s = frame_size (x_ring s)"

section \<open>Methods shared by both directions\<close>

text \<open>
  The \<^verbatim>\<open>impl\<close> block is generic in the direction and calls the trait methods; the trait
  implementation is the first argument here.
\<close>

type_synonym seek_impl = "build \<Rightarrow> socket \<Rightarrow> usize \<Rightarrow> socket \<times> (ring_error, usize) res"
type_synonym commit_impl = "build \<Rightarrow> socket \<Rightarrow> usize \<Rightarrow> socket \<times> (ring_error, unit) res"

definition socket_seek :: "seek_impl \<Rightarrow> build \<Rightarrow> socket \<Rightarrow> socket \<times> (ring_error, usize) res" where
  "socket_seek seek b s = seek b s 1"

definition socket_seek_n :: "seek_impl \<Rightarrow> build \<Rightarrow> socket \<Rightarrow> usize \<Rightarrow> socket \<times> (ring_error, usize) res" where
  "socket_seek_n seek b s n = seek b s n"

definition socket_commit :: "commit_impl \<Rightarrow> build \<Rightarrow> socket \<Rightarrow> socket \<times> (ring_error, unit) res" where
  "socket_commit commit b s = commit b s 1"

definition socket_commit_n :: "commit_impl \<Rightarrow> build \<Rightarrow> socket \<Rightarrow> usize \<Rightarrow> socket \<times> (ring_error, unit) res" where
  "socket_commit_n commit b s n = commit b s n"

section \<open>The contract of a direction\<close>

text \<open>
  What \<^verbatim>\<open>seek_\<close> and \<^verbatim>\<open>commit_\<close> promise in both directions, on sockets that satisfy an invariant
  \<open>wf\<close> of the direction.
\<close>

locale socket_dir =
  fixes wf :: "socket \<Rightarrow> bool"
    and seek :: seek_impl
    and commit :: commit_impl
  assumes seek_hit: "n \<le> ucast (available s) \<Longrightarrow> seek b s n = (s, Ok n)"
    and seek_miss: "wf s \<Longrightarrow> \<not> n \<le> ucast (available s) \<Longrightarrow>
      (\<exists>e. seek b s n = (s, Err e)) \<or>
      (\<exists>s' k. seek b s n = (s', Ok k) \<and> wf s' \<and> 1 \<le> available s')"
    and commit_refused: "safety_checks b \<Longrightarrow> available s < ucast n \<Longrightarrow>
      commit b s n = (s, Err NotAvailable)"
    and commit_done: "wf s \<Longrightarrow> ucast n \<le> available s \<Longrightarrow>
      \<exists>s'. commit b s n = (s', Ok ()) \<and> wf s' \<and> available s' = available s - ucast n"
begin

lemma seek_preserves:
  assumes "wf s"
  shows "wf (fst (seek b s n)) \<and> returns (snd (seek b s n))"
  using assms seek_hit [of n s b] seek_miss [of s n b] by (cases "n \<le> ucast (available s)") auto

lemma commit_preserves:
  assumes "wf s" "safety_checks b"
  shows "wf (fst (commit b s n)) \<and> returns (snd (commit b s n))"
  using assms commit_refused [of b s n] commit_done [of s n b]
  by (cases "available s < ucast n") (auto simp: not_less)

text \<open>A failed call has no effect.\<close>

lemma seek_err_same: "wf s \<Longrightarrow> seek b s n = (s', Err e) \<Longrightarrow> s' = s"
  using seek_hit [of n s b] seek_miss [of s n b] by (cases "n \<le> ucast (available s)") auto

lemma commit_err_same:
  "wf s \<Longrightarrow> safety_checks b \<Longrightarrow> commit b s n = (s', Err e) \<Longrightarrow> s' = s \<and> e = NotAvailable"
  using commit_refused [of b s n] commit_done [of s n b]
  by (cases "available s < ucast n") (auto simp: not_less)

text \<open>After a successful \<^verbatim>\<open>seek()\<close> a \<^verbatim>\<open>commit()\<close> succeeds.\<close>

lemma seek_then_available:
  assumes "wf s" "socket_seek seek b s = (s', Ok k)"
  shows "wf s' \<and> 1 \<le> available s'"
proof (cases "(1 :: usize) \<le> ucast (available s)")
  case True
  then have "s' = s" using assms(2) seek_hit [of 1 s b] by (simp add: socket_seek_def)
  moreover have "1 \<le> available s" using True by (simp add: word_le_nat_alt)
  ultimately show ?thesis using assms(1) by simp
next
  case False
  then show ?thesis using assms seek_miss [of s 1 b] by (auto simp: socket_seek_def)
qed

lemma seek_then_commit:
  assumes "wf s" "socket_seek seek b s = (s', Ok k)"
  shows "\<exists>s''. socket_commit commit b s' = (s'', Ok ()) \<and> wf s'' \<and> available s'' = available s' - 1"
  using seek_then_available [OF assms] commit_done [of s' 1 b] by (simp add: socket_commit_def)

end

end
