(* ===== verification/Tx.thy ===== *)
theory Tx
  imports Socket
begin

unbundle bit_operations_syntax

text \<open>
  The transmit socket: \<^verbatim>\<open>seek_\<close> (\<^verbatim>\<open>seek.rs\<close>), \<^verbatim>\<open>peek_\<close> (\<^verbatim>\<open>peek.rs\<close>) and \<^verbatim>\<open>commit_\<close> (\<^verbatim>\<open>commit.rs\<close>) for
  \<^verbatim>\<open>Socket<_TX>\<close>, what each does on a well-formed socket, and the interpretation of the contract
  \<open>socket_dir\<close>.
\<close>

section \<open>Operations\<close>

lemma try_in_cong [fundef_cong]:
  "s = s' \<Longrightarrow> r = r' \<Longrightarrow> (\<And>a. r' = Ok a \<Longrightarrow> k a = k' a) \<Longrightarrow> try_in s r k = try_in s' r' k'"
  by (cases r') simp_all

text \<open>
  The reclaiming loop of \<^verbatim>\<open>seek_\<close>. Every round takes one address from the completion ring and
  writes it as a descriptor at the producer's slot of the TX ring.
\<close>

function seek_tx_loop :: "build \<Rightarrow> u32 \<Rightarrow> usize \<Rightarrow> socket \<Rightarrow> socket \<times> (ring_error, usize) res" where
  "seek_tx_loop b c_producer n s =
     try_in s (desc_at b (u_ring s) (consumer s AND mod_mask (u_ring s))) (\<lambda>addr.
     let desc = xdp_desc_new addr 0 0;
         s1 = s\<lparr>consumer := consumer s + 1\<rparr>
     in try_in s1 (update_consumer (u_ring s1) (consumer s1)) (\<lambda>c_ring.
     let s2 = s1\<lparr>u_ring := c_ring\<rparr>
     in try_in s2 (mut_desc_at b (x_ring s2) (producer s2 AND mod_mask (x_ring s2)) (\<lambda>_. desc)) (\<lambda>x.
     let s3 = s2\<lparr>x_ring := x\<rparr>
     in try_in s3 (add_chk b (available s3) 1) (\<lambda>a.
     let s4 = s3\<lparr>available := a\<rparr>
     in if n \<le> ucast (available s4) \<or> c_producer = consumer s4
        then (s4, Ok (ucast (available s4)))
        else seek_tx_loop b c_producer n s4))))"
  by pat_completeness auto
termination
proof (relation "measure (\<lambda>(b, cp, n, s). unat (cp - consumer s - 1))", goal_cases)
  case 1
  show ?case by simp
next
  case (2 b cp n s addr desc s1 c_ring s2 x s3 a s4)
  then have cp: "cp \<noteq> consumer s4" and c: "consumer s4 = consumer s + 1" by simp_all
  have "cp - consumer s - 1 \<noteq> 0" using cp c by (metis diff_diff_eq right_minus_eq)
  then have "unat (cp - consumer s - 1 - 1) < unat (cp - consumer s - 1)"
    by (rule unat_dec_u32)
  then have "unat (cp - (consumer s + 1) - 1) < unat (cp - consumer s - 1)"
    by (simp only: diff_diff_eq)
  then show ?case by (simp only: c in_measure prod.case)
qed

declare seek_tx_loop.simps [simp del]

definition seek_tx :: seek_impl where
  "seek_tx b s n =
     (if n \<le> ucast (available s) then (s, Ok n)
      else try_in s (ring_producer (u_ring s)) (\<lambda>c_producer.
        if c_producer = consumer s then (s, Err RingFull)
        else seek_tx_loop b c_producer n s))"

definition peek_tx :: "build \<Rightarrow> socket \<Rightarrow> usize \<Rightarrow> usize \<Rightarrow> socket \<times> (ring_error, slice) res" where
  "peek_tx b s index len =
     (if safety_checks b \<and> ucast (available s) \<le> index then (s, Err InvalidIndex)
      else if safety_checks b \<and> frame_size (x_ring s) < len then (s, Err InvalidLength)
      else
        let x_head = (producer s + ucast index) AND mod_mask (x_ring s)
        in try_in s (mut_desc_at b (x_ring s) x_head (\<lambda>d. d\<lparr>d_len := ucast len\<rparr>)) (\<lambda>x.
           case mut_bytes_at b x (frames s) x_head len of (x', r) \<Rightarrow> (s\<lparr>x_ring := x'\<rparr>, r)))"

definition peek_tx_0 :: "build \<Rightarrow> socket \<Rightarrow> usize \<Rightarrow> socket \<times> (ring_error, slice) res" where
  "peek_tx_0 b s len = peek_tx b s 0 len"

definition peek_at_tx :: "build \<Rightarrow> socket \<Rightarrow> usize \<Rightarrow> usize \<Rightarrow> socket \<times> (ring_error, slice) res" where
  "peek_at_tx b s index len = peek_tx b s index len"

definition seek_and_peek_tx :: "build \<Rightarrow> socket \<Rightarrow> usize \<Rightarrow> socket \<times> (ring_error, slice) res" where
  "seek_and_peek_tx b s len = and_then (seek_tx b s 1) (\<lambda>_ s'. peek_tx b s' 0 len)"

definition commit_tx :: commit_impl where
  "commit_tx b s n =
     (if safety_checks b \<and> available s < ucast n then (s, Err NotAvailable)
      else try_in s (sub_chk b (available s) (ucast n)) (\<lambda>a.
        let s1 = s\<lparr>available := a, producer := producer s + ucast n\<rparr>
        in try_in s1 (update_producer (x_ring s1) (producer s1)) (\<lambda>x.
           (s1\<lparr>x_ring := x\<rparr>, Ok ()))))"

section \<open>Well-formed transmit sockets\<close>

text \<open>The number of completed frames the socket has not reclaimed yet.\<close>

definition pending :: "socket \<Rightarrow> nat" where
  "pending s = unat (prod_ix (u_ring s) - consumer s)"

text \<open>
  Both rings are well-formed and of the same size, and the frames the application holds and those
  waiting in the completion ring fit in it.
\<close>

definition wf_tx :: "socket \<Rightarrow> bool" where
  "wf_tx s \<longleftrightarrow> ring_ok (x_ring s) \<and> ring_ok (u_ring s) \<and>
     ring_cap (u_ring s) = ring_cap (x_ring s) \<and>
     unat (available s) + pending s \<le> ring_cap (x_ring s)"

lemma wf_txD:
  assumes "wf_tx s"
  shows "ring_ok (x_ring s)" "ring_ok (u_ring s)" "ring_cap (u_ring s) = ring_cap (x_ring s)"
    "unat (available s) + pending s \<le> ring_cap (x_ring s)" "ring_cap (x_ring s) \<le> 2 ^ 31"
    "ring_size (ring_cap (x_ring s))"
  using assms ring_size_le ring_okD(3) unfolding wf_tx_def by blast+

text \<open>The socket after \<open>k\<close> rounds of the reclaiming loop.\<close>

definition reclaimed :: "nat \<Rightarrow> socket \<Rightarrow> socket" where
  "reclaimed k s = s\<lparr>
     consumer := consumer s + of_nat k,
     u_ring := set_cons (u_ring s) (consumer s + of_nat k),
     x_ring := slot_wr (x_ring s) (producer s)
       (xdp_desc_new (slot_rd (u_ring s) (consumer s + of_nat (k - 1))) 0 0),
     available := available s + of_nat k\<rparr>"

lemma slot_wr_twice [simp]: "slot_wr (slot_wr r i v) i w = slot_wr r i w"
  by (simp add: slot_wr_def)

lemma set_cons_twice [simp]: "set_cons (set_cons r h) h' = set_cons r h'"
  by (simp add: set_cons_def)

lemma reclaimed_Suc:
  "0 < k \<Longrightarrow> reclaimed k (reclaimed (Suc 0) s) = reclaimed (Suc k) s"
  by (cases k) (simp_all add: reclaimed_def algebra_simps)

lemma pending_reclaimed:
  "k \<le> pending s \<Longrightarrow> pending (reclaimed k s) = pending s - k"
proof -
  assume k: "k \<le> pending s"
  have "k < 2 ^ 32"
    using k unfolding pending_def by (rule order_le_less_trans) (rule unat_lt_u32)
  then have "unat (of_nat k :: u32) = k" by (rule unat_of_nat_u32)
  moreover have "(of_nat k :: u32) \<le> prod_ix (u_ring s) - consumer s"
    using k calculation by (simp add: word_le_nat_alt pending_def)
  ultimately have "unat (prod_ix (u_ring s) - consumer s - of_nat k) = pending s - k"
    by (simp add: unat_sub pending_def)
  then show ?thesis by (simp add: pending_def reclaimed_def diff_diff_eq)
qed

lemma available_reclaimed:
  "wf_tx s \<Longrightarrow> k \<le> pending s \<Longrightarrow> unat (available (reclaimed k s)) = unat (available s) + k"
  using wf_txD(4,5) [of s] by (simp add: reclaimed_def unat_word_ariths(1) unat_of_nat)

lemma wf_tx_reclaimed:
  assumes "wf_tx s" "k \<le> pending s"
  shows "wf_tx (reclaimed k s)"
  using wf_txD [OF assms(1)] pending_reclaimed [OF assms(2)] available_reclaimed [OF assms] assms(2)
  by (simp add: wf_tx_def) (simp add: reclaimed_def)

section \<open>What the operations do\<close>

lemma seek_tx_loop_step:
  assumes "wf_tx s" "0 < pending s"
  shows "seek_tx_loop b cp n s =
    (if n \<le> ucast (available (reclaimed (Suc 0) s)) \<or> cp = consumer (reclaimed (Suc 0) s)
     then (reclaimed (Suc 0) s, Ok (ucast (available (reclaimed (Suc 0) s))))
     else seek_tx_loop b cp n (reclaimed (Suc 0) s))"
proof -
  have "unat (available s) + 1 < 2 ^ 32" using wf_txD(4,5) [OF assms(1)] assms(2) by simp
  then have "add_chk b (available s) 1 = (Ok (available s + 1) :: (ring_error, u32) res)"
    by simp
  then show ?thesis
    by (subst seek_tx_loop.simps)
      (simp add: ring_simps wf_txD [OF assms(1)] reclaimed_def Let_def)
qed

lemma seek_tx_loop_spec:
  assumes "wf_tx s" "0 < pending s" "unat (available s) < unat n"
    "k = min (unat n - unat (available s)) (pending s)"
  shows "seek_tx_loop b (prod_ix (u_ring s)) n s =
    (reclaimed k s, Ok (ucast (available (reclaimed k s))))"
  using assms
proof (induction "pending s" arbitrary: s k rule: less_induct)
  case less
  let ?s = "reclaimed (Suc 0) s" and ?cp = "prod_ix (u_ring s)"
  have wf: "wf_tx ?s" using less.prems(1,2) by (intro wf_tx_reclaimed) simp_all
  have pend: "pending ?s = pending s - 1" using less.prems(2) by (simp add: pending_reclaimed)
  have av: "unat (available ?s) = unat (available s) + 1"
    using less.prems(1,2) by (simp add: available_reclaimed)
  have cp: "prod_ix (u_ring ?s) = ?cp" by (simp add: reclaimed_def)
  have emp: "?cp = consumer ?s \<longleftrightarrow> pending ?s = 0"
    by (simp add: pending_def cp unat_eq_0)
  have hit: "n \<le> ucast (available ?s) \<longleftrightarrow> unat n \<le> unat (available s) + 1"
    by (simp add: word_le_nat_alt av)
  show ?case
  proof (cases "n \<le> ucast (available ?s) \<or> ?cp = consumer ?s")
    case True
    then have "k = 1" using less.prems(2-4) by (auto simp: hit emp pend)
    then show ?thesis using True less.prems(1,2) by (simp add: seek_tx_loop_step)
  next
    case False
    define k' where "k' = min (unat n - unat (available ?s)) (pending ?s)"
    have k': "0 < k'" "k = Suc k'"
      using False less.prems(2-4) by (auto simp: k'_def hit emp pend av)
    have "seek_tx_loop b ?cp n s = seek_tx_loop b ?cp n ?s"
      using False less.prems(1,2) by (simp add: seek_tx_loop_step)
    also have "\<dots> = (reclaimed k' ?s, Ok (ucast (available (reclaimed k' ?s))))"
      using less.hyps [of ?s k'] False less.prems(2) wf by (simp add: pend cp hit emp av k'_def)
    also have "reclaimed k' ?s = reclaimed k s"
      using k' by (simp add: reclaimed_Suc)
    finally show ?thesis .
  qed
qed

lemma seek_tx_hit: "n \<le> ucast (available s) \<Longrightarrow> seek_tx b s n = (s, Ok n)"
  by (simp add: seek_tx_def)

lemma seek_tx_empty:
  "wf_tx s \<Longrightarrow> \<not> n \<le> ucast (available s) \<Longrightarrow> pending s = 0 \<Longrightarrow> seek_tx b s n = (s, Err RingFull)"
  by (simp add: seek_tx_def ring_simps wf_txD pending_def unat_eq_0)

lemma seek_tx_reclaims:
  assumes "wf_tx s" "\<not> n \<le> ucast (available s)" "0 < pending s"
    "k = min (unat n - unat (available s)) (pending s)"
  shows "seek_tx b s n = (reclaimed k s, Ok (ucast (available (reclaimed k s))))"
proof -
  have "prod_ix (u_ring s) \<noteq> consumer s" using assms(3) by (auto simp: pending_def)
  moreover have "unat (available s) < unat n"
    using assms(2) by (simp add: word_le_nat_alt not_le)
  ultimately show ?thesis
    using assms by (simp add: seek_tx_def ring_simps wf_txD seek_tx_loop_spec)
qed

lemma commit_tx_ok:
  assumes "wf_tx s" "ucast n \<le> available s"
  shows "commit_tx b s n =
    (s\<lparr>available := available s - ucast n, producer := producer s + ucast n,
       x_ring := set_prod (x_ring s) (producer s + ucast n)\<rparr>, Ok ())"
  using assms by (simp add: commit_tx_def ring_simps wf_txD not_less)

text \<open>The buffer behind the \<open>index\<close>-th available descriptor.\<close>

definition tx_desc :: "socket \<Rightarrow> usize \<Rightarrow> xdp_desc" where
  "tx_desc s index = slot_rd (x_ring s) (producer s + ucast index)"

text \<open>
  The UMEM of a socket covers all frames, the TX ring has at most \<open>FRAME_COUNT\<close> slots, and a buffer
  of fewer than \<open>FRAME_SIZE\<close> bytes at the descriptor's address ends inside the UMEM.
\<close>

definition umem_ok :: "socket \<Rightarrow> bool" where
  "umem_ok s \<longleftrightarrow> ring_cap (x_ring s) \<le> 4096 \<and>
     (case frames s of None \<Rightarrow> False | Some n \<Rightarrow> 8388608 \<le> n)"

lemma peek_tx_ok:
  assumes "ring_ok (x_ring s)" "umem_ok s" "index < ucast (available s)" "unat len < 2048"
    "unat (d_addr (tx_desc s index)) + 2048 \<le> 8388608"
  shows "peek_tx b s index len =
    (s\<lparr>x_ring := slot_wr (x_ring s) (producer s + ucast index) ((tx_desc s index)\<lparr>d_len := ucast len\<rparr>)\<rparr>,
     Ok \<lparr>sl_off = unat (d_addr (tx_desc s index)), sl_len = unat len\<rparr>)"
proof -
  let ?i = "producer s + ucast index"
  let ?x = "slot_wr (x_ring s) ?i ((tx_desc s index)\<lparr>d_len := ucast len\<rparr>)"
  obtain n where n: "frames s = Some n" "8388608 \<le> n"
    using assms(2) by (auto simp: umem_ok_def split: option.splits)
  have rd: "slot_rd ?x ?i = (tx_desc s index)\<lparr>d_len := ucast len\<rparr>"
    using assms(1) by (simp add: rings.rd_wr_same)
  have "(mut_bytes_at b ?x (Some n) (?i AND mod_mask ?x) len :: _ \<times> (ring_error, slice) res) =
      (slot_wr ?x ?i ((slot_rd ?x ?i)\<lparr>d_len := ucast len\<rparr>),
       Ok \<lparr>sl_off = unat (d_addr (slot_rd ?x ?i)), sl_len = unat len\<rparr>)"
    by (rule mut_bytes_at_ok) (use assms n in \<open>simp_all add: rd umem_ok_def\<close>)
  moreover have "\<not> frame_size (x_ring s) < len"
    using assms(4) by (simp add: frame_size_def word_less_nat_alt)
  ultimately show ?thesis
    using assms(1,3) n
    by (simp add: peek_tx_def mut_desc_at_ok tx_desc_def [symmetric] rd not_le Let_def)
qed

lemma peek_tx_bad_index:
  "safety_checks b \<Longrightarrow> \<not> index < ucast (available s) \<Longrightarrow> peek_tx b s index len = (s, Err InvalidIndex)"
  by (simp add: peek_tx_def not_less)

lemma peek_tx_bad_length:
  "safety_checks b \<Longrightarrow> index < ucast (available s) \<Longrightarrow> 2048 < unat len \<Longrightarrow>
    peek_tx b s index len = (s, Err InvalidLength)"
  by (simp add: peek_tx_def not_less frame_size_def word_less_nat_alt FRAME_SIZE_def word_le_nat_alt)

lemma wf_tx_commit:
  assumes "wf_tx s" "m \<le> available s"
  shows "wf_tx (s\<lparr>available := available s - m, producer := p, x_ring := set_prod (x_ring s) h\<rparr>)"
  using wf_txD [OF assms(1)] assms(2) by (simp add: wf_tx_def pending_def unat_sub word_le_nat_alt)

interpretation tx: socket_dir wf_tx seek_tx commit_tx
proof unfold_locales
  show "seek_tx b s n = (s, Ok n)" if "n \<le> ucast (available s)" for n s b
    using that by (rule seek_tx_hit)
  show "commit_tx b s n = (s, Err NotAvailable)"
    if "safety_checks b" "available s < ucast n" for b s n
    using that by (simp add: commit_tx_def)
  show "\<exists>s'. commit_tx b s n = (s', Ok ()) \<and> wf_tx s' \<and> available s' = available s - ucast n"
    if "wf_tx s" "ucast n \<le> available s" for b s n
    using that by (simp add: commit_tx_ok wf_tx_commit)
  show "(\<exists>e. seek_tx b s n = (s, Err e)) \<or>
      (\<exists>s' k. seek_tx b s n = (s', Ok k) \<and> wf_tx s' \<and> 1 \<le> available s')"
    if s: "wf_tx s" and n: "\<not> n \<le> ucast (available s)" for b s n
  proof (cases "pending s = 0")
    case True
    then show ?thesis using s n by (simp add: seek_tx_empty)
  next
    case False
    define k where "k = min (unat n - unat (available s)) (pending s)"
    have "k \<le> pending s" "0 < k" using n False by (simp_all add: k_def word_le_nat_alt not_le)
    then have "wf_tx (reclaimed k s)" "1 \<le> available (reclaimed k s)"
      using s available_reclaimed [of s k] by (simp_all add: wf_tx_reclaimed word_le_nat_alt)
    then show ?thesis using seek_tx_reclaims [OF s n _ k_def] False by simp
  qed
qed

end
