(* ===== verification/Search_Loop.thy ===== *)
theory Search_Loop
  imports Main
begin

text \<open>
  Loops that try again until an attempt ends them, and that may never end: the contract of such a loop, and
  when it returns.
\<close>

section \<open>The contract\<close>

text \<open>
  \<open>stop i\<close>: attempt \<open>i\<close> ends the loop, with the value \<open>out i\<close>. The second law excludes other values than
  those the code computes; a loop defined by \<open>partial_function\<close> has it by its induction rule.
\<close>

locale search_loop =
  fixes loop :: "nat \<Rightarrow> 'v option"
    and stop :: "nat \<Rightarrow> bool"
    and out :: "nat \<Rightarrow> 'v"
  assumes unfold: "loop i = (if stop i then Some (out i) else loop (Suc i))"
    and sound: "loop i = Some v \<Longrightarrow> \<exists>n \<ge> i. stop n"
begin

lemma finds: "stop (i + k) \<Longrightarrow> \<forall>j < k. \<not> stop (i + j) \<Longrightarrow> loop i = Some (out (i + k))"
proof (induction k arbitrary: i)
  case 0
  then show ?case by (subst unfold) simp
next
  case (Suc k)
  have "loop (Suc i) = Some (out (Suc i + k))"
    using Suc.prems by (intro Suc.IH) (simp, metis Suc_less_eq add_Suc_shift)
  moreover have "\<not> stop i" using Suc.prems(2) by force
  ultimately show ?case by (subst unfold) simp
qed

lemma finds_first: "stop n \<Longrightarrow> \<forall>m < n. \<not> stop m \<Longrightarrow> loop 0 = Some (out n)"
  using finds [of 0 n] by simp

lemma returns_iff: "(\<exists>v. loop 0 = Some v) \<longleftrightarrow> (\<exists>n. stop n)"
proof
  assume "\<exists>n. stop n"
  then have "stop (LEAST n. stop n)" "\<forall>m < (LEAST n. stop n). \<not> stop m"
    by (auto intro: LeastI_ex dest: not_less_Least)
  then show "\<exists>v. loop 0 = Some v" using finds_first by blast
qed (use sound in blast)

lemma diverges: "\<forall>n. \<not> stop n \<Longrightarrow> loop 0 = None"
  using returns_iff by (cases "loop 0") auto

end

end
