(* ===== verification/Kick_Poll.thy ===== *)
theory Kick_Poll
  imports Socket Search_Loop
begin

unbundle bit_operations_syntax

text \<open>
  Waking the kernel and waiting for it: \<^verbatim>\<open>kick\<close> and \<^verbatim>\<open>commit_and_kick\<close> of \<^verbatim>\<open>kick.rs\<close>,
  \<^verbatim>\<open>poll_wait\<close> of \<^verbatim>\<open>poll.rs\<close>.

  The system calls and the bit values of the C headers are not part of the repository: they are the
  fields of \<open>libc_env\<close>, an argument of every operation that uses them. \<open>sys_sendto\<close> gives the return
  value and the error number after it; \<open>sys_poll i\<close> gives the return value and the returned events
  of the \<open>i\<close>-th call of \<^verbatim>\<open>poll\<close> in one wait.
\<close>

record libc_env =
  xdp_ring_need_wakeup :: u32
  pollin :: u16
  pollout :: u16
  sys_sendto :: "int \<Rightarrow> int \<times> errno option"
  sys_poll :: "nat \<Rightarrow> int \<times> u16"

section \<open>kick\<close>

text \<open>The classification of a failed wakeup.\<close>

fun kick_error :: "errno option \<Rightarrow> (io_error, unit) res" where
  "kick_error None = Ok ()"
| "kick_error (Some EBUSY) = Ok ()"
| "kick_error (Some ENOBUFS) = Ok ()"
| "kick_error (Some EAGAIN) = Ok ()"
| "kick_error (Some ENETDOWN) = Ok ()"
| "kick_error (Some e) = Err (OsError e)"

text \<open>The first component is the file descriptors \<^verbatim>\<open>sendto\<close> was called on, in order.\<close>

definition kick :: "libc_env \<Rightarrow> socket \<Rightarrow> int list \<times> (io_error, unit) res" where
  "kick env s =
     (case cells (ring_mem (x_ring s)) of
        None \<Rightarrow> ([], Undef)
      | Some c \<Rightarrow>
        let need_wakeup = flags_ix c AND xdp_ring_need_wakeup env \<noteq> 0
        in if need_wakeup
           then let (ret, e) = sys_sendto env (raw_fd s)
                in ([raw_fd s], if ret < 0 then kick_error e else Ok ())
           else ([], Ok ()))"

definition commit_and_kick ::
  "commit_impl \<Rightarrow> libc_env \<Rightarrow> build \<Rightarrow> socket \<Rightarrow> usize \<Rightarrow> socket \<times> (ring_error, unit) res" where
  "commit_and_kick commit env b s n =
     and_then (commit b s n) (\<lambda>_ s'. (s', map_err Io (snd (kick env s'))))"

section \<open>poll_wait\<close>

text \<open>
  The loop need not end: \<open>None\<close> is a wait that never returns, \<open>Some i\<close> one that returns after the
  call number \<open>i\<close> of \<^verbatim>\<open>poll\<close>.
\<close>

partial_function (option) poll_loop :: "(nat \<Rightarrow> int \<times> u16) \<Rightarrow> u16 \<Rightarrow> nat \<Rightarrow> nat option" where
  "poll_loop poll msk i =
     (if fst (poll i) < 0 then poll_loop poll msk (Suc i)
      else if snd (poll i) AND msk \<noteq> 0 then Some i
      else poll_loop poll msk (Suc i))"

text \<open>The timeout is an argument of the method, and the method does not use it.\<close>

definition poll_wait ::
  "libc_env \<Rightarrow> bool \<Rightarrow> socket \<Rightarrow> nat option \<Rightarrow> (io_error, unit) res option" where
  "poll_wait env t s timeout =
     (case snd (kick env s) of
        Ok _ \<Rightarrow>
          let msk = (if t then pollout env else pollin env)
          in map_option (\<lambda>_. Ok ()) (poll_loop (sys_poll env) msk 0)
      | r \<Rightarrow> Some r)"

section \<open>Facts\<close>

lemma kick_error_cases: "kick_error e = Ok () \<or> (\<exists>n. e = Some n \<and> kick_error e = Err (OsError n))"
  by (cases e rule: kick_error.cases) simp_all

definition poll_ready :: "(nat \<Rightarrow> int \<times> u16) \<Rightarrow> u16 \<Rightarrow> nat \<Rightarrow> bool" where
  "poll_ready poll msk i \<longleftrightarrow> 0 \<le> fst (poll i) \<and> snd (poll i) AND msk \<noteq> 0"

lemma poll_loop_unfold:
  "poll_loop poll msk i = (if poll_ready poll msk i then Some i else poll_loop poll msk (Suc i))"
  by (subst poll_loop.simps) (auto simp: poll_ready_def)

lemma poll_loop_sound:
  assumes "poll_loop poll msk i = Some n"
  shows "poll_ready poll msk n \<and> i \<le> n"
proof (rule poll_loop.raw_induct [where P = "\<lambda>p m i n. poll_ready p m n \<and> i \<le> n", OF _ assms])
  fix f and p :: "nat \<Rightarrow> int \<times> u16" and m i n
  assume IH: "\<And>p m i n. f p m i = Some n \<Longrightarrow> poll_ready p m n \<and> i \<le> n"
    and eq: "(if fst (p i) < 0 then f p m (Suc i)
      else if snd (p i) AND m \<noteq> 0 then Some i else f p m (Suc i)) = Some n"
  show "poll_ready p m n \<and> i \<le> n"
    using eq IH [of p m "Suc i" n] by (auto simp: poll_ready_def split: if_splits)
qed

interpretation poll: search_loop "poll_loop poll msk" "poll_ready poll msk" "\<lambda>i. i" for poll msk
  by unfold_locales (rule poll_loop_unfold, blast dest: poll_loop_sound)

section \<open>Properties\<close>

lemma kick_wakes_iff_needed:
  assumes "ring_ok (x_ring s)"
  shows "fst (kick env s) =
      (if flags_ix (the_cells (x_ring s)) AND xdp_ring_need_wakeup env \<noteq> 0 then [raw_fd s] else [])
    \<and> returns (snd (kick env s))"
  using kick_error_cases [of "snd (sys_sendto env (raw_fd s))"]
  by (auto simp: kick_def ring_okD(1) [OF assms] Let_def split: prod.splits)

lemma poll_wait_returns_iff:
  assumes "snd (kick env s) = Ok ()"
  shows "(\<exists>r. poll_wait env t s timeout = Some r) \<longleftrightarrow>
    (\<exists>i. poll_ready (sys_poll env) (if t then pollout env else pollin env) i)"
  using poll.returns_iff [of "sys_poll env"] by (auto simp: poll_wait_def assms Let_def)

end
