(* ===== verification/Send.thy ===== *)
theory Send
  imports Tx Kick_Poll
begin

text \<open>
  \<^verbatim>\<open>send\<close> and \<^verbatim>\<open>send_blocking\<close> of \<^verbatim>\<open>xdp-socket/src/send.rs\<close>. The UMEM is a list of bytes that the
  operations take and return next to the socket.
\<close>

section \<open>Writing through a slice\<close>

definition write_bytes :: "u8 list \<Rightarrow> nat \<Rightarrow> u8 list \<Rightarrow> u8 list" where
  "write_bytes mem off bs = take off mem @ bs @ drop (off + length bs) mem"

text \<open>
  \<^verbatim>\<open>buf[start..stop].copy_from_slice(bs)\<close>: bad bounds and different lengths panic.
\<close>

definition copy_from_slice ::
  "u8 list \<Rightarrow> slice \<Rightarrow> nat \<Rightarrow> nat \<Rightarrow> u8 list \<Rightarrow> (ring_error, u8 list) res" where
  "copy_from_slice mem buf start stop bs =
     (if start \<le> stop \<and> stop \<le> sl_len buf \<and> stop - start = length bs
      then Ok (write_bytes mem (sl_off buf + start) bs)
      else Panic)"

section \<open>Operations\<close>

definition header_bytes :: "u8 list option \<Rightarrow> u8 list" where
  "header_bytes header = (case header of None \<Rightarrow> [] | Some h \<Rightarrow> h)"

definition send ::
  "build \<Rightarrow> socket \<times> u8 list \<Rightarrow> u8 list \<Rightarrow> u8 list option \<Rightarrow> (socket \<times> u8 list) \<times> (ring_error, unit) res"
where
  "send b w data header =
     (case w of (s, mem) \<Rightarrow>
       let hdr_len = (case header of None \<Rightarrow> 0 | Some h \<Rightarrow> length h)
       in try_in (s, mem) (add_chk b (of_nat (length data)) (of_nat hdr_len)) (\<lambda>buf_len.
       case peek_tx_0 b s buf_len of (s1, r) \<Rightarrow>
       try_in (s1, mem) r (\<lambda>buf.
       try_in (s1, mem)
         (case header of
            Some bs \<Rightarrow> copy_from_slice mem buf 0 hdr_len bs
          | None \<Rightarrow> Ok mem) (\<lambda>mem1.
       try_in (s1, mem1) (copy_from_slice mem1 buf hdr_len (sl_len buf) data) (\<lambda>mem2.
       case socket_commit commit_tx b s1 of (s2, r2) \<Rightarrow> ((s2, mem2), r2))))))"

text \<open>\<open>None\<close>: the wait for the kernel does not return.\<close>

definition send_blocking ::
  "libc_env \<Rightarrow> build \<Rightarrow> socket \<times> u8 list \<Rightarrow> u8 list \<Rightarrow> u8 list option \<Rightarrow>
    ((socket \<times> u8 list) \<times> (ring_error, unit) res) option"
where
  "send_blocking env b w data header =
     (case send b w data header of
        (w', Ok _) \<Rightarrow>
          map_option (\<lambda>r. (w', map_err Io r)) (poll_wait env True (fst w') None)
      | (w', r) \<Rightarrow> Some (w', r))"

section \<open>Facts\<close>

lemma length_write_bytes [simp]:
  "off + length bs \<le> length mem \<Longrightarrow> length (write_bytes mem off bs) = length mem"
  by (simp add: write_bytes_def)

lemma write_bytes_nth_inside:
  "off + length bs \<le> length mem \<Longrightarrow> i < length bs \<Longrightarrow> write_bytes mem off bs ! (off + i) = bs ! i"
  by (simp add: write_bytes_def nth_append)

lemma write_bytes_nth_outside:
  "off + length bs \<le> length mem \<Longrightarrow> i < off \<or> off + length bs \<le> i \<Longrightarrow> i < length mem \<Longrightarrow>
    write_bytes mem off bs ! i = mem ! i"
  by (auto simp: write_bytes_def nth_append min_def)

lemma write_bytes_append:
  assumes "off + length xs + length ys \<le> length mem"
  shows "write_bytes (write_bytes mem off xs) (off + length xs) ys = write_bytes mem off (xs @ ys)"
  using assms by (simp add: write_bytes_def ac_simps)

text \<open>The socket after a packet of \<open>n\<close> bytes has been sent.\<close>

definition sent :: "nat \<Rightarrow> socket \<Rightarrow> socket" where
  "sent n s = s\<lparr>
     x_ring := set_prod (slot_wr (x_ring s) (producer s) ((tx_desc s 0)\<lparr>d_len := of_nat n\<rparr>)) (producer s + 1),
     available := available s - 1,
     producer := producer s + 1\<rparr>"

text \<open>Its two halves: the buffer of the first available frame, and the commit of one descriptor.\<close>

definition peeked :: "nat \<Rightarrow> socket \<Rightarrow> socket" where
  "peeked n s = s\<lparr>x_ring := slot_wr (x_ring s) (producer s) ((tx_desc s 0)\<lparr>d_len := of_nat n\<rparr>)\<rparr>"

lemma peek_head_ok:
  assumes "wf_tx s" "umem_ok s" "0 < available s" "unat l = n" "n < 2048"
    and "unat (d_addr (tx_desc s 0)) + 2048 \<le> 8388608"
  shows "peek_tx b s 0 l = (peeked n s, Ok \<lparr>sl_off = unat (d_addr (tx_desc s 0)), sl_len = n\<rparr>)"
proof -
  have "(0 :: usize) < ucast (available s)" using assms(3) by (simp add: word_less_nat_alt)
  moreover have "(ucast l :: u32) = of_nat n" using assms(4) by (simp only: ucast_eq_of_nat)
  ultimately show ?thesis
    using peek_tx_ok [of s 0 l b] assms wf_txD(1) [OF assms(1)] by (simp add: peeked_def)
qed

lemma commit_peeked:
  assumes "wf_tx s" "0 < available s"
  shows "socket_commit commit_tx b (peeked n s) = (sent n s, Ok ())"
proof -
  have "wf_tx (peeked n s)" using assms(1) by (simp add: wf_tx_def pending_def peeked_def)
  moreover have "1 \<le> available (peeked n s)"
    using assms(2) by (simp add: peeked_def word_le_nat_alt word_less_nat_alt)
  ultimately show ?thesis using commit_tx_ok [of "peeked n s" 1 b] by (simp add: socket_commit_def sent_def peeked_def)
qed

lemma send_ok:
  assumes wf: "wf_tx s" and um: "umem_ok s" and av: "0 < available s"
    and len: "length (header_bytes header) + length data < 2048"
    and addr: "unat (d_addr (tx_desc s 0)) + 2048 \<le> 8388608" and mem: "8388608 \<le> length mem"
  shows "send b (s, mem) data header =
    ((sent (length (header_bytes header) + length data) s,
      write_bytes mem (unat (d_addr (tx_desc s 0))) (header_bytes header @ data)), Ok ())"
proof -
  let ?h = "header_bytes header" and ?off = "unat (d_addr (tx_desc s 0))"
  let ?n = "length ?h + length data" and ?l = "of_nat (length data) + of_nat (length ?h) :: usize"
  let ?buf = "\<lparr>sl_off = ?off, sl_len = ?n\<rparr>"
  have ul: "unat ?l = ?n" using len by (simp add: unat_word_ariths(1) unat_of_nat_u64)
  have chk: "add_chk b (of_nat (length data)) (of_nat (length ?h)) = (Ok ?l :: (ring_error, usize) res)"
    using len by (intro add_chk_Ok) (simp add: unat_of_nat_u64)
  have peek: "peek_tx_0 b s ?l = (peeked ?n s, Ok ?buf)"
    unfolding peek_tx_0_def by (rule peek_head_ok [OF wf um av ul len addr])
  have hdr: "(case header of None \<Rightarrow> 0 | Some h \<Rightarrow> length h) = length ?h"
    by (simp add: header_bytes_def split: option.split)
  have c1: "(case header of Some bs \<Rightarrow> copy_from_slice mem ?buf 0 (length ?h) bs | None \<Rightarrow> Ok mem) =
      Ok (write_bytes mem ?off ?h)"
    by (simp add: header_bytes_def copy_from_slice_def write_bytes_def split: option.split)
  have c2: "copy_from_slice (write_bytes mem ?off ?h) ?buf (length ?h) (sl_len ?buf) data =
      Ok (write_bytes mem ?off (?h @ data))"
    using mem addr len by (simp add: copy_from_slice_def write_bytes_append)
  show ?thesis
    unfolding send_def Let_def hdr chk peek prod.case try_in_simps c1 c2 commit_peeked [OF wf av] ..
qed

end
