(* ===== verification/Tx_Protocol.thy ===== *)
theory Tx_Protocol
  imports Send
begin

unbundle bit_operations_syntax

text \<open>
  The transmit side as a whole: the application's calls interleaved with the moves of the kernel,
  and who owns which UMEM frame. A frame is with the application (an available descriptor of the TX
  ring), queued (published in the TX ring and not yet taken by the kernel), held by the kernel, or
  completed (in the completion ring and not yet reclaimed).

  The kernel is not part of the repository. It is a relation \<open>K\<close> between the worlds before and after
  its move, and \<open>tx_rely\<close> is what the AF_XDP protocol promises of it: it takes descriptors from the
  TX ring in order, returns frames it holds through the completion ring, and changes nothing else.
\<close>

section \<open>Frames and their owners\<close>

record tx_world =
  w_sock :: socket
  w_mem :: "u8 list"
  w_held :: "u64 multiset"

definition app_frames :: "socket \<Rightarrow> u64 list" where
  "app_frames s = window (\<lambda>i. d_addr (slot_rd (x_ring s) i)) (producer s) (unat (available s))"

definition queued_count :: "socket \<Rightarrow> nat" where
  "queued_count s = unat (producer s - cons_ix (x_ring s))"

definition queued_frames :: "socket \<Rightarrow> u64 list" where
  "queued_frames s = window (\<lambda>i. d_addr (slot_rd (x_ring s) i)) (cons_ix (x_ring s)) (queued_count s)"

definition completed_frames :: "socket \<Rightarrow> u64 list" where
  "completed_frames s = window (slot_rd (u_ring s)) (consumer s) (pending s)"

lemma length_frames [simp]:
  "length (app_frames s) = unat (available s)" "length (queued_frames s) = queued_count s"
  "length (completed_frames s) = pending s"
  by (simp_all add: app_frames_def queued_frames_def completed_frames_def)

text \<open>The same two windows as descriptors.\<close>

definition app_descs :: "socket \<Rightarrow> xdp_desc list" where
  "app_descs s = window (slot_rd (x_ring s)) (producer s) (unat (available s))"

definition queued_descs :: "socket \<Rightarrow> xdp_desc list" where
  "queued_descs s = window (slot_rd (x_ring s)) (cons_ix (x_ring s)) (queued_count s)"

lemma length_descs [simp]:
  "length (app_descs s) = unat (available s)" "length (queued_descs s) = queued_count s"
  by (simp_all add: app_descs_def queued_descs_def)

lemma frames_of_descs: "app_frames s = map d_addr (app_descs s)" "queued_frames s = map d_addr (queued_descs s)"
  by (simp_all add: app_frames_def app_descs_def queued_frames_def queued_descs_def map_window)

definition all_frames :: "tx_world \<Rightarrow> u64 multiset" where
  "all_frames w = mset (app_frames (w_sock w)) + mset (queued_frames (w_sock w)) + w_held w +
     mset (completed_frames (w_sock w))"

definition tx_shape :: "socket \<Rightarrow> bool" where
  "tx_shape s \<longleftrightarrow> ring_ok (x_ring s) \<and> ring_ok (u_ring s) \<and> ring_cap (u_ring s) = ring_cap (x_ring s) \<and>
     prod_ix (x_ring s) = producer s \<and> cons_ix (u_ring s) = consumer s"

definition tx_inv :: "u64 list \<Rightarrow> tx_world \<Rightarrow> bool" where
  "tx_inv pool w \<longleftrightarrow> tx_shape (w_sock w) \<and> length pool = ring_cap (x_ring (w_sock w)) \<and>
     all_frames w = mset pool"

lemma tx_inv_count:
  assumes "tx_inv pool w"
  shows "unat (available (w_sock w)) + queued_count (w_sock w) + size (w_held w) + pending (w_sock w)
    = ring_cap (x_ring (w_sock w))"
proof -
  have "size (all_frames w) = size (mset pool)" using assms by (simp add: tx_inv_def)
  then show ?thesis using assms by (simp add: all_frames_def tx_inv_def)
qed

lemma tx_inv_wf: "tx_inv pool w \<Longrightarrow> wf_tx (w_sock w)"
  using tx_inv_count [of pool w] by (simp add: tx_inv_def tx_shape_def wf_tx_def)

text \<open>
  What is left of it when the application reclaims several frames at once: the descriptors add up to
  the number \<open>N\<close> of slots, and no address from outside the set \<open>P\<close> is in a slot of the TX ring, with the kernel or completed. A frame may be there twice, and another one be lost.
\<close>

definition pool_inv :: "nat \<Rightarrow> u64 set \<Rightarrow> tx_world \<Rightarrow> bool" where
  "pool_inv N P w \<longleftrightarrow> tx_shape (w_sock w) \<and> ring_cap (x_ring (w_sock w)) = N \<and>
     size (all_frames w) = N \<and> (\<forall>i. d_addr (slot_rd (x_ring (w_sock w)) i) \<in> P) \<and>
     set_mset (w_held w) \<subseteq> P \<and> set (completed_frames (w_sock w)) \<subseteq> P"

lemma pool_inv_count:
  assumes "pool_inv N P w"
  shows "unat (available (w_sock w)) + queued_count (w_sock w) + size (w_held w) + pending (w_sock w)
    = ring_cap (x_ring (w_sock w))"
  using assms by (simp add: pool_inv_def all_frames_def)

lemma pool_inv_wf: "pool_inv N P w \<Longrightarrow> wf_tx (w_sock w)"
  using pool_inv_count [of N P w] by (simp add: pool_inv_def tx_shape_def wf_tx_def)

lemma pool_inv_subset:
  assumes "pool_inv N P w" "a \<in># all_frames w"
  shows "a \<in> P"
  using assms by (auto simp: pool_inv_def all_frames_def app_frames_def queued_frames_def window_def)

lemma tx_inv_pool:
  assumes "tx_inv pool w" "set pool \<subseteq> P" "\<forall>i. d_addr (slot_rd (x_ring (w_sock w)) i) \<in> P"
  shows "pool_inv (length pool) P w"
proof -
  have all: "all_frames w = mset pool" using assms(1) by (simp add: tx_inv_def)
  moreover have "set_mset (w_held w) \<union> set (completed_frames (w_sock w)) \<subseteq> set_mset (all_frames w)"
    by (auto simp: all_frames_def)
  ultimately show ?thesis using assms by (auto simp: pool_inv_def tx_inv_def)
qed

section \<open>Application steps\<close>

text \<open>
  The calls of the socket, and the use of a buffer: \<open>OpWrite i len start bs\<close> asks for buffer \<open>i\<close> with \<^verbatim>\<open>peek_at\<close> and
  copies \<open>bs\<close> into it from byte \<open>start\<close> on. The buffer borrows the socket, so no other call comes in between.
\<close>

datatype tx_op =
    OpSeek usize
  | OpPeekAt usize usize
  | OpSeekAndPeek usize
  | OpCommit usize
  | OpSend "u8 list" "u8 list option"
  | OpWrite usize usize nat "u8 list"

fun tx_apply :: "build \<Rightarrow> tx_op \<Rightarrow> tx_world \<Rightarrow> tx_world" where
  "tx_apply b (OpSeek n) w = w\<lparr>w_sock := fst (socket_seek_n seek_tx b (w_sock w) n)\<rparr>"
| "tx_apply b (OpPeekAt i len) w = w\<lparr>w_sock := fst (peek_at_tx b (w_sock w) i len)\<rparr>"
| "tx_apply b (OpSeekAndPeek len) w = w\<lparr>w_sock := fst (seek_and_peek_tx b (w_sock w) len)\<rparr>"
| "tx_apply b (OpCommit n) w = w\<lparr>w_sock := fst (socket_commit_n commit_tx b (w_sock w) n)\<rparr>"
| "tx_apply b (OpSend data header) w =
     (case fst (send b (w_sock w, w_mem w) data header) of
        (s', mem') \<Rightarrow> w\<lparr>w_sock := s', w_mem := mem'\<rparr>)"
| "tx_apply b (OpWrite i len start bs) w =
     (case peek_at_tx b (w_sock w) i len of
        (s', Ok buf) \<Rightarrow>
          (case copy_from_slice (w_mem w) buf start (start + length bs) bs of
             Ok mem' \<Rightarrow> w\<lparr>w_sock := s', w_mem := mem'\<rparr>
           | _ \<Rightarrow> w\<lparr>w_sock := s'\<rparr>)
      | (s', _) \<Rightarrow> w\<lparr>w_sock := s'\<rparr>)"

text \<open>What a call returns.\<close>

datatype call_result =
    CountResult "(ring_error, usize) res" | BufferResult "(ring_error, slice) res" | UnitResult "(ring_error, unit) res"

fun tx_result :: "build \<Rightarrow> tx_op \<Rightarrow> tx_world \<Rightarrow> call_result" where
  "tx_result b (OpSeek n) w = CountResult (snd (socket_seek_n seek_tx b (w_sock w) n))"
| "tx_result b (OpPeekAt i len) w = BufferResult (snd (peek_at_tx b (w_sock w) i len))"
| "tx_result b (OpSeekAndPeek len) w = BufferResult (snd (seek_and_peek_tx b (w_sock w) len))"
| "tx_result b (OpCommit n) w = UnitResult (snd (socket_commit_n commit_tx b (w_sock w) n))"
| "tx_result b (OpSend data header) w = UnitResult (snd (send b (w_sock w, w_mem w) data header))"
| "tx_result b (OpWrite i len start bs) w = BufferResult (snd (peek_at_tx b (w_sock w) i len))"

lemma tx_apply_held [simp]: "w_held (tx_apply b op w) = w_held w"
  by (cases op) (auto split: prod.split res.split)

text \<open>
  Two kinds of clients, as the calls they may make: any at all, and those that never reclaim several frames with one
  \<^verbatim>\<open>seek_n\<close>, nor one frame while others are available. A single-frame \<^verbatim>\<open>seek_n\<close> reclaims nothing, because there is enough
  or nothing is completed, or one frame when none is available.
\<close>

definition any_call :: "tx_op \<Rightarrow> socket \<Rightarrow> bool" where
  "any_call op s \<longleftrightarrow> True"

fun single_frame :: "tx_op \<Rightarrow> socket \<Rightarrow> bool" where
  "single_frame (OpSeek n) s \<longleftrightarrow>
     n \<le> ucast (available s) \<or> pending s = 0 \<or> available s = 0 \<and> (n = 1 \<or> pending s = 1)"
| "single_frame _ s \<longleftrightarrow> True"

section \<open>Changes that keep all addresses\<close>

text \<open>Writing a packet length into a descriptor does not change who owns which frame.\<close>

definition same_addrs :: "socket \<Rightarrow> socket \<Rightarrow> bool" where
  "same_addrs s s' \<longleftrightarrow> (\<exists>x. s' = s\<lparr>x_ring := x\<rparr> \<and> ring_ok x \<and> ring_cap x = ring_cap (x_ring s) \<and>
     prod_ix x = prod_ix (x_ring s) \<and> cons_ix x = cons_ix (x_ring s) \<and>
     (\<lambda>i. d_addr (slot_rd x i)) = (\<lambda>i. d_addr (slot_rd (x_ring s) i)))"

lemma same_addrs_refl: "ring_ok (x_ring s) \<Longrightarrow> same_addrs s s"
  by (auto simp: same_addrs_def intro!: exI [of _ "x_ring s"])

lemma slot_wr_same_addr:
  assumes "ring_ok r" "d_addr v = d_addr (slot_rd r i)"
  shows "d_addr (slot_rd (slot_wr r i v) j) = d_addr (slot_rd r j)"
  using rings.rd_wr_same [OF assms(1), of i j v] rings.rd_wr_other [OF assms(1), of i j v]
    rings.rd_cong [OF assms(1), of i j] assms(2)
  by (cases "unat i mod ring_cap r = unat j mod ring_cap r") simp_all

lemma same_addrs_len:
  assumes "same_addrs s s'" "ring_ok (x_ring s)"
  shows "same_addrs s (s'\<lparr>x_ring := slot_wr (x_ring s') i ((slot_rd (x_ring s') i)\<lparr>d_len := l\<rparr>)\<rparr>)"
  using assms by (auto simp: same_addrs_def slot_wr_same_addr fun_eq_iff)

lemma same_addrs_frames:
  assumes "same_addrs s s'"
  shows "app_frames s' = app_frames s \<and> queued_frames s' = queued_frames s \<and>
    completed_frames s' = completed_frames s \<and> queued_count s' = queued_count s"
  using assms by (auto simp: same_addrs_def app_frames_def queued_frames_def completed_frames_def
      queued_count_def pending_def)

lemma same_addrs_inv:
  assumes "tx_inv pool w" "same_addrs (w_sock w) s'"
  shows "tx_inv pool (w\<lparr>w_sock := s'\<rparr>)"
proof -
  have "all_frames (w\<lparr>w_sock := s'\<rparr>) = all_frames w"
    using same_addrs_frames [OF assms(2)] by (simp add: all_frames_def)
  then show ?thesis using assms by (auto simp: tx_inv_def tx_shape_def same_addrs_def)
qed

lemma mut_bytes_at_effect:
  assumes "ring_ok r" "mut_bytes_at b r fr (i AND mod_mask r) len = (r', res)"
  shows "r' = r \<or> r' = slot_wr r i ((slot_rd r i)\<lparr>d_len := ucast len\<rparr>)"
  using assms(2) by (auto simp: mut_bytes_at_def desc_at_ok mut_desc_at_ok assms(1) add_chk_def
      split: option.splits if_splits)

lemma peek_tx_same_addrs:
  assumes s: "ring_ok (x_ring s)"
  shows "same_addrs s (fst (peek_tx b s index len))"
proof -
  let ?i = "producer s + ucast index"
  let ?x = "slot_wr (x_ring s) ?i ((slot_rd (x_ring s) ?i)\<lparr>d_len := ucast len\<rparr>)"
  have 1: "same_addrs s (s\<lparr>x_ring := ?x\<rparr>)"
    using same_addrs_len [OF same_addrs_refl [OF s] s] by simp
  obtain x' and r :: "(ring_error, slice) res"
    where m: "mut_bytes_at b ?x (frames s) (?i AND mod_mask (x_ring s)) len = (x', r)"
    by (metis surj_pair)
  have "x' = ?x \<or> x' = slot_wr ?x ?i ((slot_rd ?x ?i)\<lparr>d_len := ucast len\<rparr>)"
    by (rule mut_bytes_at_effect [of ?x b "frames s" ?i len x' r]) (use s m in simp_all)
  then have "same_addrs s (s\<lparr>x_ring := x'\<rparr>)"
    using 1 same_addrs_len [OF 1 s, of ?i] by auto
  then show ?thesis
    using s m by (simp add: peek_tx_def mut_desc_at_ok Let_def same_addrs_refl)
qed

section \<open>Each application step keeps the frames\<close>

lemma seek_one_moves:
  assumes "tx_inv pool w" "available (w_sock w) = 0" "0 < pending (w_sock w)"
  shows "app_frames (reclaimed (Suc 0) (w_sock w)) = [slot_rd (u_ring (w_sock w)) (consumer (w_sock w))] \<and>
    queued_descs (reclaimed (Suc 0) (w_sock w)) = queued_descs (w_sock w) \<and>
    completed_frames (w_sock w) =
      slot_rd (u_ring (w_sock w)) (consumer (w_sock w)) # completed_frames (reclaimed (Suc 0) (w_sock w))"
proof -
  let ?s = "w_sock w" and ?s' = "reclaimed (Suc 0) (w_sock w)"
  let ?x = "x_ring ?s" and ?q = "queued_count ?s" and ?a = "slot_rd (u_ring ?s) (consumer ?s)"
  have x: "ring_ok ?x" using assms(1) by (simp add: tx_inv_def tx_shape_def)
  have q: "?q < ring_cap ?x" using tx_inv_count [OF assms(1)] assms(3) by simp
  have prod: "producer ?s = cons_ix ?x + of_nat ?q"
    using assms(1) by (simp add: tx_inv_def tx_shape_def queued_count_def)
  have wr: "x_ring ?s' = slot_wr ?x (producer ?s) (xdp_desc_new ?a 0 0)" by (simp add: reclaimed_def)
  have "app_frames ?s' = [?a]"
    using assms(2) x
    by (simp add: app_frames_def wr window_def reclaimed_def rings.rd_wr_same xdp_desc_new_def)
  moreover have "queued_descs ?s' = queued_descs ?s"
  proof -
    have "window (slot_rd (slot_wr ?x (cons_ix ?x + of_nat ?q) v)) (cons_ix ?x) ?q =
        window (slot_rd ?x) (cons_ix ?x) ?q" for v
      by (rule rings.window_wr_outside [OF x _ q]) simp
    then have "window (slot_rd (x_ring ?s')) (cons_ix ?x) ?q = window (slot_rd ?x) (cons_ix ?x) ?q"
      by (simp only: wr prod)
    then show ?thesis
      by (simp add: queued_descs_def queued_count_def wr) (simp add: reclaimed_def)
  qed
  moreover have "completed_frames ?s = ?a # completed_frames ?s'"
  proof -
    have "pending ?s = Suc (pending ?s')" using assms(3) by (simp add: pending_reclaimed)
    then show ?thesis
      by (simp add: completed_frames_def window_Cons) (simp add: reclaimed_def)
  qed
  ultimately show ?thesis by blast
qed

lemma seek_one_inv:
  assumes "tx_inv pool w" "available (w_sock w) = 0" "0 < pending (w_sock w)"
  shows "tx_inv pool (w\<lparr>w_sock := reclaimed (Suc 0) (w_sock w)\<rparr>)"
proof -
  have "all_frames (w\<lparr>w_sock := reclaimed (Suc 0) (w_sock w)\<rparr>) = all_frames w"
    using seek_one_moves [OF assms] assms(2) by (simp add: all_frames_def frames_of_descs app_descs_def)
  then show ?thesis using assms(1) by (simp add: tx_inv_def tx_shape_def reclaimed_def)
qed

text \<open>So a single-frame seek changes nothing, or reclaims one frame when there is none.\<close>

lemma single_frame_one [simp]: "single_frame (OpSeek 1) s"
  by (cases "available s = 0") (simp_all add: word_le_nat_alt Suc_le_eq unat_gt_0)

lemma single_seek_cases:
  assumes "tx_inv pool w" "single_frame (OpSeek n) (w_sock w)"
  obtains "fst (seek_tx b (w_sock w) n) = w_sock w"
  | "available (w_sock w) = 0" "0 < pending (w_sock w)" "fst (seek_tx b (w_sock w) n) = reclaimed (Suc 0) (w_sock w)"
proof (cases "n \<le> ucast (available (w_sock w))")
  case True
  then show ?thesis using that(1) by (simp add: seek_tx_hit)
next
  case False
  have wf: "wf_tx (w_sock w)" using assms(1) by (rule tx_inv_wf)
  show ?thesis
  proof (cases "pending (w_sock w) = 0")
    case True
    then show ?thesis using that(1) wf False by (simp add: seek_tx_empty)
  next
    case p: False
    then have a: "available (w_sock w) = 0" "n = 1 \<or> pending (w_sock w) = 1" using assms(2) False by auto
    have "0 < unat n" using False a(1) by (simp add: word_le_nat_alt)
    then have "Suc 0 = min (unat n - unat (available (w_sock w))) (pending (w_sock w))" using a p by auto
    then have "fst (seek_tx b (w_sock w) n) = reclaimed (Suc 0) (w_sock w)"
      using seek_tx_reclaims [OF wf False, of "Suc 0" b] p by simp
    then show ?thesis using that(2) a(1) p by simp
  qed
qed

lemma seek_inv:
  assumes "tx_inv pool w" "single_frame (OpSeek n) (w_sock w)"
  shows "tx_inv pool (w\<lparr>w_sock := fst (seek_tx b (w_sock w) n)\<rparr>)"
  using assms by (rule single_seek_cases [where b = b]) (use assms(1) seek_one_inv in simp_all)

lemma commit_descs:
  assumes wf: "wf_tx s" and n: "ucast n \<le> available s"
    and room: "queued_count s + unat (available s) \<le> ring_cap (x_ring s)"
  shows "app_descs (fst (commit_tx b s n)) = drop (unat (ucast n :: u32)) (app_descs s) \<and>
    queued_descs (fst (commit_tx b s n)) = queued_descs s @ take (unat (ucast n :: u32)) (app_descs s) \<and>
    completed_frames (fst (commit_tx b s n)) = completed_frames s"
proof -
  let ?s' = "fst (commit_tx b s n)"
  let ?m = "unat (ucast n :: u32)" and ?q = "queued_count s" and ?f = "slot_rd (x_ring s)"
  have s': "?s' = s\<lparr>available := available s - ucast n, producer := producer s + ucast n,
      x_ring := set_prod (x_ring s) (producer s + ucast n)\<rparr>"
    using n wf by (simp add: commit_tx_ok)
  have le: "?m \<le> unat (available s)" using n by (simp add: word_le_nat_alt)
  have m: "(of_nat ?m :: u32) = ucast n" by simp
  have av: "unat (available ?s') = unat (available s) - ?m"
    using n by (simp add: s' unat_sub)
  have "unat (of_nat (?q + ?m) :: u32) = ?q + ?m"
    using wf_txD(5) [OF wf] room le by (intro unat_of_nat_u32) simp
  moreover have "producer s + ucast n - cons_ix (x_ring s) = of_nat (?q + ?m)"
    by (simp add: queued_count_def algebra_simps)
  moreover have "producer ?s' = producer s + ucast n" "cons_ix (x_ring ?s') = cons_ix (x_ring s)"
    by (simp_all add: s')
  ultimately have q': "queued_count ?s' = ?q + ?m"
    unfolding queued_count_def [of ?s'] by (simp only:)
  have "app_descs ?s' = drop ?m (app_descs s)"
    using le by (simp only: app_descs_def av drop_window m) (simp add: s')
  moreover have "queued_descs ?s' = queued_descs s @ take ?m (app_descs s)"
  proof -
    have prod: "producer s = cons_ix (x_ring s) + of_nat ?q" by (simp add: queued_count_def)
    have "queued_descs ?s' = window ?f (cons_ix (x_ring s)) (?q + ?m)"
      by (simp only: queued_descs_def q') (simp add: s')
    also have "\<dots> = window ?f (cons_ix (x_ring s)) ?q @ window ?f (producer s) ?m"
      by (simp only: window_append prod [symmetric])
    finally show ?thesis using le by (simp add: queued_descs_def app_descs_def take_window)
  qed
  moreover have "completed_frames ?s' = completed_frames s"
    by (simp add: s' completed_frames_def pending_def)
  ultimately show ?thesis by blast
qed

lemma commit_moves:
  assumes "wf_tx s" "ucast n \<le> available s" "queued_count s + unat (available s) \<le> ring_cap (x_ring s)"
  shows "app_frames (fst (commit_tx b s n)) = drop (unat (ucast n :: u32)) (app_frames s) \<and>
    queued_frames (fst (commit_tx b s n)) = queued_frames s @ take (unat (ucast n :: u32)) (app_frames s) \<and>
    completed_frames (fst (commit_tx b s n)) = completed_frames s"
  using commit_descs [OF assms, of b] by (simp add: frames_of_descs drop_map take_map)

lemma commit_inv:
  assumes inv: "tx_inv pool w" and b: "safety_checks b"
  shows "tx_inv pool (w\<lparr>w_sock := fst (commit_tx b (w_sock w) n)\<rparr>)"
proof (cases "available (w_sock w) < ucast n")
  case True
  then show ?thesis using inv b tx.commit_refused [of b "w_sock w" n] by simp
next
  case False
  let ?s = "w_sock w" and ?s' = "fst (commit_tx b (w_sock w) n)" and ?m = "unat (ucast n :: u32)"
  have wf: "wf_tx ?s" and shape: "tx_shape ?s"
    using inv tx_inv_wf by (auto simp: tx_inv_def)
  have s': "?s' = ?s\<lparr>available := available ?s - ucast n, producer := producer ?s + ucast n,
      x_ring := set_prod (x_ring ?s) (producer ?s + ucast n)\<rparr>"
    using False wf by (simp add: commit_tx_ok not_less)
  have "mset (app_frames ?s) = mset (take ?m (app_frames ?s)) + mset (drop ?m (app_frames ?s))"
    by (simp flip: mset_append)
  then have "all_frames (w\<lparr>w_sock := ?s'\<rparr>) = all_frames w"
    using commit_moves [OF wf, of n b] tx_inv_count [OF inv] False
    by (simp add: all_frames_def not_less)
  moreover have "tx_shape ?s'" using shape by (simp add: s' tx_shape_def)
  ultimately show ?thesis using inv by (simp add: tx_inv_def s')
qed

lemma send_socket_cases:
  "\<exists>l. fst (fst (send b (s, mem) data header)) \<in>
     {s, fst (peek_tx b s 0 l), fst (commit_tx b (fst (peek_tx b s 0 l)) 1)}"
proof -
  let ?l = "of_nat (length data) + of_nat (case header of None \<Rightarrow> 0 | Some h \<Rightarrow> length h) :: usize"
  obtain s1 r where p: "peek_tx_0 b s ?l = (s1, r)" by fastforce
  obtain s2 r2 where c: "socket_commit commit_tx b s1 = (s2, r2)" by fastforce
  have "fst (fst (send b (s, mem) data header)) \<in> {s, s1, s2}"
    by (simp add: send_def Let_def add_chk_def p c split: try_in_split)
  moreover have "s1 = fst (peek_tx b s 0 ?l)" using p by (simp add: peek_tx_0_def)
  moreover have "s2 = fst (commit_tx b s1 1)" using c by (simp add: socket_commit_def)
  ultimately show ?thesis by (intro exI [of _ ?l]) simp
qed

lemma tx_inv_mem [simp]: "tx_inv pool (w\<lparr>w_mem := m\<rparr>) = tx_inv pool w"
  by (simp add: tx_inv_def all_frames_def)

lemma peek_inv:
  "tx_inv pool w \<Longrightarrow> tx_inv pool (w\<lparr>w_sock := fst (peek_tx b (w_sock w) i len)\<rparr>)"
  by (rule same_addrs_inv, assumption, rule peek_tx_same_addrs) (simp add: tx_inv_def tx_shape_def)

lemma tx_apply_write:
  "\<exists>m. tx_apply b (OpWrite i len start bs) w = w\<lparr>w_sock := fst (peek_tx b (w_sock w) i len), w_mem := m\<rparr>"
proof -
  obtain s' r where p: "peek_tx b (w_sock w) i len = (s', r)" by fastforce
  have w: "w\<lparr>w_sock := s'\<rparr> = w\<lparr>w_sock := s', w_mem := w_mem w\<rparr>" by simp
  show ?thesis
    by (cases r; cases "copy_from_slice (w_mem w) (case r of Ok buf \<Rightarrow> buf) start (start + length bs) bs")
      (auto simp: peek_at_tx_def p intro: w)
qed

text \<open>
  What \<^verbatim>\<open>seek\<close>, \<^verbatim>\<open>peek\<close>, \<^verbatim>\<open>commit\<close> and writing to memory keep, every call keeps.
\<close>

lemma tx_apply_keeps:
  assumes P: "P w" and seek: "\<And>n. op = OpSeek n \<or> n = 1 \<Longrightarrow> P (w\<lparr>w_sock := fst (seek_tx b (w_sock w) n)\<rparr>)"
    and peek: "\<And>w i len. P w \<Longrightarrow> P (w\<lparr>w_sock := fst (peek_tx b (w_sock w) i len)\<rparr>)"
    and commit: "\<And>w n. P w \<Longrightarrow> P (w\<lparr>w_sock := fst (commit_tx b (w_sock w) n)\<rparr>)"
    and mem: "\<And>w m. P w \<Longrightarrow> P (w\<lparr>w_mem := m\<rparr>)"
  shows "P (tx_apply b op w)"
proof (cases op)
  case (OpSeek n)
  then show ?thesis using seek by (simp add: socket_seek_n_def)
next
  case (OpPeekAt i len)
  then show ?thesis using peek [OF P] by (simp add: peek_at_tx_def)
next
  case (OpSeekAndPeek len)
  obtain s1 r where s1: "seek_tx b (w_sock w) 1 = (s1, r)" by fastforce
  have 1: "P (w\<lparr>w_sock := s1\<rparr>)" using seek [of 1] s1 by simp
  have "fst (seek_and_peek_tx b (w_sock w) len) \<in> {s1, fst (peek_tx b s1 0 len)}"
    by (cases r) (simp_all add: seek_and_peek_tx_def s1)
  then show ?thesis using 1 peek [OF 1, of 0 len] by (auto simp: OpSeekAndPeek)
next
  case (OpCommit n)
  then show ?thesis using commit [OF P] by (simp add: socket_commit_n_def)
next
  case (OpSend data header)
  obtain s' m' where f: "fst (send b (w_sock w, w_mem w) data header) = (s', m')" by fastforce
  obtain l where "s' \<in> {w_sock w, fst (peek_tx b (w_sock w) 0 l), fst (commit_tx b (fst (peek_tx b (w_sock w) 0 l)) 1)}"
    using send_socket_cases [of b "w_sock w" "w_mem w" data header] f by auto
  then have "P (w\<lparr>w_sock := s'\<rparr>)"
    using P peek [OF P, of 0 l] commit [OF peek [OF P, of 0 l], of 1] by auto
  then have "P ((w\<lparr>w_sock := s'\<rparr>)\<lparr>w_mem := m'\<rparr>)" by (rule mem)
  then show ?thesis by (simp add: OpSend f)
next
  case (OpWrite i len start bs)
  obtain m where w': "tx_apply b op w = w\<lparr>w_sock := fst (peek_tx b (w_sock w) i len), w_mem := m\<rparr>"
    using tx_apply_write OpWrite by blast
  have "P ((w\<lparr>w_sock := fst (peek_tx b (w_sock w) i len)\<rparr>)\<lparr>w_mem := m\<rparr>)" by (intro mem peek P)
  then show ?thesis by (simp add: w')
qed

lemma tx_apply_inv:
  assumes "tx_inv pool w" "safety_checks b" "single_frame op (w_sock w)"
  shows "tx_inv pool (tx_apply b op w)"
proof (rule tx_apply_keeps [where P = "tx_inv pool"])
  show "tx_inv pool (w\<lparr>w_sock := fst (seek_tx b (w_sock w) n)\<rparr>)" if "op = OpSeek n \<or> n = 1" for n
    using that seek_inv [OF assms(1)] assms(3) single_frame_one by blast
qed (use assms peek_inv commit_inv in simp_all)

section \<open>Sending\<close>

lemma sent_moves:
  assumes wf: "wf_tx s" and av: "0 < available s"
    and room: "queued_count s + unat (available s) \<le> ring_cap (x_ring s)"
  shows "app_frames (sent n s) = tl (app_frames s) \<and>
    queued_frames (sent n s) = queued_frames s @ [hd (app_frames s)] \<and>
    completed_frames (sent n s) = completed_frames s \<and>
    d_len (slot_rd (x_ring (sent n s)) (producer s)) = of_nat n"
proof -
  let ?s1 = "s\<lparr>x_ring := slot_wr (x_ring s) (producer s) ((slot_rd (x_ring s) (producer s))\<lparr>d_len := of_nat n\<rparr>)\<rparr>"
  have x: "ring_ok (x_ring s)" using wf by (rule wf_txD)
  have same: "same_addrs s ?s1"
    using same_addrs_len [OF same_addrs_refl [OF x] x, of "producer s" "of_nat n"] by simp
  have wf1: "wf_tx ?s1" using wf by (simp add: wf_tx_def pending_def)
  have a1: "(1 :: u32) \<le> available s" using av by (simp add: word_le_nat_alt word_less_nat_alt)
  then have sent: "sent n s = fst (commit_tx undefined ?s1 1)"
    using commit_tx_ok [OF wf1, of 1 undefined] by (simp add: sent_def tx_desc_def)
  have m: "unat (ucast (1 :: usize) :: u32) = Suc 0" by simp
  have ne: "app_frames s \<noteq> []" using av by (simp add: length_0_conv [symmetric] word_less_nat_alt del: length_0_conv)
  then have "take (Suc 0) (app_frames s) = [hd (app_frames s)]" "drop (Suc 0) (app_frames s) = tl (app_frames s)"
    by (simp_all add: take_Suc drop_Suc)
  then have "app_frames (sent n s) = tl (app_frames s) \<and>
    queued_frames (sent n s) = queued_frames s @ [hd (app_frames s)] \<and>
    completed_frames (sent n s) = completed_frames s"
    using commit_moves [OF wf1, of 1 undefined] same_addrs_frames [OF same] room a1 unfolding sent m by simp
  moreover have "d_len (slot_rd (x_ring (sent n s)) (producer s)) = of_nat n"
    using x by (simp add: sent_def rings.rd_wr_same)
  ultimately show ?thesis by blast
qed

section \<open>The kernel and the runs\<close>

definition tx_rely :: "tx_world \<Rightarrow> tx_world \<Rightarrow> bool" where
  "tx_rely w w' \<longleftrightarrow>
     (let s = w_sock w; s' = w_sock w' in
      available s' = available s \<and> producer s' = producer s \<and> consumer s' = consumer s \<and>
      frames s' = frames s \<and>
      ring_ok (x_ring s') \<and> ring_cap (x_ring s') = ring_cap (x_ring s) \<and>
      slot_rd (x_ring s') = slot_rd (x_ring s) \<and> prod_ix (x_ring s') = prod_ix (x_ring s) \<and>
      ring_ok (u_ring s') \<and> ring_cap (u_ring s') = ring_cap (u_ring s) \<and>
      cons_ix (u_ring s') = cons_ix (u_ring s) \<and>
      (\<exists>k cs. k \<le> queued_count s \<and> queued_frames s' = drop k (queued_frames s) \<and>
         completed_frames s' = completed_frames s @ cs \<and>
         w_held w' + mset cs = w_held w + mset (take k (queued_frames s))))"

lemma tx_rely_inv:
  assumes inv: "tx_inv pool w" and rely: "tx_rely w w'"
  shows "tx_inv pool w'"
proof -
  let ?s = "w_sock w" and ?s' = "w_sock w'"
  obtain k cs where k: "queued_frames ?s' = drop k (queued_frames ?s)"
    "completed_frames ?s' = completed_frames ?s @ cs"
    "w_held w' + mset cs = w_held w + mset (take k (queued_frames ?s))"
    using rely by (auto simp: tx_rely_def Let_def)
  have app: "app_frames ?s' = app_frames ?s"
    using rely by (simp add: tx_rely_def app_frames_def Let_def)
  have "all_frames w' = mset (app_frames ?s) + mset (drop k (queued_frames ?s)) +
      (w_held w' + mset cs) + mset (completed_frames ?s)"
    by (simp add: all_frames_def k app)
  also have "\<dots> = mset (app_frames ?s) + (mset (take k (queued_frames ?s)) + mset (drop k (queued_frames ?s))) +
      w_held w + mset (completed_frames ?s)"
    by (simp add: k(3))
  also have "\<dots> = all_frames w" by (simp add: all_frames_def flip: mset_append)
  finally have "all_frames w' = all_frames w" .
  moreover have "tx_shape ?s'"
    using inv rely by (simp add: tx_inv_def tx_shape_def tx_rely_def Let_def)
  moreover have "ring_cap (x_ring ?s') = ring_cap (x_ring ?s)"
    using rely by (simp add: tx_rely_def Let_def)
  ultimately show ?thesis using inv by (simp add: tx_inv_def)
qed

text \<open>A step of a run: the kernel moves, or a client that keeps to the rule \<open>A\<close> calls.\<close>

inductive tx_step ::
  "(tx_op \<Rightarrow> socket \<Rightarrow> bool) \<Rightarrow> (tx_world \<Rightarrow> tx_world \<Rightarrow> bool) \<Rightarrow> build \<Rightarrow> tx_world \<Rightarrow> tx_world \<Rightarrow> bool"
  for A K b where
  kernel_moves: "K w w' \<Longrightarrow> tx_step A K b w w'"
| app_calls: "A op (w_sock w) \<Longrightarrow> tx_step A K b w (tx_apply b op w)"

inductive_cases tx_stepE: "tx_step A K b w w'"

inductive tx_reach ::
  "(tx_op \<Rightarrow> socket \<Rightarrow> bool) \<Rightarrow> (tx_world \<Rightarrow> tx_world \<Rightarrow> bool) \<Rightarrow> build \<Rightarrow> tx_world \<Rightarrow> tx_world \<Rightarrow> bool"
  for A K b w0 where
  reach_refl: "tx_reach A K b w0 w0"
| reach_step: "tx_reach A K b w0 w \<Longrightarrow> tx_step A K b w w' \<Longrightarrow> tx_reach A K b w0 w'"

lemma tx_reach_any: "tx_reach A K b w0 w \<Longrightarrow> tx_reach any_call K b w0 w"
  by (induction rule: tx_reach.induct)
    (auto simp: any_call_def intro: tx_reach.intros tx_step.intros elim!: tx_stepE)

definition fresh_rings :: "xdp_desc ring \<Rightarrow> u64 ring \<Rightarrow> bool" where
  "fresh_rings x u \<longleftrightarrow> ring_ok x \<and> ring_ok u \<and> ring_cap u = ring_cap x \<and>
     prod_ix x = 0 \<and> cons_ix x = 0 \<and> prod_ix u = 0 \<and> cons_ix u = 0"

definition frame_pool :: "u32 \<Rightarrow> nat \<Rightarrow> u64 list" where
  "frame_pool start n = map (\<lambda>k. frame_addr (unat start + k)) [0..<n]"

text \<open>
  The world right after a socket is made from a ring that was filled from frame \<open>start\<close> on: nothing is
  queued, held or completed.
\<close>

lemma fresh_socket_inv:
  assumes "fresh_rings x u" "filled_with frame_desc start x x'"
  shows "tx_inv (frame_pool start (ring_cap x)) \<lparr>w_sock = socket_new (Some i) x' u, w_mem = mem, w_held = {#}\<rparr>"
proof -
  have x: "ring_ok x" using assms(1) by (simp add: fresh_rings_def)
  have x': "ring_ok x'" "same_indices x x'"
    "window (slot_rd x') 0 (ring_cap x) = map (\<lambda>k. frame_desc (frame_addr (unat start + k))) [0..<ring_cap x]"
    using assms(2) by (simp_all add: filled_with_def)
  let ?s = "socket_new (Some i) x' u"
  have cap: "ring_cap x' = ring_cap x" using x'(2) by (rule same_indices_cap)
  then have av: "unat (available ?s) = ring_cap x"
    using ring_size_lt [OF ring_okD(3) [OF x]]
    by (simp add: socket_new_def unat_ucast_64_32 flip: ring_cap_def)
  have "app_frames ?s = map d_addr (window (slot_rd x') 0 (ring_cap x))"
    unfolding app_frames_def av map_window by (simp add: socket_new_def)
  then have "app_frames ?s = frame_pool start (ring_cap x)"
    by (simp add: x'(3) frame_pool_def frame_desc_def)
  moreover have "queued_frames ?s = []" "completed_frames ?s = []"
    using assms(1) x'(2) by (simp_all add: queued_frames_def queued_count_def completed_frames_def
        pending_def socket_new_def fresh_rings_def same_indices_def)
  ultimately show ?thesis
    using assms(1) x' cap by (simp add: tx_inv_def all_frames_def tx_shape_def fresh_rings_def
        socket_new_def frame_pool_def same_indices_def)
qed

text \<open>The pointer to the UMEM never changes.\<close>

lemma reclaimed_frames [simp]: "frames (reclaimed k s) = frames s"
  by (simp add: reclaimed_def)

lemma seek_tx_frames:
  assumes "wf_tx s"
  shows "frames (fst (seek_tx b s n)) = frames s"
proof (cases "n \<le> ucast (available s)")
  case True
  then show ?thesis by (simp add: seek_tx_hit)
next
  case False
  then show ?thesis
    using assms by (cases "pending s = 0") (simp_all add: seek_tx_empty seek_tx_reclaims)
qed

lemma peek_tx_frames: "ring_ok (x_ring s) \<Longrightarrow> frames (fst (peek_tx b s i len)) = frames s"
  using peek_tx_same_addrs [of s b i len] by (auto simp: same_addrs_def)

lemma commit_tx_frames: "frames (fst (commit_tx b s n)) = frames s"
  by (simp add: commit_tx_def Let_def sub_chk_def update_producer_def with_cells_def split: option.split)

lemma tx_apply_frames:
  assumes wf: "wf_tx (w_sock w)"
  shows "frames (w_sock (tx_apply b op w)) = frames (w_sock w)"
proof -
  have x: "ring_ok (x_ring (w_sock w))" using wf by (rule wf_txD)
  have seek: "wf_tx (fst (seek_tx b (w_sock w) n))" for n
    using tx.seek_preserves [OF wf] by simp
  show ?thesis
  proof (cases op)
    case (OpSeekAndPeek len)
    obtain s1 r where s1: "seek_tx b (w_sock w) 1 = (s1, r)" by fastforce
    then have "frames s1 = frames (w_sock w)" "ring_ok (x_ring s1)"
      using seek_tx_frames [OF wf, of b 1] wf_txD(1) [OF seek [of 1]] by simp_all
    then show ?thesis
      using peek_tx_frames [of s1 b 0 len] by (cases r) (simp_all add: OpSeekAndPeek seek_and_peek_tx_def s1)
  next
    case (OpSend data header)
    obtain s' m' where f: "fst (send b (w_sock w, w_mem w) data header) = (s', m')" by fastforce
    obtain l where "s' \<in> {w_sock w, fst (peek_tx b (w_sock w) 0 l), fst (commit_tx b (fst (peek_tx b (w_sock w) 0 l)) 1)}"
      using send_socket_cases [of b "w_sock w" "w_mem w" data header] f by auto
    then show ?thesis by (auto simp: OpSend f commit_tx_frames peek_tx_frames x)
  next
    case (OpWrite i len start bs)
    then obtain m where "tx_apply b op w = w\<lparr>w_sock := fst (peek_tx b (w_sock w) i len), w_mem := m\<rparr>"
      using tx_apply_write by blast
    then show ?thesis by (simp add: peek_tx_frames x)
  qed (simp_all add: socket_seek_n_def socket_commit_n_def peek_at_tx_def seek_tx_frames wf
      commit_tx_frames peek_tx_frames x)
qed

lemma tx_reach_inv:
  assumes "tx_reach single_frame K b w0 w" "tx_inv pool w0" "safety_checks b" "\<And>w w'. K w w' \<Longrightarrow> tx_rely w w'"
  shows "tx_inv pool w \<and> frames (w_sock w) = frames (w_sock w0)"
  using assms(1,2)
proof (induction rule: tx_reach.induct)
  case reach_refl
  then show ?case by simp
next
  case (reach_step w w')
  then have w: "tx_inv pool w" "frames (w_sock w) = frames (w_sock w0)" by blast+
  from reach_step.hyps(2) show ?case
  proof (rule tx_stepE)
    assume "K w w'"
    then have "tx_rely w w'" by (rule assms(4))
    then show ?thesis using w tx_rely_inv [OF w(1)] by (simp add: tx_rely_def Let_def)
  next
    fix op assume "w' = tx_apply b op w" "single_frame op (w_sock w)"
    then show ?thesis using w assms(3) tx_apply_inv tx_apply_frames [OF tx_inv_wf [OF w(1)]] by metis
  qed
qed

section \<open>Clients that make any call\<close>

lemma pool_inv_same_addrs:
  assumes inv: "pool_inv N P w" and s: "same_addrs (w_sock w) s'"
  shows "pool_inv N P (w\<lparr>w_sock := s'\<rparr>)"
proof -
  have "size (all_frames (w\<lparr>w_sock := s'\<rparr>)) = size (all_frames w)" "completed_frames s' = completed_frames (w_sock w)"
    using same_addrs_frames [OF s] by (simp_all add: all_frames_def)
  moreover have "d_addr (slot_rd (x_ring s') i) = d_addr (slot_rd (x_ring (w_sock w)) i)" for i
    using s by (auto simp: same_addrs_def fun_eq_iff)
  ultimately show ?thesis using inv s by (auto simp: pool_inv_def tx_shape_def same_addrs_def)
qed

lemma queued_count_reclaimed: "queued_count (reclaimed k s) = queued_count s"
  by (simp add: queued_count_def reclaimed_def)

lemma pool_inv_reclaimed:
  assumes inv: "pool_inv N P w" and k: "0 < k" "k \<le> pending (w_sock w)"
  shows "pool_inv N P (w\<lparr>w_sock := reclaimed k (w_sock w)\<rparr>)"
proof -
  let ?s = "w_sock w" and ?s' = "reclaimed k (w_sock w)"
  have wf: "wf_tx ?s" by (rule pool_inv_wf [OF inv])
  have x: "ring_ok (x_ring ?s)" using wf by (rule wf_txD)
  have "completed_frames ?s = window (slot_rd (u_ring ?s)) (consumer ?s) k @ completed_frames ?s'"
    using k(2) window_append [of "slot_rd (u_ring ?s)" "consumer ?s" k "pending ?s - k"]
    by (simp add: completed_frames_def pending_reclaimed) (simp add: reclaimed_def)
  then have comp: "set (completed_frames ?s') \<subseteq> P" using inv by (simp add: pool_inv_def)
  have "slot_rd (u_ring ?s) (consumer ?s + of_nat (k - 1)) = completed_frames ?s ! (k - 1)"
    using k by (simp add: completed_frames_def)
  also have "\<dots> \<in> set (completed_frames ?s)" using k by (intro nth_mem) simp
  finally have "slot_rd (u_ring ?s) (consumer ?s + of_nat (k - 1)) \<in> P" using inv by (auto simp: pool_inv_def)
  then have slots: "\<forall>i. d_addr (slot_rd (x_ring ?s') i) \<in> P"
    using inv x by (simp add: pool_inv_def reclaimed_def slot_rd_wr xdp_desc_new_def)
  have "size (all_frames (w\<lparr>w_sock := ?s'\<rparr>)) = size (all_frames w)"
    using k(2) wf by (simp add: all_frames_def available_reclaimed pending_reclaimed queued_count_reclaimed)
  then show ?thesis
    using inv comp slots by (simp add: pool_inv_def) (simp add: tx_shape_def reclaimed_def)
qed

lemma seek_pool_inv:
  assumes "pool_inv N P w"
  shows "pool_inv N P (w\<lparr>w_sock := fst (seek_tx b (w_sock w) n)\<rparr>)"
proof (cases "n \<le> ucast (available (w_sock w)) \<or> pending (w_sock w) = 0")
  case True
  then have "fst (seek_tx b (w_sock w) n) = w_sock w"
    using pool_inv_wf [OF assms] by (cases "n \<le> ucast (available (w_sock w))") (simp_all add: seek_tx_hit seek_tx_empty)
  then show ?thesis using assms by simp
next
  case False
  define k where "k = min (unat n - unat (available (w_sock w))) (pending (w_sock w))"
  have "fst (seek_tx b (w_sock w) n) = reclaimed k (w_sock w)"
    using seek_tx_reclaims [OF pool_inv_wf [OF assms], of n k b] False k_def by simp
  then show ?thesis
    using pool_inv_reclaimed [OF assms, of k] False by (simp add: k_def word_le_nat_alt)
qed

lemma commit_pool_inv:
  assumes inv: "pool_inv N P w" and b: "safety_checks b \<or> ucast n \<le> available (w_sock w)"
  shows "pool_inv N P (w\<lparr>w_sock := fst (commit_tx b (w_sock w) n)\<rparr>)"
proof (cases "available (w_sock w) < ucast n")
  case True
  then show ?thesis using inv b tx.commit_refused [of b "w_sock w" n] by (auto simp: not_le)
next
  case False
  have wf: "wf_tx (w_sock w)" by (rule pool_inv_wf [OF inv])
  have "size (all_frames (w\<lparr>w_sock := fst (commit_tx b (w_sock w) n)\<rparr>)) = size (all_frames w)"
    "completed_frames (fst (commit_tx b (w_sock w) n)) = completed_frames (w_sock w)"
    using commit_moves [OF wf, of n b] pool_inv_count [OF inv] False
    by (simp_all add: all_frames_def not_less word_le_nat_alt)
  then show ?thesis
    using inv commit_tx_ok [OF wf, of n b] False by (simp add: pool_inv_def) (simp add: tx_shape_def)
qed

lemma pool_inv_mem [simp]: "pool_inv N P (w\<lparr>w_mem := m\<rparr>) = pool_inv N P w"
  by (simp add: pool_inv_def all_frames_def)

lemma peek_pool_inv:
  "pool_inv N P w \<Longrightarrow> pool_inv N P (w\<lparr>w_sock := fst (peek_tx b (w_sock w) i len)\<rparr>)"
  by (rule pool_inv_same_addrs, assumption, rule peek_tx_same_addrs) (simp add: pool_inv_def tx_shape_def)

lemma tx_apply_pool_inv:
  assumes "pool_inv N P w" "safety_checks b"
  shows "pool_inv N P (tx_apply b op w)"
  by (rule tx_apply_keeps [where P = "pool_inv N P"]) (use assms seek_pool_inv peek_pool_inv commit_pool_inv in simp_all)

lemma tx_rely_pool_inv:
  assumes inv: "pool_inv N P w" and rely: "tx_rely w w'"
  shows "pool_inv N P w'"
proof -
  let ?s = "w_sock w" and ?s' = "w_sock w'"
  obtain k cs where k: "k \<le> queued_count ?s" "queued_frames ?s' = drop k (queued_frames ?s)"
    "completed_frames ?s' = completed_frames ?s @ cs"
    "w_held w' + mset cs = w_held w + mset (take k (queued_frames ?s))"
    using rely by (auto simp: tx_rely_def Let_def)
  have "set (take k (queued_frames ?s)) \<subseteq> P"
    using inv set_take_subset [of k "queued_frames ?s"] by (auto simp: pool_inv_def queued_frames_def window_def)
  moreover have "set_mset (w_held w' + mset cs) = set_mset (w_held w) \<union> set (take k (queued_frames ?s))"
    by (simp add: k(4))
  ultimately have pool: "set_mset (w_held w') \<subseteq> P" "set cs \<subseteq> P"
    using inv by (auto simp: pool_inv_def)
  have "size (w_held w') + length cs = size (w_held w) + k"
    using arg_cong [OF k(4), of size] k(1) by simp
  moreover have "length (queued_frames ?s') = queued_count ?s - k" "length (completed_frames ?s') = pending ?s + length cs"
    by (simp_all add: k(2,3) del: length_frames(2,3)) simp_all
  moreover have "available ?s' = available ?s" using rely by (simp add: tx_rely_def Let_def)
  ultimately have "size (all_frames w') = size (all_frames w)" using k(1) by (simp add: all_frames_def)
  then show ?thesis
    using inv rely pool k(3) by (auto simp: pool_inv_def tx_shape_def tx_rely_def Let_def)
qed

lemma tx_reach_pool_inv:
  assumes "tx_reach A K b w0 w" "pool_inv N P w0" "safety_checks b" "\<And>w w'. K w w' \<Longrightarrow> tx_rely w w'"
  shows "pool_inv N P w \<and> frames (w_sock w) = frames (w_sock w0)"
  using assms(1,2)
proof (induction rule: tx_reach.induct)
  case reach_refl
  then show ?case by simp
next
  case (reach_step w w')
  then have w: "pool_inv N P w" "frames (w_sock w) = frames (w_sock w0)" by blast+
  from reach_step.hyps(2) show ?case
  proof (rule tx_stepE)
    assume "K w w'"
    then have "tx_rely w w'" by (rule assms(4))
    then show ?thesis using w tx_rely_pool_inv [OF w(1)] by (simp add: tx_rely_def Let_def)
  next
    fix op assume "w' = tx_apply b op w"
    then show ?thesis using w assms(3) tx_apply_pool_inv tx_apply_frames [OF pool_inv_wf [OF w(1)]] by metis
  qed
qed

end
