(* ===== verification/Os.thy ===== *)
theory Os
  imports Ring
begin

text \<open>
  The operating system as the crates see it, and the resources they take from it.

  System calls are not part of the repository: an \<open>os\<close> is an argument of every operation that makes
  them. A program run is the list of the calls made so far with their answers, and \<open>os_fun\<close> answers the
  next call from that list. The first half of the theory is generic in the calls and gives the
  contract of resource scopes: what is acquired during a run, what is released, and what running the
  destructors of the live values does to the balance.
\<close>

section \<open>Runs and their resources\<close>

type_synonym ('c, 'a) run = "('c \<times> 'a) list"

definition sys_call :: "(('c, 'a) run \<Rightarrow> 'c \<Rightarrow> 'a) \<Rightarrow> ('c, 'a) run \<Rightarrow> 'c \<Rightarrow> ('c, 'a) run \<times> 'a" where
  "sys_call f tr c = (let a = f tr c in (tr @ [(c, a)], a))"

definition acquired_res :: "('c \<times> 'a \<Rightarrow> 'r option) \<Rightarrow> ('c, 'a) run \<Rightarrow> 'r multiset" where
  "acquired_res acq tr = mset (List.map_filter acq tr)"

definition released_res :: "('c \<Rightarrow> 'r option) \<Rightarrow> ('c, 'a) run \<Rightarrow> 'r multiset" where
  "released_res rel tr = mset (List.map_filter (\<lambda>(c, a). rel c) tr)"

text \<open>\<open>live\<close> is what a run has acquired and not released.\<close>

definition holds :: "('c \<times> 'a \<Rightarrow> 'r option) \<Rightarrow> ('c \<Rightarrow> 'r option) \<Rightarrow> ('c, 'a) run \<Rightarrow> 'r multiset \<Rightarrow> bool" where
  "holds acq rel tr live \<longleftrightarrow> acquired_res acq tr = released_res rel tr + live"

lemma map_filter_snoc [simp]:
  "List.map_filter f (xs @ [x]) = List.map_filter f xs @ (case f x of None \<Rightarrow> [] | Some y \<Rightarrow> [y])"
  by (simp add: List.map_filter_def split: option.split)

lemma acquired_res_Nil [simp]: "acquired_res acq [] = {#}"
  by (simp add: acquired_res_def List.map_filter_def)

lemma released_res_Nil [simp]: "released_res rel [] = {#}"
  by (simp add: released_res_def List.map_filter_def)

lemma acquired_res_snoc [simp]:
  "acquired_res acq (tr @ [e]) = acquired_res acq tr + (case acq e of None \<Rightarrow> {#} | Some r \<Rightarrow> {#r#})"
  by (simp add: acquired_res_def split: option.split)

lemma released_res_snoc [simp]:
  "released_res rel (tr @ [(c, a)]) = released_res rel tr + (case rel c of None \<Rightarrow> {#} | Some r \<Rightarrow> {#r#})"
  by (simp add: released_res_def split: option.split)

lemma holds_Nil [simp]: "holds acq rel [] {#}"
  by (simp add: holds_def)

lemma holds_neutral:
  "acq (c, a) = None \<Longrightarrow> rel c = None \<Longrightarrow> holds acq rel (tr @ [(c, a)]) live = holds acq rel tr live"
  by (simp add: holds_def)

lemma holds_acquire:
  "acq (c, a) = Some r \<Longrightarrow> rel c = None \<Longrightarrow> holds acq rel tr live \<Longrightarrow>
    holds acq rel (tr @ [(c, a)]) (add_mset r live)"
  by (simp add: holds_def)

lemma holds_release:
  "acq (c, a) = None \<Longrightarrow> rel c = Some r \<Longrightarrow> holds acq rel tr (add_mset r live) \<Longrightarrow>
    holds acq rel (tr @ [(c, a)]) live"
  by (simp add: holds_def)

text \<open>Destructors run one after the other.\<close>

fun drop_all :: "('d \<Rightarrow> ('c, 'a) run \<Rightarrow> ('c, 'a) run) \<Rightarrow> 'd list \<Rightarrow> ('c, 'a) run \<Rightarrow> ('c, 'a) run" where
  "drop_all drop_one [] tr = tr"
| "drop_all drop_one (d # ds) tr = drop_all drop_one ds (drop_one d tr)"

text \<open>
  The contract of a resource scope: every value \<open>d\<close> owns the resources \<open>owns d\<close>, and its destructor
  releases exactly those.
\<close>

locale resource_scope =
  fixes acq :: "'c \<times> 'a \<Rightarrow> 'r option"
    and rel :: "'c \<Rightarrow> 'r option"
    and owns :: "'d \<Rightarrow> 'r multiset"
    and drop_one :: "'d \<Rightarrow> ('c, 'a) run \<Rightarrow> ('c, 'a) run"
  assumes drop_releases:
    "holds acq rel tr (owns d + live) \<Longrightarrow> holds acq rel (drop_one d tr) live"
begin

lemma drop_all_releases:
  "holds acq rel tr (sum_list (map owns ds) + live) \<Longrightarrow> holds acq rel (drop_all drop_one ds tr) live"
proof (induction ds arbitrary: tr)
  case Nil
  then show ?case by simp
next
  case (Cons d ds)
  have "holds acq rel (drop_one d tr) (sum_list (map owns ds) + live)"
    by (rule drop_releases) (use Cons.prems in \<open>simp add: add.assoc\<close>)
  then show ?case by (simp add: Cons.IH)
qed

text \<open>Leaving a scope that owns everything that is live leaves nothing behind.\<close>

lemma scope_exit:
  "holds acq rel tr (sum_list (map owns ds)) \<Longrightarrow> holds acq rel (drop_all drop_one ds tr) {#}"
  using drop_all_releases [of tr ds "{#}"] by simp

end

section \<open>The calls of the socket crate\<close>

record xdp_ring_offset =
  off_producer :: u64
  off_consumer :: u64
  off_desc :: u64
  off_flags :: u64

record xdp_mmap_offsets =
  off_rx :: xdp_ring_offset
  off_tx :: xdp_ring_offset
  off_fr :: xdp_ring_offset
  off_cr :: xdp_ring_offset

text \<open>Constants of the C headers stay symbolic.\<close>

datatype ring_opt = XDP_TX_RING | XDP_RX_RING | XDP_UMEM_FILL_RING | XDP_UMEM_COMPLETION_RING

datatype ring_pgoff =
    XDP_PGOFF_TX_RING | XDP_PGOFF_RX_RING | XDP_UMEM_PGOFF_FILL_RING | XDP_UMEM_PGOFF_COMPLETION_RING

datatype bind_flag = XDP_USE_NEED_WAKEUP | XDP_ZEROCOPY | XDP_COPY

datatype os_call =
    SysSocketXdp
  | SysMmapAnon usize bool
  | SysMmapRing int usize ring_pgoff
  | SysMunmap u64 usize
  | SysSetRing int ring_opt u32
  | SysUmemReg int u64 u64 u32
  | SysGetOffsets int
  | SysBind int "bind_flag list" u32 u32
  | SysClose int

text \<open>
  An answer has the return value, the address for \<^verbatim>\<open>mmap\<close>, the error number that
  \<^verbatim>\<open>last_os_error\<close> reads, and the offsets for \<^verbatim>\<open>getsockopt\<close>; each call uses the fields it has.
\<close>

record os_answer =
  a_ret :: int
  a_addr :: u64
  a_errno :: errno
  a_offsets :: xdp_mmap_offsets

type_synonym os_run = "(os_call, os_answer) run"

text \<open>
  \<open>os_meminfo\<close> is the result of opening \<^verbatim>\<open>/proc/meminfo\<close> and its lines, \<open>os_indices\<close> the producer,
  consumer and flags words of a ring when it is mapped, \<open>os_u64\<close> and \<open>os_desc\<close> its descriptors,
  \<open>os_show\<close> the text of an I/O error.
\<close>

record os =
  os_fun :: "os_run \<Rightarrow> os_call \<Rightarrow> os_answer"
  os_map_failed :: u64
  os_page_size :: usize
  os_meminfo :: "(io_error, (io_error, string) res list) res"
  os_indices :: "ring_pgoff \<Rightarrow> u32 \<times> u32 \<times> u32"
  os_u64 :: "ring_pgoff \<Rightarrow> nat \<Rightarrow> u64"
  os_desc :: "ring_pgoff \<Rightarrow> nat \<Rightarrow> xdp_desc"
  os_show :: "io_error \<Rightarrow> string"

definition os_call :: "os \<Rightarrow> os_run \<Rightarrow> os_call \<Rightarrow> os_run \<times> os_answer" where
  "os_call os tr c = sys_call (os_fun os) tr c"

section \<open>Mappings and descriptors as resources\<close>

datatype os_resource = RMap u64 usize | RFd int

text \<open>A call acquires a mapping when its address is not \<^verbatim>\<open>MAP_FAILED\<close>, a descriptor when it is not negative.\<close>

fun os_acq :: "u64 \<Rightarrow> os_call \<times> os_answer \<Rightarrow> os_resource option" where
  "os_acq failed (SysSocketXdp, a) = (if a_ret a < 0 then None else Some (RFd (a_ret a)))"
| "os_acq failed (SysMmapAnon len huge, a) = (if a_addr a = failed then None else Some (RMap (a_addr a) len))"
| "os_acq failed (SysMmapRing fd len off, a) = (if a_addr a = failed then None else Some (RMap (a_addr a) len))"
| "os_acq failed _ = None"

fun os_rel :: "os_call \<Rightarrow> os_resource option" where
  "os_rel (SysMunmap a len) = Some (RMap a len)"
| "os_rel (SysClose fd) = Some (RFd fd)"
| "os_rel _ = None"

text \<open>The values with a destructor: \<^verbatim>\<open>OwnedMmap\<close> and \<^verbatim>\<open>OwnedFd\<close>.\<close>

datatype os_value = DropMmap owned_mmap | DropFd int

definition mmap_drop :: "os \<Rightarrow> owned_mmap \<Rightarrow> os_run \<Rightarrow> os_run" where
  "mmap_drop os m tr =
     (if mm_ptr m \<noteq> os_map_failed os \<and> mm_ptr m \<noteq> 0
      then fst (os_call os tr (SysMunmap (mm_ptr m) (mm_size m)))
      else tr)"

fun os_drop :: "os \<Rightarrow> os_value \<Rightarrow> os_run \<Rightarrow> os_run" where
  "os_drop os (DropMmap m) tr = mmap_drop os m tr"
| "os_drop os (DropFd fd) tr = fst (os_call os tr (SysClose fd))"

fun os_owns :: "os \<Rightarrow> os_value \<Rightarrow> os_resource multiset" where
  "os_owns os (DropMmap m) =
     (if mm_ptr m \<noteq> os_map_failed os \<and> mm_ptr m \<noteq> 0 then {#RMap (mm_ptr m) (mm_size m)#} else {#})"
| "os_owns os (DropFd fd) = {#RFd fd#}"

interpretation os_scope: resource_scope "os_acq (os_map_failed os)" os_rel "os_owns os" "os_drop os" for os
proof unfold_locales
  show "holds (os_acq (os_map_failed os)) os_rel (os_drop os d tr) live"
    if "holds (os_acq (os_map_failed os)) os_rel tr (os_owns os d + live)" for tr d live
    using that
    by (cases d) (auto simp: mmap_drop_def os_call_def sys_call_def Let_def intro: holds_release)
qed

end
