(* ===== verification/Mmap.thy ===== *)
theory Mmap
  imports Os
begin

unbundle bit_operations_syntax

text \<open>
  \<^verbatim>\<open>xdp-socket/src/mmap.rs\<close>: the size and the flags of the UMEM mapping, and the parser of
  \<^verbatim>\<open>/proc/meminfo\<close> that decides whether huge pages are used. Text is ASCII, as \<^verbatim>\<open>/proc/meminfo\<close> is.
\<close>

section \<open>Strings of the standard library\<close>

text \<open>\<^verbatim>\<open>str::split(c)\<close>, \<^verbatim>\<open>str::trim\<close>, \<^verbatim>\<open>str::trim_end_matches\<close> and \<^verbatim>\<open>u64::from_str\<close>.\<close>

fun split_on :: "char \<Rightarrow> string \<Rightarrow> string list" where
  "split_on c [] = [[]]"
| "split_on c (x # xs) =
     (if x = c then [] # split_on c xs
      else case split_on c xs of [] \<Rightarrow> [[x]] | w # ws \<Rightarrow> (x # w) # ws)"

definition is_space :: "char \<Rightarrow> bool" where
  "is_space c \<longleftrightarrow> c = CHR '' '' \<or> (9 \<le> (of_char c :: nat) \<and> (of_char c :: nat) \<le> 13)"

definition trim_start :: "string \<Rightarrow> string" where
  "trim_start s = dropWhile is_space s"

definition trim :: "string \<Rightarrow> string" where
  "trim s = rev (dropWhile is_space (rev (trim_start s)))"

definition strip_suffix :: "string \<Rightarrow> string \<Rightarrow> string option" where
  "strip_suffix suf s =
     (if length suf \<le> length s \<and> drop (length s - length suf) s = suf
      then Some (take (length s - length suf) s) else None)"

text \<open>Repeated removal of a suffix; every removal of a non-empty suffix makes the text shorter.\<close>

fun trim_end_matches :: "string \<Rightarrow> string \<Rightarrow> string" where
  "trim_end_matches suf s =
     (if suf = [] then s
      else case strip_suffix suf s of
        None \<Rightarrow> s
      | Some s' \<Rightarrow> if length s' < length s then trim_end_matches suf s' else s)"

declare trim_end_matches.simps [simp del]

definition digit_val :: "char \<Rightarrow> nat option" where
  "digit_val c = (if 48 \<le> (of_char c :: nat) \<and> (of_char c :: nat) \<le> 57 then Some (of_char c - 48) else None)"

fun parse_digits :: "nat \<Rightarrow> string \<Rightarrow> (string, nat) res" where
  "parse_digits acc [] = Ok acc"
| "parse_digits acc (c # cs) =
     (case digit_val c of
        None \<Rightarrow> Err ''invalid digit found in string''
      | Some d \<Rightarrow>
          let acc' = acc * 10 + d
          in if acc' < 2 ^ 64 then parse_digits acc' cs
             else Err ''number too large to fit in target type'')"

fun parse_u64 :: "string \<Rightarrow> (string, u64) res" where
  "parse_u64 [] = Err ''cannot parse integer from empty string''"
| "parse_u64 (c # cs) =
     (if (c = CHR ''+'' \<or> c = CHR ''-'') \<and> cs = [] then Err ''invalid digit found in string''
      else res_then (parse_digits 0 (if c = CHR ''+'' then cs else c # cs)) (\<lambda>n. Ok (of_nat n)))"

section \<open>Huge page information\<close>

record hugepage_info =
  size_kb :: "u64 option"
  total :: "u64 option"
  free :: "u64 option"

definition hugepage_info_default :: hugepage_info where
  "hugepage_info_default = \<lparr>size_kb = None, total = None, free = None\<rparr>"

definition parse_value :: "string \<Rightarrow> (io_error, u64) res" where
  "parse_value s = map_err OtherError (parse_u64 s)"

definition meminfo_line :: "hugepage_info \<Rightarrow> string \<Rightarrow> (io_error, hugepage_info) res" where
  "meminfo_line info line =
     (let parts = split_on CHR '':'' line in
      if length parts = 2 then
        let key = trim (parts ! 0);
            value_str = trim_end_matches '' kB'' (trim (parts ! 1))
        in if key = ''Hugepagesize''
           then res_then (parse_value value_str) (\<lambda>n. Ok (info\<lparr>size_kb := Some n\<rparr>))
           else if key = ''HugePages_Total''
           then res_then (parse_value value_str) (\<lambda>n. Ok (info\<lparr>total := Some n\<rparr>))
           else if key = ''HugePages_Free''
           then res_then (parse_value value_str) (\<lambda>n. Ok (info\<lparr>free := Some n\<rparr>))
           else Ok info
      else Ok info)"

fun meminfo_lines :: "hugepage_info \<Rightarrow> (io_error, string) res list \<Rightarrow> (io_error, hugepage_info) res" where
  "meminfo_lines info [] = Ok info"
| "meminfo_lines info (l # ls) =
     res_then l (\<lambda>line. res_then (meminfo_line info line) (\<lambda>info'. meminfo_lines info' ls))"

definition get_hugepage_info :: "os \<Rightarrow> (io_error, hugepage_info) res" where
  "get_hugepage_info os = res_then (os_meminfo os) (meminfo_lines hugepage_info_default)"

section \<open>Mapping\<close>

definition owned_mmap_new :: "u64 \<Rightarrow> usize \<Rightarrow> owned_mmap" where
  "owned_mmap_new p len = \<lparr>mm_ptr = p, mm_size = len\<rparr>"

definition use_huge :: "os \<Rightarrow> bool option \<Rightarrow> (io_error, bool) res" where
  "use_huge os huge_page =
     (case huge_page of
        Some yes \<Rightarrow> Ok yes
      | None \<Rightarrow> res_then (get_hugepage_info os) (\<lambda>info.
          case (free info, size_kb info) of
            (Some x, Some y) \<Rightarrow> Ok (y = 2048 \<and> 0 < x)
          | _ \<Rightarrow> Ok False))"

definition page_size_of :: "os \<Rightarrow> bool \<Rightarrow> usize" where
  "page_size_of os huge_tlb = (if huge_tlb then 2 * 1024 * 1024 else os_page_size os)"

text \<open>\<^verbatim>\<open>(size + page_size - 1) & !(page_size - 1)\<close>\<close>

definition align_up :: "build \<Rightarrow> usize \<Rightarrow> usize \<Rightarrow> (io_error, usize) res" where
  "align_up b len page_size =
     res_then (add_chk b len page_size) (\<lambda>s.
     res_then (sub_chk b s 1) (\<lambda>s1.
     res_then (sub_chk b page_size 1) (\<lambda>m.
     Ok (s1 AND NOT m))))"

definition owned_mmap_mmap ::
  "os \<Rightarrow> build \<Rightarrow> os_run \<Rightarrow> usize \<Rightarrow> bool option \<Rightarrow> os_run \<times> (io_error, owned_mmap) res" where
  "owned_mmap_mmap os b tr len huge_page =
     try_in tr (use_huge os huge_page) (\<lambda>huge_tlb.
     try_in tr (align_up b len (page_size_of os huge_tlb)) (\<lambda>aligned_size.
     let (tr', a) = os_call os tr (SysMmapAnon aligned_size huge_tlb)
     in if a_addr a = os_map_failed os then (tr', Err (OsError (a_errno a)))
        else (tr', Ok (owned_mmap_new (a_addr a) aligned_size))))"

definition as_void_ptr :: "owned_mmap \<Rightarrow> u64" where
  "as_void_ptr m = mm_ptr m"

definition as_u8_ptr :: "owned_mmap \<Rightarrow> u64" where
  "as_u8_ptr m = mm_ptr m"

definition owned_mmap_len :: "owned_mmap \<Rightarrow> usize" where
  "owned_mmap_len m = mm_size m"

definition owned_mmap_is_empty :: "owned_mmap \<Rightarrow> bool" where
  "owned_mmap_is_empty m \<longleftrightarrow> mm_size m = 0"

section \<open>Alignment\<close>

lemma unat_and_not_mask:
  fixes w :: u64
  assumes "k < 64"
  shows "unat (w AND NOT (2 ^ k - 1)) = unat w div 2 ^ k * 2 ^ k"
proof -
  have m: "(2 ^ k - 1 :: u64) = mask k" by (simp add: mask_eq_exp_minus_1)
  have "unat (take_bit k w) = take_bit k (unat w)" by (rule unsigned_take_bit_eq)
  then have "unat (w AND mask k) = unat w mod 2 ^ k"
    by (simp only: take_bit_eq_mask) (simp only: take_bit_eq_mask [symmetric] take_bit_eq_mod)
  moreover have "w AND NOT (mask k) = w - (w AND mask k)"
  proof -
    have "w - (w AND mask k) = w AND NOT (w AND mask k)"
      by (rule disjunctive_diff) (simp add: bit_and_iff)
    also have "\<dots> = w AND NOT (mask k)"
      by (rule bit_eqI) (auto simp: bit_simps)
    finally show ?thesis by simp
  qed
  moreover have "w AND mask k \<le> w" by (rule word_and_le2)
  ultimately have "unat (w AND NOT (mask k)) = unat w - unat w mod 2 ^ k"
    by (simp add: unat_sub)
  then show ?thesis by (simp only: m minus_mod_eq_div_mult)
qed

lemma round_up_bounds:
  fixes n p :: nat
  assumes "0 < p"
  shows "n \<le> (n + p - 1) div p * p \<and> (n + p - 1) div p * p < n + p"
proof -
  have "(n + p - 1) mod p < p" using assms by simp
  moreover have "(n + p - 1) div p * p + (n + p - 1) mod p = n + p - 1" by simp
  ultimately show ?thesis using assms by linarith
qed

lemma align_up_ok:
  assumes "k < 64" "unat page = 2 ^ k" "unat len + 2 ^ k < 2 ^ 64"
  shows "\<exists>a. align_up b len page = Ok a \<and> unat a = (unat len + 2 ^ k - 1) div 2 ^ k * 2 ^ k"
proof -
  have page: "page = 2 ^ k"
    by (metis assms(2) of_nat_numeral of_nat_power of_nat_unat ucast_id)
  have s: "unat (len + page) = unat len + 2 ^ k"
    using assms(2,3) by (simp add: unat_word_ariths(1))
  have "(1 :: nat) \<le> 2 ^ k" by simp
  then have "1 \<le> len + page" "1 \<le> page"
    using s assms(2) by (auto simp only: word_le_nat_alt unat_1)
  moreover from this(1) have "unat (len + page - 1) = unat len + 2 ^ k - 1"
    using s by (simp add: unat_sub)
  ultimately show ?thesis
    using assms unat_and_not_mask [of k "len + page - 1"]
    by (simp add: align_up_def page)
qed

section \<open>Reading back what the kernel prints\<close>

text \<open>Decimal numbers, and a line of \<^verbatim>\<open>/proc/meminfo\<close>: a key, a colon, padding, a number, a unit.\<close>

fun dec_digits :: "nat \<Rightarrow> string" where
  "dec_digits n =
     (if n < 10 then [char_of (48 + n)] else dec_digits (n div 10) @ [char_of (48 + n mod 10)])"

declare dec_digits.simps [simp del]

definition print_line :: "string \<times> nat \<times> nat \<times> bool \<Rightarrow> string" where
  "print_line e = (case e of (key, pad, n, kb) \<Rightarrow>
     key @ '':'' @ replicate pad CHR '' '' @ dec_digits n @ (if kb then '' kB'' else []))"

definition is_digit :: "char \<Rightarrow> bool" where
  "is_digit c \<longleftrightarrow> 48 \<le> (of_char c :: nat) \<and> (of_char c :: nat) \<le> 57"

lemma of_char_digit [simp]: "d < 10 \<Longrightarrow> (of_char (char_of (48 + d :: nat)) :: nat) = 48 + d"
  by simp

lemma digit_val_char [simp]: "d < 10 \<Longrightarrow> digit_val (char_of (48 + d :: nat)) = Some d"
  by (simp add: digit_val_def)

lemma is_digit_char [simp]: "d < 10 \<Longrightarrow> is_digit (char_of (48 + d :: nat))"
  by (simp add: is_digit_def)

lemma digits_dec: "set (dec_digits n) \<subseteq> Collect is_digit \<and> dec_digits n \<noteq> []"
proof (induction n rule: dec_digits.induct)
  case (1 n)
  then show ?case by (subst (1 2) dec_digits.simps) auto
qed

lemma digit_not_other:
  assumes "is_digit c"
  shows "\<not> is_space c" "c \<noteq> CHR '':''" "c \<noteq> CHR ''+''" "c \<noteq> CHR ''-''" "c \<noteq> CHR ''B''"
  using assms by (auto simp: is_digit_def is_space_def)

lemma parse_digits_append:
  "parse_digits acc (xs @ ys) = res_then (parse_digits acc xs) (\<lambda>a. parse_digits a ys)"
  by (induction acc xs rule: parse_digits.induct) (auto simp: Let_def split: option.split)

lemma parse_digits_dec: "n < 2 ^ 64 \<Longrightarrow> parse_digits 0 (dec_digits n) = Ok n"
proof (induction n rule: dec_digits.induct)
  case (1 n)
  show ?case
  proof (cases "n < 10")
    case True
    then show ?thesis by (subst dec_digits.simps) simp
  next
    case False
    have "parse_digits 0 (dec_digits (n div 10)) = Ok (n div 10)" using 1 False by simp
    moreover have "n div 10 * 10 + n mod 10 = n" by simp
    ultimately show ?thesis
      using False 1(2) by (subst dec_digits.simps) (simp add: parse_digits_append Let_def)
  qed
qed

lemma parse_u64_dec: "n < 2 ^ 64 \<Longrightarrow> parse_u64 (dec_digits n) = Ok (of_nat n)"
proof -
  assume n: "n < 2 ^ 64"
  obtain c cs where c: "dec_digits n = c # cs" using digits_dec [of n] by (cases "dec_digits n") auto
  then have "is_digit c" using digits_dec [of n] by auto
  then show ?thesis
    using parse_digits_dec [OF n] digit_not_other [of c] by (simp add: c del: parse_digits.simps)
qed

lemma split_on_absent: "c \<notin> set xs \<Longrightarrow> split_on c xs = [xs]"
  by (induction xs) auto

lemma split_on_once: "c \<notin> set xs \<Longrightarrow> split_on c (xs @ c # ys) = xs # split_on c ys"
  by (induction xs) auto

lemma trim_solid:
  assumes "xs \<noteq> []" "\<not> is_space (hd xs)" "\<not> is_space (last xs)"
  shows "trim (replicate pad CHR '' '' @ xs) = xs"
proof -
  have "trim_start (replicate pad CHR '' '' @ xs) = xs"
    using assms by (induction pad) (cases xs, auto simp: trim_start_def is_space_def)
  moreover have "dropWhile is_space (rev xs) = rev xs"
    using assms by (cases xs rule: rev_cases) simp_all
  ultimately show ?thesis by (simp add: trim_def)
qed

lemma strip_suffix_append: "strip_suffix suf (xs @ suf) = Some xs"
  by (simp add: strip_suffix_def)

lemma strip_suffix_kB_digits:
  assumes "xs \<noteq> []" "is_digit (last xs)"
  shows "strip_suffix '' kB'' xs = None"
proof -
  have "last xs = CHR ''B''" if "drop (length xs - length '' kB'') xs = '' kB''" "length '' kB'' \<le> length xs"
  proof -
    let ?n = "length xs - length '' kB''"
    have "last xs = last (take ?n xs @ drop ?n xs)" by (simp only: append_take_drop_id)
    then show ?thesis by (simp only: that(1)) simp
  qed
  then show ?thesis
    using digit_not_other(5) [OF assms(2)] unfolding strip_suffix_def by auto
qed

lemma trim_end_kB:
  assumes "xs \<noteq> []" "is_digit (last xs)"
  shows "trim_end_matches '' kB'' (xs @ (if kb then '' kB'' else [])) = xs"
  using strip_suffix_append [of "'' kB''" xs] strip_suffix_kB_digits [OF assms]
  by (simp add: trim_end_matches.simps)

definition key_ok :: "string \<Rightarrow> bool" where
  "key_ok k \<longleftrightarrow> CHR '':'' \<notin> set k \<and> k \<noteq> [] \<and> \<not> is_space (hd k) \<and> \<not> is_space (last k)"

definition store_value :: "hugepage_info \<Rightarrow> string \<Rightarrow> u64 \<Rightarrow> hugepage_info" where
  "store_value info key v =
     (if key = ''Hugepagesize'' then info\<lparr>size_kb := Some v\<rparr>
      else if key = ''HugePages_Total'' then info\<lparr>total := Some v\<rparr>
      else if key = ''HugePages_Free'' then info\<lparr>free := Some v\<rparr> else info)"

lemma meminfo_line_print:
  assumes key: "key_ok key" and n: "n < 2 ^ 64"
  shows "meminfo_line info (print_line (key, pad, n, kb)) = Ok (store_value info key (of_nat n))"
proof -
  let ?d = "dec_digits n" and ?u = "if kb then '' kB'' else []"
  have d: "?d \<noteq> []" "\<forall>c \<in> set ?d. is_digit c" using digits_dec [of n] by auto
  have "CHR '':'' \<notin> set (replicate pad CHR '' '' @ ?d @ ?u)"
    using d(2) digit_not_other(2) by auto
  then have parts: "split_on CHR '':'' (print_line (key, pad, n, kb)) = [key, replicate pad CHR '' '' @ ?d @ ?u]"
    using key by (simp add: print_line_def key_ok_def split_on_once split_on_absent)
  have "is_digit (hd ?d)" "is_digit (last ?d)" using d by simp_all
  then have "trim (replicate pad CHR '' '' @ ?d @ ?u) = ?d @ ?u"
    using d digit_not_other(1) by (intro trim_solid) (auto simp: is_space_def)
  moreover have "trim key = key" using key trim_solid [of key 0] by (simp add: key_ok_def)
  moreover have "trim_end_matches '' kB'' (?d @ ?u) = ?d"
    using d by (intro trim_end_kB) simp_all
  moreover have "parse_value ?d = Ok (of_nat n)" using n by (simp add: parse_value_def parse_u64_dec)
  ultimately show ?thesis
    unfolding meminfo_line_def parts Let_def by (simp add: store_value_def)
qed

end
