(* ===== verification/Rx.thy ===== *)
theory Rx
  imports Socket
begin

unbundle bit_operations_syntax

text \<open>
  The receive socket: \<^verbatim>\<open>seek_\<close> (\<^verbatim>\<open>seek.rs\<close>), \<^verbatim>\<open>peek_\<close> (\<^verbatim>\<open>peek.rs\<close>) and \<^verbatim>\<open>commit_\<close> (\<^verbatim>\<open>commit.rs\<close>) for
  \<^verbatim>\<open>Socket<_RX>\<close>, what each does, and the interpretation of the contract \<open>socket_dir\<close>.
\<close>

section \<open>Operations\<close>

definition seek_rx :: seek_impl where
  "seek_rx b s n =
     (if n \<le> ucast (available s) then (s, Ok n)
      else try_in s (ring_producer (x_ring s)) (\<lambda>x_producer.
        if x_producer = consumer s then (s, Err RingEmpty)
        else
          let s1 = s\<lparr>available := x_producer - consumer s\<rparr>
          in (s1, Ok (ucast (min (available s1) (ucast n))))))"

definition peek_rx :: "build \<Rightarrow> socket \<Rightarrow> usize \<Rightarrow> socket \<times> (ring_error, slice) res" where
  "peek_rx b s index =
     (if safety_checks b \<and> ucast (available s) \<le> index then (s, Err InvalidIndex)
      else
        let x_head = (consumer s + ucast index) AND mod_mask (x_ring s)
        in try_in s (desc_at b (x_ring s) x_head) (\<lambda>d.
           case mut_bytes_at b (x_ring s) (frames s) x_head (ucast (d_len d)) of
             (x', r) \<Rightarrow> (s\<lparr>x_ring := x'\<rparr>, r)))"

definition peek_rx_0 :: "build \<Rightarrow> socket \<Rightarrow> socket \<times> (ring_error, slice) res" where
  "peek_rx_0 b s = peek_rx b s 0"

definition peek_at_rx :: "build \<Rightarrow> socket \<Rightarrow> usize \<Rightarrow> socket \<times> (ring_error, slice) res" where
  "peek_at_rx b s index = peek_rx b s index"

definition seek_and_peek_rx :: "build \<Rightarrow> socket \<Rightarrow> socket \<times> (ring_error, slice) res" where
  "seek_and_peek_rx b s = and_then (seek_rx b s 1) (\<lambda>_ s'. peek_rx b s' 0)"

text \<open>\<^verbatim>\<open>for _ in 0..(count as u32)\<close>, by the number of rounds left.\<close>

fun commit_rx_loop :: "build \<Rightarrow> nat \<Rightarrow> socket \<Rightarrow> socket \<times> (ring_error, unit) res" where
  "commit_rx_loop b 0 s = (s, Ok ())"
| "commit_rx_loop b (Suc k) s =
     try_in s (desc_at b (x_ring s) (consumer s AND mod_mask (x_ring s))) (\<lambda>d.
     try_in s (mut_desc_at b (u_ring s) (producer s AND mod_mask (x_ring s)) (\<lambda>_. d_addr d)) (\<lambda>f_ring.
     commit_rx_loop b k
       (s\<lparr>u_ring := f_ring, consumer := consumer s + 1, producer := producer s + 1\<rparr>)))"

definition commit_rx :: commit_impl where
  "commit_rx b s n =
     (if safety_checks b \<and> available s < ucast n then (s, Err NotAvailable)
      else and_then (commit_rx_loop b (unat (ucast n :: u32)) s) (\<lambda>_ s1.
        try_in s1 (sub_chk b (available s1) (ucast n)) (\<lambda>a.
        let s2 = s1\<lparr>available := a\<rparr>
        in try_in s2 (update_consumer (x_ring s2) (consumer s2)) (\<lambda>x.
        let s3 = s2\<lparr>x_ring := x\<rparr>
        in try_in s3 (update_producer (u_ring s3) (producer s3)) (\<lambda>f.
        (s3\<lparr>u_ring := f\<rparr>, Ok ()))))))"

section \<open>Well-formed receive sockets\<close>

text \<open>The number of packets the kernel has put into the RX ring and the socket has not released.\<close>

definition received :: "socket \<Rightarrow> nat" where
  "received s = unat (prod_ix (x_ring s) - consumer s)"

definition rings_rx :: "socket \<Rightarrow> bool" where
  "rings_rx s \<longleftrightarrow> ring_ok (x_ring s) \<and> ring_ok (u_ring s) \<and> ring_cap (u_ring s) = ring_cap (x_ring s)"

definition wf_rx :: "socket \<Rightarrow> bool" where
  "wf_rx s \<longleftrightarrow> rings_rx s \<and> unat (available s) \<le> received s \<and> received s \<le> ring_cap (x_ring s)"

lemma rings_rxD:
  assumes "rings_rx s"
  shows "ring_ok (x_ring s)" "ring_ok (u_ring s)" "ring_cap (u_ring s) = ring_cap (x_ring s)"
    "mod_mask (u_ring s) = mod_mask (x_ring s)"
  using assms by (simp_all add: rings_rx_def ring_okD(4))

section \<open>Returning frames\<close>

text \<open>The Fill ring \<open>u\<close> after \<open>k\<close> addresses from slot \<open>c\<close> of the RX ring on are written from \<open>p\<close> on.\<close>

fun copy_slots :: "nat \<Rightarrow> xdp_desc ring \<Rightarrow> u32 \<Rightarrow> u64 ring \<Rightarrow> u32 \<Rightarrow> u64 ring" where
  "copy_slots 0 x c u p = u"
| "copy_slots (Suc k) x c u p = copy_slots k x (c + 1) (slot_wr u p (d_addr (slot_rd x c))) (p + 1)"

lemma copy_slots_same [simp]:
  "ring_cap (copy_slots k x c u p) = ring_cap u" "prod_ix (copy_slots k x c u p) = prod_ix u"
  "cons_ix (copy_slots k x c u p) = cons_ix u"
  by (induction k x c u p rule: copy_slots.induct) simp_all

lemma ring_ok_copy_slots [simp]: "ring_ok u \<Longrightarrow> ring_ok (copy_slots k x c u p)"
  by (induction k x c u p rule: copy_slots.induct) simp_all

text \<open>The copied addresses extend a window that ends at \<open>p\<close>.\<close>

lemma window_copy_slots:
  assumes "ring_ok u" "m + k \<le> ring_cap u"
  shows "window (slot_rd (copy_slots k x c u (q + of_nat m))) q (m + k) =
    window (slot_rd u) q m @ map d_addr (window (slot_rd x) c k)"
  using assms
proof (induction k arbitrary: m c u)
  case 0
  then show ?case by simp
next
  case (Suc k)
  let ?v = "d_addr (slot_rd x c)" and ?p = "q + of_nat m"
  have p1: "q + of_nat (Suc m) = ?p + 1" by simp
  have "window (slot_rd (copy_slots (Suc k) x c u ?p)) q (m + Suc k) =
      window (slot_rd (copy_slots k x (c + 1) (slot_wr u ?p ?v) (q + of_nat (Suc m)))) q (Suc m + k)"
    by (simp only: copy_slots.simps p1 add_Suc add_Suc_right)
  also have "\<dots> = window (slot_rd (slot_wr u ?p ?v)) q (Suc m) @ map d_addr (window (slot_rd x) (c + 1) k)"
    using Suc.prems by (intro Suc.IH) simp_all
  also have "window (slot_rd (slot_wr u ?p ?v)) q (Suc m) = window (slot_rd u) q m @ [?v]"
    using Suc.prems by (intro rings.window_wr_snoc) simp_all
  finally show ?case by (simp add: window_Cons)
qed

lemma commit_rx_loop_ok:
  "rings_rx s \<Longrightarrow> commit_rx_loop b k s =
    (s\<lparr>u_ring := copy_slots k (x_ring s) (consumer s) (u_ring s) (producer s),
       consumer := consumer s + of_nat k, producer := producer s + of_nat k\<rparr>, Ok ())"
proof (induction k arbitrary: s)
  case 0
  then show ?case by simp
next
  case (Suc k)
  let ?s = "s\<lparr>u_ring := slot_wr (u_ring s) (producer s) (d_addr (slot_rd (x_ring s) (consumer s))),
    consumer := consumer s + 1, producer := producer s + 1\<rparr>"
  have mask: "mod_mask (x_ring s) = mod_mask (u_ring s)"
    using rings_rxD(4) [OF Suc.prems] by simp
  have "mut_desc_at b (u_ring s) (producer s AND mod_mask (x_ring s))
      (\<lambda>_. d_addr (slot_rd (x_ring s) (consumer s))) = (Ok (u_ring ?s) :: (ring_error, u64 ring) res)"
    by (simp add: mask mut_desc_at_ok rings_rxD(2) [OF Suc.prems])
  then have "commit_rx_loop b (Suc k) s = commit_rx_loop b k ?s"
    by (simp add: desc_at_ok rings_rxD [OF Suc.prems])
  moreover have "rings_rx ?s" using Suc.prems by (simp add: rings_rx_def)
  ultimately show ?case by (simp add: Suc.IH algebra_simps)
qed

text \<open>The socket after \<open>m\<close> frames were returned.\<close>

definition released :: "u32 \<Rightarrow> socket \<Rightarrow> socket" where
  "released m s = s\<lparr>
     x_ring := set_cons (x_ring s) (consumer s + m),
     u_ring := set_prod (copy_slots (unat m) (x_ring s) (consumer s) (u_ring s) (producer s))
       (producer s + m),
     available := available s - m,
     producer := producer s + m,
     consumer := consumer s + m\<rparr>"

lemma commit_rx_ok:
  assumes "rings_rx s" "ucast n \<le> available s"
  shows "commit_rx b s n = (released (ucast n) s, Ok ())"
  using assms by (simp add: commit_rx_def commit_rx_loop_ok accessors_ok rings_rxD not_less
      Let_def released_def)

lemma received_released:
  assumes "unat m \<le> received s"
  shows "received (released m s) = received s - unat m"
proof -
  have "m \<le> prod_ix (x_ring s) - consumer s"
    using assms by (simp add: received_def word_le_nat_alt)
  then have "unat (prod_ix (x_ring s) - consumer s - m) = received s - unat m"
    by (simp add: received_def unat_sub)
  then show ?thesis by (simp add: received_def released_def diff_diff_eq)
qed

lemma rings_rx_released [simp]: "rings_rx s \<Longrightarrow> rings_rx (released m s)"
  by (simp add: rings_rx_def released_def)

lemma wf_rx_released:
  assumes "wf_rx s" "m \<le> available s"
  shows "wf_rx (released m s)"
proof -
  have m: "unat m \<le> unat (available s)" "unat (available s - m) = unat (available s) - unat m"
    using assms(2) by (simp_all add: word_le_nat_alt unat_sub)
  then have "received (released m s) = received s - unat m"
    using assms(1) by (intro received_released) (simp add: wf_rx_def)
  moreover have "available (released m s) = available s - m"
    "ring_cap (x_ring (released m s)) = ring_cap (x_ring s)"
    by (simp_all add: released_def)
  ultimately show ?thesis
    using assms(1) m by (simp add: wf_rx_def) arith
qed

lemma seek_rx_empty:
  assumes "ring_ok (x_ring s)" "\<not> n \<le> ucast (available s)" "received s = 0"
  shows "seek_rx b s n = (s, Err RingEmpty)"
  using assms by (simp add: seek_rx_def accessors_ok received_def unat_eq_0)

lemma seek_rx_finds:
  assumes "ring_ok (x_ring s)" "\<not> n \<le> ucast (available s)" "0 < received s"
  shows "seek_rx b s n =
    (s\<lparr>available := of_nat (received s)\<rparr>, Ok (ucast (min (of_nat (received s) :: u32) (ucast n))))"
proof -
  have "prod_ix (x_ring s) \<noteq> consumer s" using assms(3) by (auto simp: received_def)
  then show ?thesis using assms by (simp add: seek_rx_def accessors_ok received_def Let_def)
qed

interpretation rx: socket_dir wf_rx seek_rx commit_rx
proof unfold_locales
  show "seek_rx b s n = (s, Ok n)" if "n \<le> ucast (available s)" for n s b
    using that by (simp add: seek_rx_def)
  show "commit_rx b s n = (s, Err NotAvailable)"
    if "safety_checks b" "available s < ucast n" for b s n
    using that by (simp add: commit_rx_def)
  show "\<exists>s'. commit_rx b s n = (s', Ok ()) \<and> wf_rx s' \<and> available s' = available s - ucast n"
    if "wf_rx s" "ucast n \<le> available s" for b s n
    using that commit_rx_ok [of s n b] wf_rx_released [of s "ucast n"]
    by (simp add: wf_rx_def) (simp add: released_def)
  show "(\<exists>e. seek_rx b s n = (s, Err e)) \<or>
      (\<exists>s' k. seek_rx b s n = (s', Ok k) \<and> wf_rx s' \<and> 1 \<le> available s')"
    if s: "wf_rx s" and n: "\<not> n \<le> ucast (available s)" for b s n
  proof (cases "received s = 0")
    case True
    then show ?thesis using s n by (simp add: seek_rx_empty wf_rx_def rings_rx_def)
  next
    case False
    let ?s = "s\<lparr>available := of_nat (received s)\<rparr>"
    have av: "unat (available ?s) = received s" by (simp add: received_def)
    have "received ?s = received s" "rings_rx ?s \<longleftrightarrow> rings_rx s"
      by (simp_all add: received_def rings_rx_def)
    then have "wf_rx ?s" "1 \<le> available ?s"
      using s False av by (simp_all add: wf_rx_def word_le_nat_alt)
    then show ?thesis
      using seek_rx_finds [of s n b] s n False by (simp add: wf_rx_def rings_rx_def)
  qed
qed

section \<open>Frames\<close>

text \<open>
  The addresses in the RX ring that wait for the application, and those in the Fill ring that the
  kernel can take, as it sees them.
\<close>

definition received_frames :: "socket \<Rightarrow> u64 list" where
  "received_frames s = map d_addr (window (slot_rd (x_ring s)) (consumer s) (received s))"

definition received_descs :: "socket \<Rightarrow> xdp_desc list" where
  "received_descs s = window (slot_rd (x_ring s)) (consumer s) (received s)"

lemma length_received_descs [simp]: "length (received_descs s) = received s"
  by (simp add: received_descs_def)

lemma received_frames_descs: "received_frames s = map d_addr (received_descs s)"
  by (simp add: received_frames_def received_descs_def)

lemma received_descs_released:
  assumes "unat m \<le> received s"
  shows "received_descs (released m s) = drop (unat m) (received_descs s)"
  using assms
  by (simp add: received_descs_def received_released drop_window) (simp add: released_def)

definition free_count :: "socket \<Rightarrow> nat" where
  "free_count s = unat (prod_ix (u_ring s) - cons_ix (u_ring s))"

definition free_frames :: "socket \<Rightarrow> u64 list" where
  "free_frames s = window (slot_rd (u_ring s)) (cons_ix (u_ring s)) (free_count s)"

lemma commit_rx_moves_frames:
  assumes wf: "wf_rx s" and sync: "prod_ix (u_ring s) = producer s"
    and n: "ucast n \<le> available s" and m: "m = unat (ucast n :: u32)"
    and room: "free_count s + m \<le> ring_cap (u_ring s)"
  shows "\<exists>s'. commit_rx b s n = (s', Ok ()) \<and>
    received_frames s' = drop m (received_frames s) \<and>
    free_frames s' = free_frames s @ take m (received_frames s) \<and>
    prod_ix (u_ring s') = producer s'"
proof -
  let ?s = "released (ucast n) s" and ?f = "free_count s" and ?q = "cons_ix (u_ring s)"
  have rings: "ring_ok (x_ring s)" "ring_ok (u_ring s)"
    using wf by (simp_all add: wf_rx_def rings_rx_def)
  have le: "m \<le> received s" using wf n by (simp add: wf_rx_def word_le_nat_alt m)
  have um: "(of_nat m :: u32) = ucast n" by (simp add: m)
  have p: "producer s = ?q + of_nat ?f" by (simp add: free_count_def sync)
  have "?f + m < 2 ^ 32" using room ring_size_lt [OF ring_okD(3) [OF rings(2)]] by simp
  then have "unat (of_nat (?f + m) :: u32) = ?f + m" by (rule unat_of_nat_u32)
  moreover have "producer s + ucast n - ?q = of_nat (?f + m)"
    by (simp only: p um [symmetric] of_nat_add add.assoc add_diff_cancel_left')
  moreover have "prod_ix (u_ring ?s) = producer s + ucast n" "cons_ix (u_ring ?s) = ?q"
    by (simp_all add: released_def)
  ultimately have f': "free_count ?s = ?f + m"
    by (simp only: free_count_def)
  have "free_frames ?s = window (slot_rd (copy_slots m (x_ring s) (consumer s) (u_ring s) (?q + of_nat ?f))) ?q (?f + m)"
    by (simp only: free_frames_def f') (simp add: released_def m p)
  also have "\<dots> = window (slot_rd (u_ring s)) ?q ?f @ map d_addr (window (slot_rd (x_ring s)) (consumer s) m)"
    by (rule window_copy_slots) (use rings room in auto)
  also have "\<dots> = free_frames s @ take m (received_frames s)"
    using le by (simp add: free_frames_def received_frames_def take_map take_window)
  finally have free: "free_frames ?s = free_frames s @ take m (received_frames s)" .
  have "received_frames ?s = drop m (received_frames s)"
    using le received_descs_released [of "ucast n" s] by (simp add: received_frames_descs drop_map m)
  then show ?thesis
    using free rings_rxD wf n
    by (intro exI [of _ ?s]) (simp add: commit_rx_ok wf_rx_def, simp add: released_def)
qed

end
