(* ===== verification/Create.thy ===== *)
theory Create
  imports Mmap Tx_Protocol Rx
begin

unbundle bit_operations_syntax

text \<open>
  Making sockets: \<^verbatim>\<open>xdp-socket/src/create.rs\<close> and the ring kinds and mappings of \<^verbatim>\<open>ring.rs\<close>.

  Rust drops the live values of a scope when it is left early. \<open>scoped os ds\<close> is the \<^verbatim>\<open>?\<close> operator in a
  scope whose live values are \<open>ds\<close>, in the order in which they are dropped.
\<close>

definition scoped ::
  "os \<Rightarrow> os_value list \<Rightarrow> os_run \<times> ('e, 'a) res \<Rightarrow> ('a \<Rightarrow> os_run \<Rightarrow> os_run \<times> ('e, 'b) res) \<Rightarrow>
    os_run \<times> ('e, 'b) res"
where
  "scoped os ds p k =
     (case p of
        (tr, Ok a) \<Rightarrow> k a tr
      | (tr, Err e) \<Rightarrow> (drop_all (os_drop os) ds tr, Err e)
      | (tr, Panic) \<Rightarrow> (drop_all (os_drop os) ds tr, Panic)
      | (tr, Undef) \<Rightarrow> (tr, Undef))"

section \<open>Ring kinds\<close>

datatype ring_type = TxRing | RxRing | FillRing | CompletionRing

fun as_index :: "ring_type \<Rightarrow> ring_opt" where
  "as_index TxRing = XDP_TX_RING"
| "as_index RxRing = XDP_RX_RING"
| "as_index FillRing = XDP_UMEM_FILL_RING"
| "as_index CompletionRing = XDP_UMEM_COMPLETION_RING"

fun as_offset :: "ring_type \<Rightarrow> ring_pgoff" where
  "as_offset TxRing = XDP_PGOFF_TX_RING"
| "as_offset RxRing = XDP_PGOFF_RX_RING"
| "as_offset FillRing = XDP_UMEM_PGOFF_FILL_RING"
| "as_offset CompletionRing = XDP_UMEM_PGOFF_COMPLETION_RING"

text \<open>The option value is a pointer to a 64-bit size of which the call reads four bytes.\<close>

definition set_size :: "os \<Rightarrow> os_run \<Rightarrow> ring_type \<Rightarrow> int \<Rightarrow> usize \<Rightarrow> os_run \<times> (io_error, unit) res" where
  "set_size os tr t fd n =
     (let n = (if n = 0 \<and> (t = FillRing \<or> t = CompletionRing) then 1 else n);
          (tr', a) = os_call os tr (SysSetRing fd (as_index t) (ucast n))
      in if a_ret a < 0 then (tr', Err (OsError (a_errno a))) else (tr', Ok ()))"

section \<open>Mapping a ring\<close>

definition saturating_add :: "usize \<Rightarrow> usize \<Rightarrow> usize" where
  "saturating_add x y = (if 2 ^ 64 \<le> unat x + unat y then - 1 else x + y)"

definition is_power_of_two :: "usize \<Rightarrow> bool" where
  "is_power_of_two n \<longleftrightarrow> n \<noteq> 0 \<and> n AND (n - 1) = 0"

text \<open>
  \<^verbatim>\<open>mmap_ring\<close>: \<open>contents\<close> is what the operating system shows in the descriptor array; the array has
  the \<open>n\<close> entries that the requested size covers.
\<close>

definition mmap_ring ::
  "os \<Rightarrow> os_run \<Rightarrow> (os \<Rightarrow> ring_pgoff \<Rightarrow> nat \<Rightarrow> 'a) \<Rightarrow> int \<Rightarrow> usize \<Rightarrow> usize \<Rightarrow> xdp_ring_offset \<Rightarrow> ring_pgoff \<Rightarrow>
    os_run \<times> (io_error, 'a ring_mmap) res"
where
  "mmap_ring os tr contents fd len elem_size offsets off =
     (let map_size = saturating_add (off_desc offsets) (len * elem_size);
          (tr', a) = os_call os tr (SysMmapRing fd map_size off)
      in if a_addr a = os_map_failed os then (tr', Err (OsError (a_errno a)))
         else case os_indices os off of (p, c, f) \<Rightarrow>
           (tr', Ok \<lparr>mmap_of = owned_mmap_new (a_addr a) map_size,
              cells = Some \<lparr>producer_ix = p, consumer_ix = c,
                desc_ix = map (contents os off) [0..<unat len], flags_ix = f\<rparr>\<rparr>))"

text \<open>\<^verbatim>\<open>Ring::mmap\<close>, with \<^verbatim>\<open>size_of::<T>()\<close> as an argument. A panic after the mapping drops it.\<close>

definition ring_map ::
  "os \<Rightarrow> build \<Rightarrow> os_run \<Rightarrow> (os \<Rightarrow> ring_pgoff \<Rightarrow> nat \<Rightarrow> 'a) \<Rightarrow> int \<Rightarrow> usize \<Rightarrow> usize \<Rightarrow> ring_pgoff \<Rightarrow> xdp_ring_offset \<Rightarrow>
    os_run \<times> (io_error, 'a ring) res"
where
  "ring_map os b tr contents fd len elem_size off offsets =
     (if debug_assertions b \<and> \<not> is_power_of_two len then (tr, Panic)
      else if debug_assertions b \<and> 2 ^ 64 \<le> unat len * unat elem_size then (tr, Panic)
      else scoped os [] (mmap_ring os tr contents fd len elem_size offsets off) (\<lambda>m tr.
        scoped os [DropMmap (mmap_of m)] (tr, sub_chk b (ucast len) 1) (\<lambda>msk tr.
        (tr, Ok \<lparr>ring_mem = m, ring_len = len, mod_mask = msk\<rparr>))))"

text \<open>\<^verbatim>\<open>RingType::mmap\<close> for the two element types: addresses of 8 bytes, descriptors of 16.\<close>

definition ring_offs :: "ring_type \<Rightarrow> xdp_mmap_offsets \<Rightarrow> xdp_ring_offset" where
  "ring_offs t offsets =
     (case t of TxRing \<Rightarrow> off_tx offsets | RxRing \<Rightarrow> off_rx offsets | FillRing \<Rightarrow> off_fr offsets
      | CompletionRing \<Rightarrow> off_cr offsets)"

definition ring_type_mmap ::
  "os \<Rightarrow> build \<Rightarrow> os_run \<Rightarrow> (os \<Rightarrow> ring_pgoff \<Rightarrow> nat \<Rightarrow> 'a) \<Rightarrow> usize \<Rightarrow> ring_type \<Rightarrow> int \<Rightarrow> xdp_mmap_offsets \<Rightarrow> usize \<Rightarrow>
    os_run \<times> (io_error, 'a ring) res"
where
  "ring_type_mmap os b tr contents elem_size t fd offsets n =
     ring_map os b tr contents fd n elem_size (as_offset t) (ring_offs t offsets)"

definition ring_region :: "'a ring \<Rightarrow> owned_mmap" where
  "ring_region r = mmap_of (ring_mem r)"

section \<open>Configuration\<close>

datatype direction = DirTx | DirRx | DirBoth

record xdp_config =
  zero_copy :: "bool option"
  huge_page :: "bool option"
  need_wakeup :: "bool option"

definition ring_sizes :: "direction \<Rightarrow> usize \<times> usize" where
  "ring_sizes d =
     (case d of
        DirTx \<Rightarrow> (0, FRAME_COUNT)
      | DirRx \<Rightarrow> (FRAME_COUNT, 0)
      | DirBoth \<Rightarrow> (FRAME_COUNT div 2, FRAME_COUNT div 2))"

definition bind_flags :: "xdp_config option \<Rightarrow> bind_flag list" where
  "bind_flags config =
     (let zc = (case Option.bind config zero_copy of
                  Some True \<Rightarrow> [XDP_ZEROCOPY] | Some False \<Rightarrow> [XDP_COPY] | None \<Rightarrow> []);
          nw = (if (case Option.bind config need_wakeup of Some w \<Rightarrow> w | None \<Rightarrow> True)
                then [XDP_USE_NEED_WAKEUP] else [])
      in nw @ zc)"

section \<open>Steps of create\_socket\<close>

definition ring_offsets :: "os \<Rightarrow> os_run \<Rightarrow> int \<Rightarrow> os_run \<times> (io_error, xdp_mmap_offsets) res" where
  "ring_offsets os tr fd =
     (let (tr', a) = os_call os tr (SysGetOffsets fd)
      in if a_ret a < 0 then (tr', Err (OsError (a_errno a))) else (tr', Ok (a_offsets a)))"

definition setup_umem ::
  "os \<Rightarrow> build \<Rightarrow> os_run \<Rightarrow> int \<Rightarrow> xdp_config option \<Rightarrow> os_run \<times> (io_error, owned_mmap) res" where
  "setup_umem os b tr fd config =
     (case owned_mmap_mmap os b tr (FRAME_COUNT * FRAME_SIZE) (Option.bind config huge_page) of
        (tr1, r) \<Rightarrow>
      scoped os [] (tr1, map_err (\<lambda>e. OtherError (''Failed to allocate UMEM: '' @ os_show os e)) r)
        (\<lambda>m tr1.
         let (tr2, a) = os_call os tr1 (SysUmemReg fd (mm_ptr m) (owned_mmap_len m) (ucast FRAME_SIZE))
         in if a_ret a < 0
            then (mmap_drop os m tr2,
              Err (OtherError (''Failed to register UMEM: '' @ os_show os (OsError (a_errno a)))))
            else (tr2, Ok m)))"

definition map_tx_rings ::
  "os \<Rightarrow> build \<Rightarrow> os_run \<Rightarrow> int \<Rightarrow> xdp_mmap_offsets \<Rightarrow> direction \<Rightarrow> usize \<Rightarrow>
    os_run \<times> (io_error, u64 ring \<times> xdp_desc ring) res"
where
  "map_tx_rings os b tr fd offsets d n =
     (if d = DirRx then (tr, Ok (ring_default, ring_default))
      else
        scoped os [] (ring_type_mmap os b tr os_u64 8 CompletionRing fd offsets n) (\<lambda>c_ring tr.
        scoped os [DropMmap (ring_region c_ring)]
          (ring_type_mmap os b tr os_desc 16 TxRing fd offsets n) (\<lambda>tx_ring tr.
        scoped os [DropMmap (ring_region tx_ring), DropMmap (ring_region c_ring)]
          (tr, fill_desc b tx_ring 0) (\<lambda>tx_ring tr.
        (tr, Ok (c_ring, tx_ring))))))"

definition map_rx_rings ::
  "os \<Rightarrow> build \<Rightarrow> os_run \<Rightarrow> int \<Rightarrow> xdp_mmap_offsets \<Rightarrow> direction \<Rightarrow> usize \<Rightarrow> usize \<Rightarrow>
    os_run \<times> (io_error, xdp_desc ring \<times> u64 ring) res"
where
  "map_rx_rings os b tr fd offsets d n tx_ring_size =
     (if d = DirTx then (tr, Ok (ring_default, ring_default))
      else
        scoped os [] (ring_type_mmap os b tr os_desc 16 RxRing fd offsets n) (\<lambda>rx_ring tr.
        scoped os [DropMmap (ring_region rx_ring)]
          (ring_type_mmap os b tr os_u64 8 FillRing fd offsets n) (\<lambda>f_ring tr.
        scoped os [DropMmap (ring_region f_ring), DropMmap (ring_region rx_ring)]
          (tr, res_then (fill_u64 b f_ring (ucast tx_ring_size)) (\<lambda>f.
                 update_producer f (ucast (ring_len f)))) (\<lambda>f_ring tr.
        (tr, Ok (rx_ring, f_ring))))))"

section \<open>create\_socket\<close>

definition create_socket ::
  "os \<Rightarrow> build \<Rightarrow> u32 \<Rightarrow> u32 \<Rightarrow> direction \<Rightarrow> xdp_config option \<Rightarrow>
    os_run \<times> (io_error, socket option \<times> socket option) res"
where
  "create_socket os b if_index if_queue d config =
     (let (rx_ring_size, tx_ring_size) = ring_sizes d;
          (tr, a) = os_call os [] SysSocketXdp;
          fd = a_ret a
      in if fd < 0 then (tr, Err (OsError (a_errno a)))
         else
        scoped os [DropFd fd] (setup_umem os b tr fd config) (\<lambda>m tr.
        let ds = [DropMmap m, DropFd fd] in
        scoped os ds (set_size os tr FillRing fd tx_ring_size) (\<lambda>_ tr.
        scoped os ds (set_size os tr CompletionRing fd tx_ring_size) (\<lambda>_ tr.
        scoped os ds (if 0 < tx_ring_size then set_size os tr TxRing fd tx_ring_size else (tr, Ok ())) (\<lambda>_ tr.
        scoped os ds (if 0 < rx_ring_size then set_size os tr RxRing fd rx_ring_size else (tr, Ok ())) (\<lambda>_ tr.
        scoped os ds (ring_offsets os tr fd) (\<lambda>offsets tr.
        scoped os ds (map_tx_rings os b tr fd offsets d tx_ring_size) (\<lambda>(c_ring, tx_ring) tr.
        let ds = [DropMmap (ring_region tx_ring), DropMmap (ring_region c_ring)] @ ds in
        scoped os ds (map_rx_rings os b tr fd offsets d rx_ring_size tx_ring_size) (\<lambda>(rx_ring, f_ring) tr.
        let ds = [DropMmap (ring_region f_ring), DropMmap (ring_region rx_ring)] @ ds;
            (tr, a) = os_call os tr (SysBind fd (bind_flags config) if_index if_queue)
        in if a_ret a < 0
           then (drop_all (os_drop os) ds tr,
             Err (OtherError (''Failed to bind: '' @ os_show os (OsError (a_errno a)))))
           else
             let io = \<lparr>umem = m, inner_fd = fd\<rparr>
             in (tr, Ok (if d \<noteq> DirRx then Some (socket_new (Some io) tx_ring c_ring) else None,
                         if d \<noteq> DirTx then Some (socket_new (Some io) rx_ring f_ring) else None)))))))))))"

definition ok_or_else :: "'a option \<Rightarrow> string \<Rightarrow> (io_error, 'a) res" where
  "ok_or_else x msg = (case x of Some v \<Rightarrow> Ok v | None \<Rightarrow> Err (OtherError msg))"

definition create_tx_socket ::
  "os \<Rightarrow> build \<Rightarrow> u32 \<Rightarrow> u32 \<Rightarrow> xdp_config option \<Rightarrow> os_run \<times> (io_error, socket) res" where
  "create_tx_socket os b if_index if_queue config =
     and_then (create_socket os b if_index if_queue DirTx config) (\<lambda>(tx, _) tr.
       (tr, ok_or_else tx ''Failed to create Tx socket''))"

definition create_rx_socket ::
  "os \<Rightarrow> build \<Rightarrow> u32 \<Rightarrow> u32 \<Rightarrow> xdp_config option \<Rightarrow> os_run \<times> (io_error, socket) res" where
  "create_rx_socket os b if_index if_queue config =
     and_then (create_socket os b if_index if_queue DirRx config) (\<lambda>(_, rx) tr.
       (tr, ok_or_else rx ''Failed to create Rx socket''))"

definition create_bi_socket ::
  "os \<Rightarrow> build \<Rightarrow> u32 \<Rightarrow> u32 \<Rightarrow> xdp_config option \<Rightarrow> os_run \<times> (io_error, socket \<times> socket) res" where
  "create_bi_socket os b if_index if_queue config =
     and_then (create_socket os b if_index if_queue DirBoth config) (\<lambda>(tx, rx) tr.
       (tr, res_then (ok_or_else tx ''Failed to create Tx socket'') (\<lambda>t.
            res_then (ok_or_else rx ''Failed to create Rx socket'') (\<lambda>r. Ok (t, r)))))"

end
