(* ===== verification/Create_Facts.thy ===== *)
theory Create_Facts
  imports Create
begin

unbundle bit_operations_syntax

text \<open>
  What \<^verbatim>\<open>create_socket\<close> gives: every failure releases what was taken, the rings of a made socket are
  well-formed, and the frames are divided between the two directions.
\<close>

section \<open>Scopes\<close>

text \<open>
  \<open>settled live own p\<close>: the step \<open>p\<close> ended without undefined behaviour; if it failed, what is live is
  \<open>live\<close>, and if it returned a value, what that value owns is live in addition.
\<close>

definition os_holds :: "os \<Rightarrow> os_run \<Rightarrow> os_resource multiset \<Rightarrow> bool" where
  "os_holds os tr live \<longleftrightarrow> holds (os_acq (os_map_failed os)) os_rel tr live"

definition owned_all :: "os \<Rightarrow> os_value list \<Rightarrow> os_resource multiset" where
  "owned_all os ds = sum_list (map (os_owns os) ds)"

definition settled ::
  "os \<Rightarrow> os_resource multiset \<Rightarrow> ('a \<Rightarrow> os_value list) \<Rightarrow> os_run \<times> ('e, 'a) res \<Rightarrow> bool" where
  "settled os live own p \<longleftrightarrow>
     (case p of
        (tr, Ok a) \<Rightarrow> os_holds os tr (owned_all os (own a) + live)
      | (tr, Err _) \<Rightarrow> os_holds os tr live
      | (tr, Panic) \<Rightarrow> os_holds os tr live
      | (tr, Undef) \<Rightarrow> False)"

lemma owned_all_simps [simp]:
  "owned_all os [] = {#}" "owned_all os (d # ds) = os_owns os d + owned_all os ds"
  "owned_all os (ds @ es) = owned_all os ds + owned_all os es"
  by (simp_all add: owned_all_def)

lemma settled_simps [simp]:
  "settled os live own (tr, Ok a) = os_holds os tr (owned_all os (own a) + live)"
  "settled os live own (tr, Err e) = os_holds os tr live"
  "settled os live own (tr, Panic) = os_holds os tr live"
  "settled os live own (tr, Undef) = False"
  by (simp_all add: settled_def)

lemma drop_all_holds:
  "os_holds os tr (owned_all os ds + live) \<Longrightarrow> os_holds os (drop_all (os_drop os) ds tr) live"
  unfolding os_holds_def owned_all_def by (rule os_scope.drop_all_releases)

lemma scoped_Ok_iff:
  "scoped os ds p k = (tr, Ok b) \<longleftrightarrow> (\<exists>a tr'. p = (tr', Ok a) \<and> k a tr' = (tr, Ok b))"
  by (cases p; cases "snd p") (auto simp: scoped_def)

lemma scoped_simps [simp]:
  "scoped os ds (tr, Ok a) k = k a tr"
  by (simp add: scoped_def)

lemma settled_scoped:
  assumes "settled os (owned_all os ds + live) own p"
    and "\<And>a tr. p = (tr, Ok a) \<Longrightarrow> os_holds os tr (owned_all os (own a @ ds) + live) \<Longrightarrow>
      settled os live own' (k a tr)"
  shows "settled os live own' (scoped os ds p k)"
  using assms by (cases p; cases "snd p") (auto simp: scoped_def add.assoc intro: drop_all_holds)

lemma os_call_eq: "os_call os tr c = (tr @ [(c, os_fun os tr c)], os_fun os tr c)"
  by (simp add: os_call_def sys_call_def Let_def)

lemma os_holds_neutral:
  "os_acq (os_map_failed os) (c, a) = None \<Longrightarrow> os_rel c = None \<Longrightarrow>
    os_holds os (tr @ [(c, a)]) live = os_holds os tr live"
  unfolding os_holds_def by (rule holds_neutral)

text \<open>
  An operating system that never maps a region at address zero and whose file reads give lines or
  errors.
\<close>

definition nonzero_maps :: "os \<Rightarrow> bool" where
  "nonzero_maps os \<longleftrightarrow> (\<forall>tr c. a_addr (os_fun os tr c) \<noteq> 0)"

definition os_ok :: "os \<Rightarrow> bool" where
  "os_ok os \<longleftrightarrow> nonzero_maps os \<and> returns (os_meminfo os) \<and>
     (case os_meminfo os of Ok ls \<Rightarrow> list_all returns ls | _ \<Rightarrow> True)"

section \<open>Each step is settled\<close>

lemma set_size_settled: "os_holds os tr live \<Longrightarrow> settled os live (\<lambda>_. []) (set_size os tr t fd n)"
  by (simp add: set_size_def os_call_eq os_holds_neutral Let_def)

lemma ring_offsets_settled: "os_holds os tr live \<Longrightarrow> settled os live (\<lambda>_. []) (ring_offsets os tr fd)"
  by (simp add: ring_offsets_def os_call_eq os_holds_neutral Let_def)

lemma os_holds_map:
  assumes "nonzero_maps os" "os_holds os tr live" "a_addr (os_fun os tr c) \<noteq> os_map_failed os"
    "os_acq (os_map_failed os) (c, os_fun os tr c) = Some (RMap (a_addr (os_fun os tr c)) len)" "os_rel c = None"
  shows "os_holds os (tr @ [(c, os_fun os tr c)])
    (os_owns os (DropMmap (owned_mmap_new (a_addr (os_fun os tr c)) len)) + live)"
  using assms by (auto simp: os_holds_def nonzero_maps_def owned_mmap_new_def intro: holds_acquire)

lemma use_huge_no_undef:
  assumes "os_ok os"
  shows "use_huge os h \<noteq> Undef"
proof -
  have d: "parse_digits n s \<noteq> Undef" for n s
    by (induction n s rule: parse_digits.induct) (auto simp: Let_def split: option.split)
  have "parse_u64 s \<noteq> Undef" for s
    using d [of 0] by (cases s) (auto simp: res_then_Undef_iff simp del: parse_digits.simps)
  then have m: "meminfo_line i l \<noteq> Undef" for i l
    by (auto simp: meminfo_line_def parse_value_def Let_def res_then_Undef_iff)
  have "list_all returns ls \<Longrightarrow> meminfo_lines i ls \<noteq> Undef" for i ls
    by (induction ls arbitrary: i) (auto simp: res_then_Undef_iff m)
  then have "get_hugepage_info os \<noteq> Undef"
    using assms by (auto simp: os_ok_def get_hugepage_info_def res_then_Undef_iff)
  then show ?thesis
    by (auto simp: use_huge_def res_then_Undef_iff split: option.split)
qed

lemma align_up_no_undef: "align_up b len page \<noteq> Undef"
  by (auto simp: align_up_def add_chk_def sub_chk_def res_then_Undef_iff)

lemma try_in_settled:
  "r \<noteq> Undef \<Longrightarrow> os_holds os tr live \<Longrightarrow> (\<And>a. r = Ok a \<Longrightarrow> settled os live own (k a)) \<Longrightarrow>
    settled os live own (try_in tr r k)"
  by (cases r) simp_all

lemma owned_mmap_mmap_settled:
  assumes "os_ok os" "os_holds os tr live"
  shows "settled os live (\<lambda>m. [DropMmap m]) (owned_mmap_mmap os b tr len h)"
  unfolding owned_mmap_mmap_def
proof (intro try_in_settled use_huge_no_undef align_up_no_undef assms)
  fix huge len'
  let ?c = "SysMmapAnon len' huge"
  have "os_holds os (tr @ [(?c, os_fun os tr ?c)]) live" if "a_addr (os_fun os tr ?c) = os_map_failed os"
    using that assms(2) by (simp add: os_holds_neutral)
  moreover have "os_holds os (tr @ [(?c, os_fun os tr ?c)])
      (os_owns os (DropMmap (owned_mmap_new (a_addr (os_fun os tr ?c)) len')) + live)"
    if "a_addr (os_fun os tr ?c) \<noteq> os_map_failed os"
    using that assms by (intro os_holds_map) (simp_all add: os_ok_def)
  ultimately show "settled os live (\<lambda>m. [DropMmap m])
      (let (tr', a) = os_call os tr ?c
       in if a_addr a = os_map_failed os then (tr', Err (OsError (a_errno a)))
          else (tr', Ok (owned_mmap_new (a_addr a) len')))"
    by (simp add: os_call_eq Let_def)
qed

lemma mmap_drop_holds:
  "os_holds os tr (os_owns os (DropMmap m) + live) \<Longrightarrow> os_holds os (mmap_drop os m tr) live"
  using drop_all_holds [of os tr "[DropMmap m]" live] by (simp del: os_owns.simps)

lemma settled_map_err: "settled os live own (tr, map_err f r) = settled os live own (tr, r)"
  by (cases r) simp_all

lemma setup_umem_settled:
  assumes "os_ok os" "os_holds os tr live"
  shows "settled os live (\<lambda>m. [DropMmap m]) (setup_umem os b tr fd config)"
proof -
  obtain tr1 r where p: "owned_mmap_mmap os b tr (FRAME_COUNT * FRAME_SIZE) (Option.bind config huge_page) = (tr1, r)"
    by fastforce
  then have "settled os live (\<lambda>m. [DropMmap m]) (tr1, r)"
    using owned_mmap_mmap_settled [OF assms] by metis
  then show ?thesis
    unfolding setup_umem_def p prod.case
    by (intro settled_scoped)
      (simp_all add: settled_map_err os_call_eq Let_def os_holds_neutral mmap_drop_holds del: os_owns.simps)
qed

section \<open>Ring mappings\<close>

lemma ring_type_mmap_settled:
  assumes "os_ok os" "os_holds os tr live"
  shows "settled os live (\<lambda>r. [DropMmap (ring_region r)]) (ring_type_mmap os b tr contents sz t fd offsets n)"
proof -
  have m: "settled os live (\<lambda>m. [DropMmap (mmap_of m)]) (mmap_ring os tr contents fd n sz offs off)" for offs off
  proof -
    let ?len = "saturating_add (off_desc offs) (n * sz)"
    let ?c = "SysMmapRing fd ?len off"
    have "os_holds os (tr @ [(?c, os_fun os tr ?c)]) live" if "a_addr (os_fun os tr ?c) = os_map_failed os"
      using that assms(2) by (simp add: os_holds_neutral)
    moreover have "os_holds os (tr @ [(?c, os_fun os tr ?c)])
        (os_owns os (DropMmap (owned_mmap_new (a_addr (os_fun os tr ?c)) ?len)) + live)"
      if "a_addr (os_fun os tr ?c) \<noteq> os_map_failed os"
      using that assms by (intro os_holds_map) (simp_all add: os_ok_def)
    ultimately show ?thesis
      by (auto simp: mmap_ring_def os_call_eq Let_def split: prod.split simp del: os_owns.simps)
  qed
  show ?thesis
    unfolding ring_type_mmap_def ring_map_def
    using assms(2)
    by (auto intro!: settled_scoped m simp: sub_chk_def ring_region_def simp del: os_owns.simps)
qed

text \<open>A mapped ring of a power-of-two size is well-formed and shows what the system put in it.\<close>

definition as_mapped :: "os \<Rightarrow> (os \<Rightarrow> ring_pgoff \<Rightarrow> nat \<Rightarrow> 'a) \<Rightarrow> ring_pgoff \<Rightarrow> usize \<Rightarrow> 'a ring \<Rightarrow> bool" where
  "as_mapped os contents off n r \<longleftrightarrow> ring_ok r \<and> ring_len r = n \<and>
     (prod_ix r, cons_ix r) = (fst (os_indices os off), fst (snd (os_indices os off))) \<and>
     desc_ix (the_cells r) = map (contents os off) [0..<unat n]"

lemma ring_type_mmap_shape:
  assumes n: "ring_size (unat n)" and r: "ring_type_mmap os b tr contents sz t fd offsets n = (tr', Ok r)"
  shows "as_mapped os contents (as_offset t) n r \<and>
    (\<exists>a. tr' = tr @ [(SysMmapRing fd (saturating_add (off_desc (ring_offs t offsets)) (n * sz)) (as_offset t), a)])"
proof -
  have u: "unat (ucast n :: u32) = unat n"
    using ring_size_lt [OF n] by (simp add: unat_ucast_64_32)
  then have "1 \<le> (ucast n :: u32)" using ring_size_pos [OF n] by (simp add: word_le_nat_alt)
  then have msk: "sub_chk b (ucast n :: u32) 1 = (Ok (ucast n - 1) :: (io_error, u32) res)"
    and "unat ((ucast n :: u32) - 1) = unat n - 1"
    by (simp_all add: unat_sub u)
  moreover have "unat (of_nat (unat n - 1) :: u32) = unat n - 1"
    using ring_size_lt [OF n] by (intro unat_of_nat_u32) simp
  ultimately have "(ucast n :: u32) - 1 = of_nat (unat n - 1)"
    by (intro word_unat_eq_iff [THEN iffD2]) simp
  then show ?thesis
    using r n
    by (auto simp: ring_type_mmap_def ring_map_def scoped_Ok_iff msk mmap_ring_def os_call_eq Let_def
        as_mapped_def ring_ok_def prod_ix_def cons_ix_def the_cells_def split: if_splits prod.splits)
qed

section \<open>Ring pairs\<close>

lemma frame_count_sizes [simp]:
  "unat (FRAME_COUNT div 2) = 2048" "ring_size 4096" "ring_size 2048"
  using ring_size_pow2 [of 12] ring_size_pow2 [of 11] by (simp_all add: FRAME_COUNT_def)

lemma ring_region_set_cells [simp]: "ring_region (set_cells r c) = ring_region r"
  by (simp add: ring_region_def set_cells_def)

lemma ring_region_default [simp]: "owned_all os [DropMmap (ring_region ring_default)] = {#}"
  by (simp add: ring_region_def ring_default_def ring_mmap_default_def)

lemma fill_loop_region: "fill_loop b mk start n i r = Ok r' \<Longrightarrow> ring_region r' = ring_region r"
  by (induction n arbitrary: i r)
    (fastforce simp: res_then_Ok_iff mut_desc_at_def with_cells_def split: if_splits option.splits)+

lemma fill_region:
  "fill_desc b r start = Ok r' \<Longrightarrow> ring_region r' = ring_region r"
  "fill_u64 b f start = Ok f' \<Longrightarrow> ring_region f' = ring_region f"
  by (simp_all add: fill_desc_def fill_u64_def fill_loop_region)

lemma as_mappedD:
  "as_mapped os contents off n r \<Longrightarrow> ring_ok r \<and> ring_cap r = unat n"
  by (simp add: as_mapped_def ring_cap_def)

lemma map_tx_rings_settled:
  assumes os: "os_ok os" and live: "os_holds os tr live"
    and n: "d \<noteq> DirRx \<Longrightarrow> ring_size (unat n) \<and> unat n \<le> 4096"
  shows "settled os live (\<lambda>(c, t). [DropMmap (ring_region t), DropMmap (ring_region c)])
    (map_tx_rings os b tr fd offsets d n)"
proof (cases "d = DirRx")
  case True
  then show ?thesis using live by (simp add: map_tx_rings_def ring_region_def ring_default_def ring_mmap_default_def)
next
  case False
  note n = n [OF False]
  show ?thesis
    unfolding map_tx_rings_def if_not_P [OF False]
  proof (rule settled_scoped [where own = "\<lambda>r. [DropMmap (ring_region r)]"], goal_cases)
    case 1
    show ?case using ring_type_mmap_settled [OF os live] by simp
  next
    case (2 c tr1)
    then have h: "os_holds os tr1 (owned_all os [DropMmap (ring_region c)] + live)" by simp
    show ?case
    proof (rule settled_scoped [where own = "\<lambda>r. [DropMmap (ring_region r)]"], rule ring_type_mmap_settled [OF os h])
      fix t tr2
      assume p: "ring_type_mmap os b tr1 os_desc 16 TxRing fd offsets n = (tr2, Ok t)"
        and h2: "os_holds os tr2 (owned_all os ([DropMmap (ring_region t)] @ [DropMmap (ring_region c)]) + live)"
      have "ring_ok t" "ring_cap t = unat n"
        using ring_type_mmap_shape [OF _ p] as_mappedD n by blast+
      then obtain t' where "fill_desc b t 0 = (Ok t' :: (io_error, xdp_desc ring) res)" "ring_region t' = ring_region t"
        using fill_desc_filled [of t 0 b] fill_region(1) n by fastforce
      then show "settled os live (\<lambda>(c, t). [DropMmap (ring_region t), DropMmap (ring_region c)])
          (scoped os [DropMmap (ring_region t), DropMmap (ring_region c)] (tr2, fill_desc b t 0 :: (io_error, xdp_desc ring) res) (\<lambda>t tr. (tr, Ok (c, t))))"
        using h2 by simp
    qed
  qed
qed

lemma map_rx_rings_settled:
  assumes os: "os_ok os" and live: "os_holds os tr live"
    and n: "d \<noteq> DirTx \<Longrightarrow> ring_size (unat n) \<and> unat n \<le> 4096" and tx: "unat m \<le> 4096"
  shows "settled os live (\<lambda>(x, f). [DropMmap (ring_region f), DropMmap (ring_region x)])
    (map_rx_rings os b tr fd offsets d n m)"
proof (cases "d = DirTx")
  case True
  then show ?thesis using live by (simp add: map_rx_rings_def ring_region_def ring_default_def ring_mmap_default_def)
next
  case False
  note n = n [OF False]
  show ?thesis
    unfolding map_rx_rings_def if_not_P [OF False]
  proof (rule settled_scoped [where own = "\<lambda>r. [DropMmap (ring_region r)]"], goal_cases)
    case 1
    show ?case using ring_type_mmap_settled [OF os live] by simp
  next
    case (2 x tr1)
    then have h: "os_holds os tr1 (owned_all os [DropMmap (ring_region x)] + live)" by simp
    show ?case
    proof (rule settled_scoped [where own = "\<lambda>r. [DropMmap (ring_region r)]"], rule ring_type_mmap_settled [OF os h])
      fix f tr2
      assume p: "ring_type_mmap os b tr1 os_u64 8 FillRing fd offsets n = (tr2, Ok f)"
        and h2: "os_holds os tr2 (owned_all os ([DropMmap (ring_region f)] @ [DropMmap (ring_region x)]) + live)"
      have "unat (ucast m :: u32) \<le> 4096" using tx by (simp add: unat_ucast_64_32)
      moreover have "ring_ok f" "ring_cap f = unat n"
        using ring_type_mmap_shape [OF _ p] as_mappedD n by blast+
      ultimately obtain f' where "fill_u64 b f (ucast m) = (Ok f' :: (io_error, u64 ring) res)"
          "ring_region f' = ring_region f" "ring_ok f'"
        using fill_u64_filled [of f "ucast m" b] fill_region(2) n by (fastforce simp: filled_with_def)
      then show "settled os live (\<lambda>(x, f). [DropMmap (ring_region f), DropMmap (ring_region x)])
          (scoped os [DropMmap (ring_region f), DropMmap (ring_region x)]
            (tr2, res_then (fill_u64 b f (ucast m)) (\<lambda>f. update_producer f (ucast (ring_len f))) :: (io_error, u64 ring) res) (\<lambda>f tr. (tr, Ok (x, f))))"
        using h2 by (simp add: accessors_ok set_prod_def)
    qed
  qed
qed

section \<open>create\_socket\<close>

text \<open>
  What the made sockets own: the rings of each, and once the UMEM and the descriptor that both share.
\<close>

definition ring_values :: "socket option \<Rightarrow> os_value list" where
  "ring_values s =
     (case s of None \<Rightarrow> [] | Some s \<Rightarrow> [DropMmap (ring_region (x_ring s)), DropMmap (ring_region (u_ring s))])"

definition inner_values :: "socket option \<Rightarrow> os_value list" where
  "inner_values s =
     (case Option.bind s s_inner of None \<Rightarrow> [] | Some i \<Rightarrow> [DropMmap (umem i), DropFd (inner_fd i)])"

definition pair_values :: "socket option \<times> socket option \<Rightarrow> os_value list" where
  "pair_values p = ring_values (snd p) @ ring_values (fst p) @
     inner_values (if fst p = None then snd p else fst p)"

lemma socket_new_simps [simp]:
  "x_ring (socket_new (Some io) x u) = x" "u_ring (socket_new (Some io) x u) = u"
  "s_inner (socket_new (Some io) x u) = Some io" "available (socket_new (Some io) x u) = ucast (ring_len x)"
  "producer (socket_new (Some io) x u) = 0" "consumer (socket_new (Some io) x u) = 0"
  "frames (socket_new (Some io) x u) = umem_frames (umem io)" "raw_fd (socket_new (Some io) x u) = inner_fd io"
  by (simp_all add: socket_new_def)

lemma ring_sizes_ok:
  assumes "ring_sizes d = (rx, tx)"
  shows "d \<noteq> DirRx \<Longrightarrow> ring_size (unat tx) \<and> unat tx \<le> 4096"
    "d \<noteq> DirTx \<Longrightarrow> ring_size (unat rx) \<and> unat rx \<le> 4096" "unat tx \<le> 4096"
  using assms by (cases d; auto simp: ring_sizes_def)+

lemma map_rings_default:
  "map_tx_rings os b tr fd offsets DirRx n = (tr', Ok (c, t)) \<Longrightarrow> c = ring_default \<and> t = ring_default"
  "map_rx_rings os b tr fd offsets DirTx n m = (tr', Ok (x, f)) \<Longrightarrow> x = ring_default \<and> f = ring_default"
  by (simp_all add: map_tx_rings_def map_rx_rings_def)

lemma region_default: "owned_all os (DropMmap (ring_region ring_default) # ds) = owned_all os ds"
  by (simp add: ring_region_def ring_default_def ring_mmap_default_def)

lemma settled_scoped_unit:
  assumes "settled os (owned_all os ds + live) (\<lambda>_. []) p"
    and "\<And>a tr. p = (tr, Ok a) \<Longrightarrow> os_holds os tr (owned_all os ds + live) \<Longrightarrow> settled os live own' (k a tr)"
  shows "settled os live own' (scoped os ds p k)"
  by (rule settled_scoped [OF assms(1)]) (use assms(2) in simp)

lemma settled_last_call:
  assumes "os_holds os tr (owned_all os ds)" "owned_all os (own v) = owned_all os ds"
    "os_acq (os_map_failed os) (c, a) = None" "os_rel c = None"
  shows "settled os {#} own
    (if a_ret a < 0 then (drop_all (os_drop os) ds (tr @ [(c, a)]), Err e) else (tr @ [(c, a)], Ok v))"
  using assms drop_all_holds [of os "tr @ [(c, a)]" ds "{#}"] by (simp add: os_holds_neutral)

lemma pair_values_made:
  assumes "d = DirRx \<Longrightarrow> c = ring_default \<and> t = ring_default" "d = DirTx \<Longrightarrow> x = ring_default \<and> f = ring_default"
  shows "owned_all os (pair_values
      (if d \<noteq> DirRx then Some (socket_new (Some io) t c) else None,
       if d \<noteq> DirTx then Some (socket_new (Some io) x f) else None)) =
    owned_all os ([DropMmap (ring_region f), DropMmap (ring_region x)] @
      [DropMmap (ring_region t), DropMmap (ring_region c)] @ [DropMmap (umem io), DropFd (inner_fd io)])"
  using assms
  by (cases d; simp add: pair_values_def ring_values_def inner_values_def owned_all_def ring_region_def
      ring_default_def ring_mmap_default_def ac_simps)

lemma create_socket_settled:
  assumes os: "os_ok os"
  shows "settled os {#} pair_values (create_socket os b if_index if_queue d config)"
proof -
  obtain rx_n tx_n where n: "ring_sizes d = (rx_n, tx_n)" by fastforce
  note sz = ring_sizes_ok [OF n]
  let ?a = "os_fun os [] SysSocketXdp"
  let ?tr = "[(SysSocketXdp, ?a)]" and ?fd = "a_ret ?a"
  have size_step: "settled os live (\<lambda>_. []) (if 0 < k then set_size os tr t fd k else (tr, Ok ()))"
    if "os_holds os tr live" for live tr t fd k
    using set_size_settled [OF that] that by simp
  have start: "os_holds os ?tr (owned_all os [DropFd ?fd] + {#})" if "\<not> ?fd < 0"
    using holds_acquire [of "os_acq (os_map_failed os)" SysSocketXdp ?a "RFd ?fd" os_rel "[]" "{#}"] that
    by (simp add: os_holds_def)
  show ?thesis
  proof (cases "?fd < 0")
    case True
    then show ?thesis
      by (simp add: create_socket_def n os_call_eq Let_def)
        (use os_holds_neutral [of os SysSocketXdp ?a "[]" "{#}"] in \<open>simp add: os_holds_def\<close>)
  next
    case False
    show ?thesis
      unfolding create_socket_def n prod.case os_call_eq Let_def append_Nil if_not_P [OF False]
      apply (rule settled_scoped [OF setup_umem_settled [OF os start [OF False]]])
      apply (rule settled_scoped_unit, rule set_size_settled, simp)
      apply (rule settled_scoped_unit, erule set_size_settled)
      apply (rule settled_scoped_unit, erule size_step)
      apply (rule settled_scoped_unit, erule size_step)
      apply (rule settled_scoped_unit, erule ring_offsets_settled)
      apply (rule settled_scoped, erule map_tx_rings_settled [OF os], erule sz)
      apply (clarsimp simp only: prod.case split_paired_all)
      apply (rule settled_scoped, erule map_rx_rings_settled [OF os], erule sz, rule sz)
      apply (clarsimp simp only: prod.case split_paired_all)
      apply (rule settled_last_call)
         apply (simp del: os_owns.simps add: ac_simps)
        apply (subst pair_values_made)
          apply (blast dest: map_rings_default)
         apply (blast dest: map_rings_default)
        apply (simp del: os_owns.simps)
       apply simp
      apply simp
      done
  qed
qed

section \<open>What a made socket looks like\<close>

text \<open>
  Documented behaviour of the kernel: rings are created empty and start at index zero, and the page
  size is a power of two.
\<close>

definition zero_indices :: "os \<Rightarrow> bool" where
  "zero_indices os \<longleftrightarrow> (\<forall>off. fst (os_indices os off) = 0 \<and> fst (snd (os_indices os off)) = 0)"

definition page_ok :: "os \<Rightarrow> bool" where
  "page_ok os \<longleftrightarrow> (\<exists>k \<le> 30. unat (os_page_size os) = 2 ^ k)"

lemma map_tx_rings_Ok:
  assumes "d \<noteq> DirRx" "ring_size (unat n)" "unat n \<le> 4096"
    and "map_tx_rings os b tr fd offsets d n = (tr', Ok (c, t))"
  shows "\<exists>t0. as_mapped os os_u64 XDP_UMEM_PGOFF_COMPLETION_RING n c \<and>
    as_mapped os os_desc XDP_PGOFF_TX_RING n t0 \<and> filled_with frame_desc 0 t0 t"
proof -
  obtain t0 tr1 tr2 where c: "ring_type_mmap os b tr os_u64 8 CompletionRing fd offsets n = (tr1, Ok c)"
    and t0: "ring_type_mmap os b tr1 os_desc 16 TxRing fd offsets n = (tr2, Ok t0)"
    and t: "fill_desc b t0 0 = (Ok t :: (io_error, xdp_desc ring) res)"
    using assms(1,4) by (auto simp: map_tx_rings_def scoped_Ok_iff)
  have m: "as_mapped os os_u64 XDP_UMEM_PGOFF_COMPLETION_RING n c" "as_mapped os os_desc XDP_PGOFF_TX_RING n t0"
    using ring_type_mmap_shape [OF assms(2) c] ring_type_mmap_shape [OF assms(2) t0] by simp_all
  then have "filled_with frame_desc 0 t0 t"
    using as_mappedD [OF m(2)] assms(3) by (intro fill_desc_Ok [OF _ _ t]) simp_all
  then show ?thesis using m by blast
qed

lemma map_rx_rings_Ok:
  assumes "d \<noteq> DirTx" "ring_size (unat n)" "unat n \<le> 4096" "unat m \<le> 4096"
    and "map_rx_rings os b tr fd offsets d n m = (tr', Ok (x, f))"
  shows "\<exists>f0 f1. as_mapped os os_desc XDP_PGOFF_RX_RING n x \<and>
    as_mapped os os_u64 XDP_UMEM_PGOFF_FILL_RING n f0 \<and> filled_with (\<lambda>a. a) (ucast m) f0 f1 \<and>
    f = set_prod f1 (ucast n)"
proof -
  obtain f0 f1 tr1 tr2 where x: "ring_type_mmap os b tr os_desc 16 RxRing fd offsets n = (tr1, Ok x)"
    and f0: "ring_type_mmap os b tr1 os_u64 8 FillRing fd offsets n = (tr2, Ok f0)"
    and f1: "fill_u64 b f0 (ucast m) = (Ok f1 :: (io_error, u64 ring) res)"
    and f: "update_producer f1 (ucast (ring_len f1)) = (Ok f :: (io_error, u64 ring) res)"
    using assms(1,5) by (auto simp: map_rx_rings_def scoped_Ok_iff res_then_Ok_iff)
  have mp: "as_mapped os os_desc XDP_PGOFF_RX_RING n x" "as_mapped os os_u64 XDP_UMEM_PGOFF_FILL_RING n f0"
    using ring_type_mmap_shape [OF assms(2) x] ring_type_mmap_shape [OF assms(2) f0] by simp_all
  moreover have "unat (ucast m :: u32) \<le> 4096" using assms(4) by (simp add: unat_ucast_64_32)
  ultimately have fw: "filled_with (\<lambda>a. a) (ucast m) f0 f1"
    using as_mappedD [OF mp(2)] assms(3) by (intro fill_u64_Ok [OF _ _ f1]) simp_all
  then have "f = set_prod f1 (ucast n)"
    using f mp(2) by (simp add: filled_with_def accessors_ok same_indices_def as_mapped_def)
  then show ?thesis using mp fw by blast
qed

lemma mapped_umem:
  assumes "os_ok os" "page_ok os" "owned_mmap_mmap os b tr (FRAME_COUNT * FRAME_SIZE) h = (tr', Ok m)"
  shows "mm_ptr m \<noteq> 0 \<and> 8388608 \<le> unat (mm_size m)"
proof -
  obtain huge len where len: "align_up b (FRAME_COUNT * FRAME_SIZE) (page_size_of os huge) = Ok len"
    and m: "mm_size m = len" "mm_ptr m = a_addr (os_fun os tr (SysMmapAnon len huge))"
    using assms(3) by (auto simp: owned_mmap_mmap_def os_call_eq Let_def owned_mmap_new_def
        try_in_Ok_iff split: if_splits)
  obtain k where k: "k \<le> 30" "unat (page_size_of os huge) = 2 ^ k"
  proof (cases huge)
    case True
    then show ?thesis by (intro that [of 21]) (simp_all add: page_size_of_def)
  next
    case False
    then show ?thesis using assms(2) that by (auto simp: page_ok_def page_size_of_def)
  qed
  have c: "unat (FRAME_COUNT * FRAME_SIZE) = 8388608" by (simp add: FRAME_COUNT_def FRAME_SIZE_def)
  have "(2 :: nat) ^ k \<le> 2 ^ 30" using k(1) by (rule power_increasing) simp
  then obtain a where "align_up b (FRAME_COUNT * FRAME_SIZE) (page_size_of os huge) = (Ok a :: (io_error, usize) res)"
      "unat a = (8388608 + 2 ^ k - 1) div 2 ^ k * 2 ^ k"
    using align_up_ok [of k "page_size_of os huge" "FRAME_COUNT * FRAME_SIZE" b] k unfolding c by auto
  then have "unat len = (8388608 + 2 ^ k - 1) div 2 ^ k * 2 ^ k" using len by (simp only: res.inject)
  then have "8388608 \<le> unat len" using round_up_bounds [of "2 ^ k" 8388608] by simp
  then show ?thesis using m assms(1) by (simp add: os_ok_def nonzero_maps_def)
qed

lemma setup_umem_Ok:
  assumes "os_ok os" "page_ok os" "setup_umem os b tr fd config = (tr', Ok m)"
  shows "mm_ptr m \<noteq> 0 \<and> 8388608 \<le> unat (mm_size m)"
  using assms(3) mapped_umem [OF assms(1,2), of b tr "Option.bind config huge_page"]
  by (cases "owned_mmap_mmap os b tr (FRAME_COUNT * FRAME_SIZE) (Option.bind config huge_page)")
    (auto simp: setup_umem_def scoped_Ok_iff Let_def os_call_eq split: if_splits)

text \<open>The pair that \<^verbatim>\<open>create_socket\<close> returns, from the rings and the UMEM it mapped.\<close>

definition made_tx :: "os \<Rightarrow> usize \<Rightarrow> inner \<Rightarrow> socket \<Rightarrow> bool" where
  "made_tx os n io s \<longleftrightarrow> (\<exists>c t0 t. s = socket_new (Some io) t c \<and>
     as_mapped os os_u64 XDP_UMEM_PGOFF_COMPLETION_RING n c \<and> as_mapped os os_desc XDP_PGOFF_TX_RING n t0 \<and>
     filled_with frame_desc 0 t0 t)"

definition made_rx :: "os \<Rightarrow> usize \<Rightarrow> usize \<Rightarrow> inner \<Rightarrow> socket \<Rightarrow> bool" where
  "made_rx os n start io s \<longleftrightarrow> (\<exists>x f0 f1. s = socket_new (Some io) x (set_prod f1 (ucast n)) \<and>
     as_mapped os os_desc XDP_PGOFF_RX_RING n x \<and> as_mapped os os_u64 XDP_UMEM_PGOFF_FILL_RING n f0 \<and>
     filled_with (\<lambda>a. a) (ucast start) f0 f1)"

definition umem_covers :: "inner \<Rightarrow> bool" where
  "umem_covers io \<longleftrightarrow> mm_ptr (umem io) \<noteq> 0 \<and> 8388608 \<le> unat (mm_size (umem io))"

lemma failing_call_Ok_iff:
  "(if P then (tr, Err e) else (tr', Ok v)) = (tr'', Ok w) \<longleftrightarrow> \<not> P \<and> tr' = tr'' \<and> v = w"
  "(if P then (tr, Err e) else p) = (tr'', Ok w) \<longleftrightarrow> \<not> P \<and> p = (tr'', Ok w)"
  by auto

lemma create_socket_Ok:
  assumes os: "os_ok os" "page_ok os" and n: "ring_sizes d = (rx_n, tx_n)"
    and made: "create_socket os b if_index if_queue d config = (tr, Ok (txo, rxo))"
  shows "\<exists>io. umem_covers io \<and>
    (if d = DirRx then txo = None else \<exists>s. txo = Some s \<and> made_tx os tx_n io s) \<and>
    (if d = DirTx then rxo = None else \<exists>s. rxo = Some s \<and> made_rx os rx_n tx_n io s)"
proof -
  note sz = ring_sizes_ok [OF n]
  obtain m fd c t x f tr1 tr2 tr3 tr4 tr5 tr6 offsets where
      m: "setup_umem os b tr1 fd config = (tr2, Ok m)"
    and tx: "map_tx_rings os b tr3 fd offsets d tx_n = (tr4, Ok (c, t))"
    and rx: "map_rx_rings os b tr5 fd offsets d rx_n tx_n = (tr6, Ok (x, f))"
    and txo: "txo = (if d \<noteq> DirRx then Some (socket_new (Some \<lparr>umem = m, inner_fd = fd\<rparr>) t c) else None)"
    and rxo: "rxo = (if d \<noteq> DirTx then Some (socket_new (Some \<lparr>umem = m, inner_fd = fd\<rparr>) x f) else None)"
    using made
    by (simp only: create_socket_def n os_call_eq Let_def prod.case failing_call_Ok_iff scoped_Ok_iff
        split_paired_Ex res.inject prod.inject) blast
  have "umem_covers \<lparr>umem = m, inner_fd = fd\<rparr>"
    using setup_umem_Ok [OF os m] by (simp add: umem_covers_def)
  moreover have "made_tx os tx_n \<lparr>umem = m, inner_fd = fd\<rparr> (socket_new (Some \<lparr>umem = m, inner_fd = fd\<rparr>) t c)"
    if "d \<noteq> DirRx"
    using map_tx_rings_Ok [OF that _ _ tx] sz(1) [OF that] unfolding made_tx_def by blast
  moreover have "made_rx os rx_n tx_n \<lparr>umem = m, inner_fd = fd\<rparr> (socket_new (Some \<lparr>umem = m, inner_fd = fd\<rparr>) x f)"
    if "d \<noteq> DirTx"
    using map_rx_rings_Ok [OF that _ _ sz(3) rx] sz(2) [OF that] unfolding made_rx_def by blast
  ultimately show ?thesis
    by (intro exI [of _ "\<lparr>umem = m, inner_fd = fd\<rparr>"]) (simp add: txo rxo)
qed

section \<open>When every call succeeds\<close>

definition succeeds :: "os_run \<times> ('e, 'a) res \<Rightarrow> bool" where
  "succeeds p \<longleftrightarrow> (\<exists>tr a. p = (tr, Ok a))"

definition calls_succeed :: "os \<Rightarrow> bool" where
  "calls_succeed os \<longleftrightarrow> (\<forall>tr c. 0 \<le> a_ret (os_fun os tr c) \<and> a_addr (os_fun os tr c) \<noteq> os_map_failed os)"

lemma succeeds_Ok [simp]: "succeeds (tr, Ok a)"
  by (simp add: succeeds_def)

lemma succeeds_scoped:
  "succeeds p \<Longrightarrow> (\<And>a tr. p = (tr, Ok a) \<Longrightarrow> succeeds (k a tr)) \<Longrightarrow> succeeds (scoped os ds p k)"
  by (auto simp: succeeds_def)

lemma calls_succeedD:
  "calls_succeed os \<Longrightarrow> \<not> a_ret (os_fun os tr c) < 0" "calls_succeed os \<Longrightarrow> a_addr (os_fun os tr c) \<noteq> os_map_failed os"
  by (simp_all add: calls_succeed_def not_less)

lemma succeeds_steps:
  assumes "calls_succeed os"
  shows "succeeds (set_size os tr t fd n)" "succeeds (ring_offsets os tr fd)"
  using assms by (simp_all add: set_size_def ring_offsets_def os_call_eq Let_def calls_succeedD)

lemma succeeds_setup_umem:
  assumes "calls_succeed os" "page_ok os" "use_huge os (Option.bind config huge_page) = Ok huge"
  shows "succeeds (setup_umem os b tr fd config)"
proof -
  obtain k where k: "k \<le> 30" "unat (page_size_of os huge) = 2 ^ k"
  proof (cases huge)
    case True
    then show ?thesis by (intro that [of 21]) (simp_all add: page_size_of_def)
  next
    case False
    then show ?thesis using assms(2) that by (auto simp: page_ok_def page_size_of_def)
  qed
  have c: "unat (FRAME_COUNT * FRAME_SIZE) = 8388608" by (simp add: FRAME_COUNT_def FRAME_SIZE_def)
  have "(2 :: nat) ^ k \<le> 2 ^ 30" using k(1) by (rule power_increasing) simp
  then obtain a where "align_up b (FRAME_COUNT * FRAME_SIZE) (page_size_of os huge) = (Ok a :: (io_error, usize) res)"
    using align_up_ok [of k "page_size_of os huge" "FRAME_COUNT * FRAME_SIZE" b] k unfolding c by auto
  then show ?thesis
    using assms by (simp add: setup_umem_def owned_mmap_mmap_def os_call_eq Let_def calls_succeedD)
qed

lemma succeeds_ring_type_mmap:
  assumes "calls_succeed os" "n \<in> {4096, 2048}" "unat elem_size \<le> 16"
  shows "succeeds (ring_type_mmap os b tr contents elem_size t fd offsets n)"
proof -
  have "is_power_of_two n" "sub_chk b (ucast n :: u32) 1 = (Ok (ucast n - 1) :: (io_error, u32) res)"
    "unat n * unat elem_size < 2 ^ 64"
    using assms(2,3) by (auto simp: is_power_of_two_def sub_chk_def)
  then show ?thesis
    using assms(1) by (simp add: ring_type_mmap_def ring_map_def mmap_ring_def os_call_eq Let_def
        calls_succeedD split: prod.split)
qed

lemma frame_sizes_cases:
  assumes "ring_sizes d = (rx, tx)"
  shows "d \<noteq> DirRx \<Longrightarrow> tx \<in> {4096, 2048}" "d \<noteq> DirTx \<Longrightarrow> rx \<in> {4096, 2048}"
  using assms by (cases d; simp add: ring_sizes_def FRAME_COUNT_def)+

lemma succeeds_map_tx_rings:
  assumes "calls_succeed os" "d \<noteq> DirRx \<Longrightarrow> n \<in> {4096, 2048}"
  shows "succeeds (map_tx_rings os b tr fd offsets d n)"
proof (cases "d = DirRx")
  case False
  then have n: "n \<in> {4096, 2048}" "ring_size (unat n)" "unat n \<le> 4096" using assms(2) by auto
  show ?thesis
    unfolding map_tx_rings_def if_not_P [OF False]
  proof (intro succeeds_scoped succeeds_ring_type_mmap assms(1) n(1))
    fix c t tr1 tr2
    assume "ring_type_mmap os b tr1 os_desc 16 TxRing fd offsets n = (tr2, Ok t)"
    then have "ring_ok t \<and> ring_cap t = unat n" using ring_type_mmap_shape n(2) as_mappedD by blast
    then show "succeeds (tr2, fill_desc b t 0 :: (io_error, xdp_desc ring) res)"
      using fill_desc_filled [of t 0 b, where ?'a = io_error] n(3) by (auto simp: succeeds_def)
  qed simp_all
qed (simp add: map_tx_rings_def)

lemma succeeds_map_rx_rings:
  assumes "calls_succeed os" "d \<noteq> DirTx \<Longrightarrow> n \<in> {4096, 2048}" "unat m \<le> 4096"
  shows "succeeds (map_rx_rings os b tr fd offsets d n m)"
proof (cases "d = DirTx")
  case False
  then have n: "n \<in> {4096, 2048}" "ring_size (unat n)" "unat n \<le> 4096" using assms(2) by auto
  show ?thesis
    unfolding map_rx_rings_def if_not_P [OF False]
  proof (intro succeeds_scoped succeeds_ring_type_mmap assms(1) n(1))
    fix x f tr1 tr2
    assume "ring_type_mmap os b tr1 os_u64 8 FillRing fd offsets n = (tr2, Ok f)"
    then have "ring_ok f \<and> ring_cap f = unat n" using ring_type_mmap_shape n(2) as_mappedD by blast
    moreover have "unat (ucast m :: u32) \<le> 4096" using assms(3) by (simp add: unat_ucast_64_32)
    ultimately show "succeeds (tr2, res_then (fill_u64 b f (ucast m))
        (\<lambda>f. update_producer f (ucast (ring_len f))) :: (io_error, u64 ring) res)"
      using fill_u64_filled [of f "ucast m" b, where ?'a = io_error] n(3)
      by (auto simp: succeeds_def filled_with_def accessors_ok)
  qed simp_all
qed (simp add: map_rx_rings_def)

lemma succeeds_create_socket:
  assumes os: "calls_succeed os" "page_ok os" "use_huge os (Option.bind config huge_page) = Ok huge"
  shows "succeeds (create_socket os b if_index if_queue d config)"
proof -
  obtain rx_n tx_n where n: "ring_sizes d = (rx_n, tx_n)" by fastforce
  note sz = frame_sizes_cases [OF n] ring_sizes_ok(3) [OF n]
  have size_step: "succeeds (if 0 < k then set_size os tr t fd k else (tr, Ok ()))" for tr t fd k
    using succeeds_steps(1) [OF os(1)] by simp
  show ?thesis
    unfolding create_socket_def n prod.case os_call_eq Let_def if_not_P [OF calls_succeedD(1) [OF os(1)]]
    by (intro succeeds_scoped succeeds_setup_umem [OF os] succeeds_steps [OF os(1)] size_step
        succeeds_map_tx_rings [OF os(1)] succeeds_map_rx_rings [OF os(1)] sz)
      (auto intro!: succeeds_scoped succeeds_map_rx_rings [OF os(1)] sz)
qed

end
