(* ===== verification/Sample.thy ===== *)
theory Sample
  imports Tx_Protocol Create_Facts
begin

unbundle bit_operations_syntax

text \<open>
  Concrete instances on which the hypotheses of the properties hold: a system whose calls succeed, a
  kernel that sends every packet at once, and sockets with rings of two and four slots.
\<close>

section \<open>A system\<close>

definition sample_offset :: xdp_ring_offset where
  "sample_offset = \<lparr>off_producer = 0, off_consumer = 64, off_desc = 256, off_flags = 128\<rparr>"

definition sample_answer :: os_answer where
  "sample_answer = \<lparr>a_ret = 3, a_addr = 65536, a_errno = EBUSY,
     a_offsets = \<lparr>off_rx = sample_offset, off_tx = sample_offset, off_fr = sample_offset, off_cr = sample_offset\<rparr>\<rparr>"

definition sample_os :: os where
  "sample_os = \<lparr>os_fun = (\<lambda>tr c. sample_answer), os_map_failed = - 1, os_page_size = 4096,
     os_meminfo = Ok [Ok (print_line (''HugePages_Free'', 7, 0, False))], os_indices = (\<lambda>off. (0, 0, 0)),
     os_u64 = (\<lambda>off i. 0), os_desc = (\<lambda>off i. \<lparr>d_addr = 0, d_len = 0, d_options = 0\<rparr>),
     os_show = (\<lambda>e. ''error'')\<rparr>"

text \<open>A system on which the \<open>bind\<close> call fails.\<close>

definition failing_os :: os where
  "failing_os = sample_os\<lparr>os_fun := (\<lambda>tr c. case c of
     SysBind fd flags i q \<Rightarrow> sample_answer\<lparr>a_ret := - 1\<rparr> | _ \<Rightarrow> sample_answer)\<rparr>"

definition sample_build :: build where
  "sample_build = \<lparr>safety_checks = True, debug_assertions = True\<rparr>"

lemma sample_build_simps [simp]: "safety_checks sample_build" "debug_assertions sample_build"
  by (simp_all add: sample_build_def)

lemma sample_os_ok:
  "os_ok sample_os" "page_ok sample_os" "zero_indices sample_os" "calls_succeed sample_os"
  by (simp_all add: os_ok_def nonzero_maps_def page_ok_def zero_indices_def calls_succeed_def
      sample_os_def sample_answer_def) (rule exI [of _ 12], simp)

lemma failing_os_ok: "os_ok failing_os"
  by (simp add: failing_os_def os_ok_def nonzero_maps_def sample_os_def sample_answer_def split: os_call.split)

lemma sample_use_huge: "use_huge sample_os (Option.bind None huge_page) = Ok False"
proof -
  have "meminfo_line i (print_line (''HugePages_Free'', 7, 0, False)) = Ok (i\<lparr>free := Some 0\<rparr>)" for i
    by (subst meminfo_line_print) (simp_all add: key_ok_def is_space_def store_value_def)
  then show ?thesis
    by (simp add: use_huge_def get_hugepage_info_def sample_os_def hugepage_info_default_def)
qed

lemma sample_creates:
  "\<exists>tr p. create_socket sample_os b if_index if_queue d None = (tr, Ok p)"
  using succeeds_create_socket [OF sample_os_ok(4,2) sample_use_huge] by (simp add: succeeds_def)

lemma sample_creates_tx:
  assumes "d \<noteq> DirRx"
  shows "\<exists>tr s rx. create_socket sample_os b if_index if_queue d None = (tr, Ok (Some s, rx))"
proof -
  obtain tr txo rxo where c: "create_socket sample_os b if_index if_queue d None = (tr, Ok (txo, rxo))"
    using sample_creates [of b if_index if_queue d] by auto
  then show ?thesis
    using create_socket_Ok [OF sample_os_ok(1,2) _ c] assms by (cases "ring_sizes d") auto
qed

lemma sample_creates_rx:
  assumes "d \<noteq> DirTx"
  shows "\<exists>tr tx s. create_socket sample_os b if_index if_queue d None = (tr, Ok (tx, Some s))"
proof -
  obtain tr txo rxo where c: "create_socket sample_os b if_index if_queue d None = (tr, Ok (txo, rxo))"
    using sample_creates [of b if_index if_queue d] by auto
  then show ?thesis
    using create_socket_Ok [OF sample_os_ok(1,2) _ c] assms by (cases "ring_sizes d") auto
qed

section \<open>A kernel\<close>

text \<open>It takes the first queued descriptor and reports its frame as sent.\<close>

definition loopback :: "tx_world \<Rightarrow> tx_world" where
  "loopback w =
     (let s = w_sock w; x = x_ring s; u = u_ring s; a = d_addr (slot_rd x (cons_ix x))
      in w\<lparr>w_sock := s\<lparr>x_ring := set_cons x (cons_ix x + 1),
           u_ring := set_prod (slot_wr u (prod_ix u) a) (prod_ix u + 1)\<rparr>\<rparr>)"

definition loopback_kernel :: "tx_world \<Rightarrow> tx_world \<Rightarrow> bool" where
  "loopback_kernel w w' \<longleftrightarrow> tx_shape (w_sock w) \<and> 0 < queued_count (w_sock w) \<and>
     pending (w_sock w) < ring_cap (u_ring (w_sock w)) \<and> w_held w = {#} \<and> w' = loopback w"

lemma loopback_completes:
  assumes "loopback_kernel w w'"
  shows "completed_frames (w_sock w') =
    completed_frames (w_sock w) @ [d_addr (slot_rd (x_ring (w_sock w)) (cons_ix (x_ring (w_sock w))))]"
proof -
  let ?u = "u_ring (w_sock w)" and ?a = "d_addr (slot_rd (x_ring (w_sock w)) (cons_ix (x_ring (w_sock w))))"
  have "ring_ok ?u" "pending (w_sock w) < ring_cap ?u"
    using assms by (simp_all add: loopback_kernel_def tx_shape_def)
  then show ?thesis
    using rings.entries_push [of ?u "consumer (w_sock w)" "u_ring (w_sock w')" ?a] assms
    by (simp add: completed_frames_def pending_def loopback_kernel_def loopback_def Let_def)
qed

lemma loopback_rely:
  assumes "loopback_kernel w w'"
  shows "tx_rely w w'"
proof -
  let ?s = "w_sock w" and ?s' = "w_sock (loopback w)"
  let ?x = "x_ring (w_sock w)" and ?u = "u_ring (w_sock w)"
  let ?a = "d_addr (slot_rd ?x (cons_ix ?x))"
  have w': "w' = loopback w" and shape: "tx_shape ?s" and q: "0 < queued_count ?s"
    and room: "pending ?s < ring_cap ?u"
    using assms by (simp_all add: loopback_kernel_def)
  have s': "?s' = ?s\<lparr>x_ring := set_cons ?x (cons_ix ?x + 1),
      u_ring := set_prod (slot_wr ?u (prod_ix ?u) ?a) (prod_ix ?u + 1)\<rparr>"
    by (simp add: loopback_def Let_def)
  have u: "ring_ok ?u" and x: "ring_ok ?x" using shape by (simp_all add: tx_shape_def)
  have "completed_frames ?s' = completed_frames ?s @ [?a]" using loopback_completes [OF assms] by (simp add: w')
  moreover have "queued_frames ?s = ?a # queued_frames ?s'"
  proof -
    have "producer ?s - cons_ix ?x \<noteq> 0" using q by (auto simp: queued_count_def)
    then have "unat (producer ?s - cons_ix ?x - 1) = queued_count ?s - 1"
      by (simp add: queued_count_def unat_minus_one)
    then have "queued_count ?s = Suc (queued_count ?s')"
      using q by (simp add: queued_count_def s' diff_diff_eq)
    then show ?thesis by (simp add: queued_frames_def window_Cons) (simp add: s')
  qed
  ultimately show ?thesis
    using u x q by (simp add: tx_rely_def Let_def w')
      (intro conjI exI [of _ "Suc 0"] exI [of _ "[?a]"], simp_all add: s' loopback_def Let_def)
qed

section \<open>Small sockets\<close>

lemma small_ring_sizes [simp]: "ring_size 2" "ring_size 4"
  using ring_size_pow2 [of 1] ring_size_pow2 [of 2] by simp_all

definition small_ring :: "u32 \<Rightarrow> u32 \<Rightarrow> 'a list \<Rightarrow> 'a ring" where
  "small_ring p c ds =
     \<lparr>ring_mem = \<lparr>mmap_of = \<lparr>mm_ptr = 4096, mm_size = 4096\<rparr>,
        cells = Some \<lparr>producer_ix = p, consumer_ix = c, desc_ix = ds, flags_ix = 1\<rparr>\<rparr>,
      ring_len = of_nat (length ds), mod_mask = of_nat (length ds - 1)\<rparr>"

definition small_socket :: "xdp_desc ring \<Rightarrow> u64 ring \<Rightarrow> u32 \<Rightarrow> u32 \<Rightarrow> u32 \<Rightarrow> socket" where
  "small_socket x u a p c =
     \<lparr>s_inner = None, x_ring = x, u_ring = u, available = a, producer = p, consumer = c,
      frames = Some 8388608, raw_fd = 3\<rparr>"

lemma small_ring_simps [simp]:
  "ring_len (small_ring p c ds) = of_nat (length ds)" "mod_mask (small_ring p c ds) = of_nat (length ds - 1)"
  "prod_ix (small_ring p c ds) = p" "cons_ix (small_ring p c ds) = c"
  "desc_ix (the_cells (small_ring p c ds)) = ds"
  "cells (ring_mem (small_ring p c ds)) =
     Some \<lparr>producer_ix = p, consumer_ix = c, desc_ix = ds, flags_ix = 1\<rparr>"
  by (simp_all add: small_ring_def prod_ix_def cons_ix_def the_cells_def)

lemma small_socket_simps [simp]:
  "x_ring (small_socket x u a p c) = x" "u_ring (small_socket x u a p c) = u"
  "available (small_socket x u a p c) = a" "producer (small_socket x u a p c) = p"
  "consumer (small_socket x u a p c) = c" "frames (small_socket x u a p c) = Some 8388608"
  "raw_fd (small_socket x u a p c) = 3"
  by (simp_all add: small_socket_def)

lemma small_ring_ok [simp]:
  "length ds \<in> {2, 4} \<Longrightarrow> ring_ok (small_ring p c ds)" "length ds \<in> {2, 4} \<Longrightarrow> ring_cap (small_ring p c ds) = length ds"
  by (auto simp: ring_ok_def ring_cap_def)

text \<open>A transmit socket with two free frames, one packet queued and one completed.\<close>

definition small_tx :: socket where
  "small_tx = small_socket
     (small_ring 2 1 (map (\<lambda>a. \<lparr>d_addr = a, d_len = 60, d_options = 0\<rparr>) [0, 2048, 4096, 6144]))
     (small_ring 1 0 [0, 0, 0, 0]) 2 2 0"

text \<open>A receive socket with two packets in the RX ring and one free frame in the Fill ring.\<close>

definition small_rx :: socket where
  "small_rx = small_socket
     (small_ring 2 0 (map (\<lambda>a. \<lparr>d_addr = a, d_len = 60, d_options = 0\<rparr>) [0, 2048, 4096, 6144]))
     (small_ring 3 2 [0, 2048, 4096, 6144]) 2 3 0"

end
