(* ===== verification/Tx_Properties.thy ===== *)
theory Tx_Properties
  imports Sample
begin

unbundle bit_operations_syntax

text \<open>
  Properties of the transmit side, from \<^verbatim>\<open>create_socket\<close> on, under any interleaving with a kernel that follows the protocol: what each
  call returns and does in every run, for any client (\<open>any_call\<close>), and conservation of frames for clients that reclaim one frame
  at a time (\<open>single_frame\<close>).
\<close>

section \<open>Frames of a made socket\<close>

lemma frame_pool_in:
  assumes "a \<in> set (frame_pool start n)" "unat start + n \<le> 4096"
  shows "\<exists>k < n. a = frame_addr (unat start + k) \<and> unat a = (unat start + k) * 2048"
  using assms by (auto simp: frame_pool_def unat_frame_addr)

lemma distinct_frame_pool:
  assumes "unat start + n \<le> 4096"
  shows "distinct (frame_pool start n)"
proof -
  have "inj_on (\<lambda>k. frame_addr (unat start + k)) {0..<n}"
    by (rule inj_onI) (use assms in \<open>auto dest!: frame_addr_inj [rotated 2]\<close>)
  then show ?thesis by (simp add: frame_pool_def distinct_map)
qed

lemma made_tx_inv:
  assumes "made_tx os n io s" "zero_indices os" "ring_size (unat n)"
  shows "tx_inv (frame_pool 0 (unat n)) \<lparr>w_sock = s, w_mem = mem, w_held = {#}\<rparr> \<and>
    frames s = umem_frames (umem io)"
proof -
  obtain c t0 t where s: "s = socket_new (Some io) t c"
    and c: "as_mapped os os_u64 XDP_UMEM_PGOFF_COMPLETION_RING n c"
    and t0: "as_mapped os os_desc XDP_PGOFF_TX_RING n t0" and t: "filled_with frame_desc 0 t0 t"
    using assms(1) unfolding made_tx_def by blast
  have "fresh_rings t0 c"
    using c t0 assms(2) by (simp add: fresh_rings_def as_mapped_def ring_cap_def zero_indices_def)
  then show ?thesis
    using fresh_socket_inv [OF _ t, of c io mem] as_mappedD [OF t0] by (simp add: s)
qed

text \<open>Every slot of a new TX ring has the frame of its number.\<close>

lemma made_slots:
  assumes made: "made_tx os n io s" and os: "zero_indices os" and n: "ring_size (unat n)"
  shows "slot_rd (x_ring s) i = frame_desc (frame_addr (unat i mod unat n))"
proof -
  obtain c t0 t where s: "s = socket_new (Some io) t c"
    and t0: "as_mapped os os_desc XDP_PGOFF_TX_RING n t0" and t: "filled_with frame_desc 0 t0 t"
    using made unfolding made_tx_def by blast
  have x: "x_ring s = t" "ring_ok t" "ring_cap t0 = unat n" "ring_cap t = unat n"
    using t as_mappedD [OF t0] same_indices_cap [of t0 t] by (simp_all add: s socket_new_def filled_with_def)
  let ?j = "unat i mod unat n"
  have j: "?j < ring_cap t0" using x ring_size_pos [OF n] by simp
  have "slot_rd t i = slot_rd t (of_nat ?j)"
    using x(2,4) n by (intro rings.rd_cong) (simp_all add: unat_of_nat_mod_ring)
  also have "\<dots> = window (slot_rd t) 0 (ring_cap t0) ! ?j" using j by simp
  also have "\<dots> = frame_desc (frame_addr ?j)" using t j by (simp add: filled_with_def del: nth_window)
  finally show ?thesis by (simp add: x(1))
qed

lemma made_pool_inv:
  assumes "made_tx os n io s" "zero_indices os" "ring_size (unat n)"
  shows "pool_inv (unat n) (set (frame_pool 0 (unat n))) \<lparr>w_sock = s, w_mem = mem, w_held = {#}\<rparr>"
proof -
  have "unat i mod unat n < unat n" for i :: u32 using ring_size_pos [OF assms(3)] by simp
  then have "\<forall>i. d_addr (slot_rd (x_ring s) i) \<in> set (frame_pool 0 (unat n))"
    by (simp add: made_slots [OF assms] frame_desc_def frame_pool_def)
  moreover have "length (frame_pool 0 (unat n)) = unat n" by (simp add: frame_pool_def)
  ultimately show ?thesis
    using tx_inv_pool [of "frame_pool 0 (unat n)" "\<lparr>w_sock = s, w_mem = mem, w_held = {#}\<rparr>"] made_tx_inv [OF assms] by simp
qed

text \<open>
  A run of the transmit side: a socket made by \<^verbatim>\<open>create_socket\<close>, then calls that the rule \<open>A\<close> allows and kernel moves.
\<close>

definition tx_run ::
  "(tx_op \<Rightarrow> socket \<Rightarrow> bool) \<Rightarrow> (tx_world \<Rightarrow> tx_world \<Rightarrow> bool) \<Rightarrow> os \<Rightarrow> build \<Rightarrow> direction \<Rightarrow> xdp_config option \<Rightarrow>
    tx_world \<Rightarrow> bool" where
  "tx_run A K os b d config w \<longleftrightarrow>
     (\<exists>if_index if_queue tr s rx mem.
        create_socket os b if_index if_queue d config = (tr, Ok (Some s, rx)) \<and>
        8388608 \<le> length mem \<and> tx_reach A K b \<lparr>w_sock = s, w_mem = mem, w_held = {#}\<rparr> w)"

lemma tx_run_any: "tx_run A K os b d config w \<Longrightarrow> tx_run any_call K os b d config w"
  unfolding tx_run_def using tx_reach_any by blast

definition tx_frame_count :: "direction \<Rightarrow> nat" where
  "tx_frame_count d = unat (snd (ring_sizes d))"

text \<open>What is assumed of the system: \<open>os\<close> follows its documentation and the kernel the protocol.\<close>

definition kernel_ok :: "os \<Rightarrow> (tx_world \<Rightarrow> tx_world \<Rightarrow> bool) \<Rightarrow> bool" where
  "kernel_ok os K \<longleftrightarrow> os_ok os \<and> page_ok os \<and> zero_indices os \<and> (\<forall>w w'. K w w' \<longrightarrow> tx_rely w w')"

text \<open>The socket at the start of a run.\<close>

lemma made_tx_start:
  assumes "os_ok os" "page_ok os" "zero_indices os"
    and made: "create_socket os b if_index if_queue d config = (tr, Ok (Some s, rx))"
  shows "tx_inv (frame_pool 0 (tx_frame_count d)) \<lparr>w_sock = s, w_mem = mem, w_held = {#}\<rparr> \<and>
    pool_inv (tx_frame_count d) (set (frame_pool 0 (tx_frame_count d))) \<lparr>w_sock = s, w_mem = mem, w_held = {#}\<rparr> \<and>
    umem_ok s \<and> tx_frame_count d \<le> 4096"
proof -
  obtain rx_n tx_n where n: "ring_sizes d = (rx_n, tx_n)" by fastforce
  obtain io where io: "umem_covers io" "d \<noteq> DirRx" "made_tx os tx_n io s"
    using create_socket_Ok [OF assms(1,2) n made] by (auto split: if_splits)
  have sz: "ring_size (unat tx_n)" "unat tx_n \<le> 4096" using ring_sizes_ok(1) [OF n io(2)] by simp_all
  have inv: "tx_inv (frame_pool 0 (unat tx_n)) \<lparr>w_sock = s, w_mem = mem, w_held = {#}\<rparr>" "frames s = umem_frames (umem io)"
    using made_tx_inv [OF io(3) assms(3) sz(1)] by blast+
  moreover have "pool_inv (unat tx_n) (set (frame_pool 0 (unat tx_n))) \<lparr>w_sock = s, w_mem = mem, w_held = {#}\<rparr>"
    by (rule made_pool_inv [OF io(3) assms(3) sz(1)])
  moreover have "ring_cap (x_ring s) = unat tx_n"
    using inv(1) by (simp add: tx_inv_def frame_pool_def)
  ultimately show ?thesis
    using sz io(1) by (simp add: tx_frame_count_def n umem_ok_def umem_covers_def umem_frames_def)
qed

lemma tx_run_facts:
  assumes "kernel_ok os K" "safety_checks b" "tx_run A K os b d config w"
  shows "pool_inv (tx_frame_count d) (set (frame_pool 0 (tx_frame_count d))) w \<and> umem_ok (w_sock w) \<and> tx_frame_count d \<le> 4096"
proof -
  obtain if_index if_queue tr s rx mem where
      made: "create_socket os b if_index if_queue d config = (tr, Ok (Some s, rx))"
    and reach: "tx_reach A K b \<lparr>w_sock = s, w_mem = mem, w_held = {#}\<rparr> w"
    using assms(3) unfolding tx_run_def by blast
  have os: "os_ok os" "page_ok os" "zero_indices os" and K: "\<And>w w'. K w w' \<Longrightarrow> tx_rely w w'"
    using assms(1) by (simp_all add: kernel_ok_def)
  note start = made_tx_start [OF os made, of mem]
  have "pool_inv (tx_frame_count d) (set (frame_pool 0 (tx_frame_count d))) w" "frames (w_sock w) = frames s"
    using tx_reach_pool_inv [OF reach _ assms(2) K] start by auto
  moreover have "ring_cap (x_ring (w_sock w)) = ring_cap (x_ring s)"
    using calculation(1) start by (simp add: pool_inv_def)
  ultimately show ?thesis using start by (simp add: umem_ok_def)
qed

lemma tx_run_inv:
  assumes "kernel_ok os K" "safety_checks b" "tx_run single_frame K os b d config w"
  shows "tx_inv (frame_pool 0 (tx_frame_count d)) w"
proof -
  obtain if_index if_queue tr s rx mem where
      made: "create_socket os b if_index if_queue d config = (tr, Ok (Some s, rx))"
    and reach: "tx_reach single_frame K b \<lparr>w_sock = s, w_mem = mem, w_held = {#}\<rparr> w"
    using assms(3) unfolding tx_run_def by blast
  have os: "os_ok os" "page_ok os" "zero_indices os" and K: "\<And>w w'. K w w' \<Longrightarrow> tx_rely w w'"
    using assms(1) by (simp_all add: kernel_ok_def)
  then show ?thesis using tx_reach_inv [OF reach _ assms(2) K] made_tx_start [OF os made, of mem] by blast
qed

lemma app_frame_in_pool:
  assumes "pool_inv N P w" "i < unat (available (w_sock w))"
  shows "app_frames (w_sock w) ! i \<in> P"
  using assms(2) by (intro pool_inv_subset [OF assms(1)]) (simp add: all_frames_def)

lemma app_frames_distinct:
  assumes "tx_inv pool w" "distinct pool"
  shows "distinct (app_frames (w_sock w) @ queued_frames (w_sock w) @ completed_frames (w_sock w))"
proof -
  let ?l = "app_frames (w_sock w) @ queued_frames (w_sock w) @ completed_frames (w_sock w)"
  have "mset ?l + w_held w = mset pool"
    using assms(1) by (simp add: tx_inv_def all_frames_def ac_simps)
  then have "mset ?l \<subseteq># mset pool" by (metis mset_subset_eq_add_left)
  then show ?thesis using assms(2) by (rule distinct_sub_mset)
qed

lemma app_frames_desc:
  "i < unat (available s) \<Longrightarrow> app_frames s ! i = d_addr (slot_rd (x_ring s) (producer s + of_nat i))"
  by (simp add: app_frames_def)

lemma tx_desc_addr:
  assumes "index < ucast (available s)"
  shows "d_addr (tx_desc s index) = app_frames s ! unat index"
proof -
  have i: "unat index < unat (available s)" using assms by (simp add: word_less_nat_alt)
  have "(ucast index :: u32) = of_nat (unat index)" by (rule ucast_eq_of_nat)
  then show ?thesis using i by (simp only: app_frames_desc tx_desc_def)
qed

lemma peek_tx_full_frame:
  assumes "ring_ok (x_ring s)" "safety_checks b" "index < ucast (available s)" "unat len = 2048"
  shows "peek_tx b s index len =
    (s\<lparr>x_ring := slot_wr (x_ring s) (producer s + ucast index) ((tx_desc s index)\<lparr>d_len := ucast len\<rparr>)\<rparr>, Panic)"
proof -
  have "\<not> frame_size (x_ring s) < len" using assms(4) by (simp add: frame_size_def word_less_nat_alt)
  moreover have "\<not> (ucast len :: u32) < ucast FRAME_SIZE"
    using assms(4) by (simp add: word_less_nat_alt unat_ucast_64_32 FRAME_SIZE_def)
  ultimately show ?thesis
    using assms by (simp add: peek_tx_def not_le Let_def mut_desc_at_ok mut_bytes_at_def tx_desc_def)
qed

text \<open>What \<^verbatim>\<open>peek_\<close> does in every state whose frames are those of the pool.\<close>

lemma peek_effect:
  assumes inv: "pool_inv N (set (frame_pool 0 N)) w" and um: "umem_ok (w_sock w)" and N: "N \<le> 4096" and b: "safety_checks b"
    and s: "s = w_sock w"
  shows "peek_tx b s i len =
    (if ucast (available s) \<le> i then (s, Err InvalidIndex)
     else if 2048 < unat len then (s, Err InvalidLength)
     else (s\<lparr>x_ring := slot_wr (x_ring s) (producer s + ucast i) ((tx_desc s i)\<lparr>d_len := ucast len\<rparr>)\<rparr>,
       if unat len = 2048 then Panic else Ok \<lparr>sl_off = unat (app_frames s ! unat i), sl_len = unat len\<rparr>))"
proof -
  have x: "ring_ok (x_ring s)" using inv by (simp add: pool_inv_def tx_shape_def s)
  have n: "unat (0 :: u32) + N \<le> 4096" using N by simp
  consider "\<not> i < ucast (available s)" | "i < ucast (available s)" "2048 < unat len"
    | "i < ucast (available s)" "unat len = 2048" | "i < ucast (available s)" "unat len < 2048"
    by (meson nat_neq_iff)
  then show ?thesis
  proof cases
    case 1
    then show ?thesis using peek_tx_bad_index [OF b, of i s len] by (simp add: not_less)
  next
    case 2
    then show ?thesis using peek_tx_bad_length [OF b, of i s len] by (simp add: not_le)
  next
    case 3
    then show ?thesis using peek_tx_full_frame [OF x b] by (simp add: not_le)
  next
    case 4
    then have "unat i < unat (available s)" by (simp add: word_less_nat_alt)
    then obtain k where "k < N" "unat (app_frames s ! unat i) = k * 2048"
      using frame_pool_in [OF app_frame_in_pool [OF inv] n, of "unat i"] by (auto simp: s)
    then have "unat (d_addr (tx_desc s i)) + 2048 \<le> 8388608"
      using 4 n by (simp add: tx_desc_addr)
    then show ?thesis
      using peek_tx_ok [OF x um [folded s] 4(1) 4(2), of b] 4 by (simp add: not_le tx_desc_addr)
  qed
qed

section \<open>A sample run\<close>

lemma sample_kernel_ok: "kernel_ok sample_os loopback_kernel"
  using sample_os_ok loopback_rely by (simp add: kernel_ok_def)

lemma loopback_pending:
  assumes "loopback_kernel w w'"
  shows "pending (w_sock w') = Suc (pending (w_sock w))"
proof -
  have "length (completed_frames (w_sock w')) = Suc (length (completed_frames (w_sock w)))"
    using loopback_completes [OF assms] by simp
  then show ?thesis by simp
qed

text \<open>Make a socket, commit one packet, let the kernel send it.\<close>

lemma sample_run:
  "\<exists>w. tx_run single_frame loopback_kernel sample_os sample_build DirTx None w \<and>
     available (w_sock w) = 4095 \<and> pending (w_sock w) = 1"
proof -
  obtain tr s rx where s: "create_socket sample_os sample_build 2 0 DirTx None = (tr, Ok (Some s, rx))"
    using sample_creates_tx [of DirTx] by blast
  define mem :: "u8 list" where "mem = replicate 8388608 0"
  define w0 where "w0 = \<lparr>w_sock = s, w_mem = mem, w_held = {#}\<rparr>"
  define w1 where "w1 = tx_apply sample_build (OpCommit 1) w0"
  obtain io where made: "made_tx sample_os FRAME_COUNT io s"
    using create_socket_Ok [OF sample_os_ok(1,2) _ s, of 0 FRAME_COUNT] by (auto simp: ring_sizes_def)
  have inv0: "tx_inv (frame_pool 0 4096) w0" and inv1: "tx_inv (frame_pool 0 4096) w1"
    using made_tx_inv [OF made sample_os_ok(3), of mem] tx_apply_inv [of "frame_pool 0 4096" w0 sample_build "OpCommit 1"]
    by (simp_all add: w0_def w1_def)
  obtain t c where sc: "s = socket_new (Some io) t c" "ring_len t = FRAME_COUNT" "consumer s = 0" "prod_ix c = 0"
    using made sample_os_ok(3) unfolding made_tx_def
    by (auto simp: filled_with_def same_indices_def as_mapped_def zero_indices_def)
  have av0: "available s = 4096" and p0: "pending s = 0" using sc by (simp_all add: FRAME_COUNT_def pending_def)
  have s1: "w_sock w1 = s\<lparr>available := 4095, producer := producer s + 1, x_ring := set_prod (x_ring s) (producer s + 1)\<rparr>"
    using commit_tx_ok [of s 1 sample_build] tx_inv_wf [OF inv0] av0
    by (simp add: w1_def w0_def socket_commit_n_def)
  have held: "w_held w1 = {#}" by (simp add: w1_def w0_def)
  have pool: "length (frame_pool 0 4096) = 4096" by (simp add: frame_pool_def)
  have cap: "ring_cap (x_ring (w_sock w1)) = 4096" "ring_cap (u_ring (w_sock w1)) = 4096"
    using inv1 pool by (simp_all add: tx_inv_def tx_shape_def)
  have p1: "pending (w_sock w1) = 0" using p0 by (simp add: s1 pending_def)
  then have "queued_count (w_sock w1) = 1"
    using tx_inv_count [OF inv1] cap(1) by (simp add: s1 held)
  then have k: "loopback_kernel w1 (loopback w1)"
    using inv1 p1 cap held by (simp add: loopback_kernel_def tx_inv_def)
  have "tx_reach single_frame loopback_kernel sample_build w0 w1"
    unfolding w1_def by (intro reach_step [OF reach_refl] app_calls) simp
  then have "tx_reach single_frame loopback_kernel sample_build w0 (loopback w1)"
    by (rule reach_step) (rule kernel_moves, rule k)
  moreover have "pending (w_sock (loopback w1)) = 1" using loopback_pending [OF k] p1 by simp
  moreover have "available (w_sock (loopback w1)) = 4095" by (simp add: loopback_def Let_def s1)
  moreover have "8388608 \<le> length mem" unfolding mem_def length_replicate ..
  ultimately show ?thesis unfolding tx_run_def w0_def using s by blast
qed

lemma sample_run_any:
  "\<exists>w. tx_run any_call loopback_kernel sample_os sample_build DirTx None w \<and>
     available (w_sock w) = 4095 \<and> pending (w_sock w) = 1"
  using sample_run tx_run_any by blast

section \<open>Properties of runs\<close>

text \<open>
  C2. While frames are reclaimed one at a time, none is lost or duplicated: in every state of every run of a made transmit socket, with
  any interleaving of calls and kernel moves, in which no \<^verbatim>\<open>seek_n\<close> reclaims several frames, or one while others are available
  (\<open>single_frame\<close>), the frames that are available, queued, held by the kernel and completed are together the frames the socket was
  made with, each exactly once. Without that restriction it is false (\<open>Seek_Batch\<close>); what then still holds is
  there as well.
\<close>

theorem tx_frames_conserved:
  assumes "kernel_ok os K" "safety_checks b" "tx_run single_frame K os b d config w"
  shows "all_frames w = mset (frame_pool 0 (tx_frame_count d))"
  using tx_run_inv [OF assms] by (simp add: tx_inv_def)

theorem tx_frames_conserved_witness:
  "\<exists>w. tx_run single_frame loopback_kernel sample_os sample_build DirTx None w \<and> pending (w_sock w) = 1 \<and>
     all_frames w = mset (frame_pool 0 4096)"
proof -
  obtain w where w: "tx_run single_frame loopback_kernel sample_os sample_build DirTx None w" "pending (w_sock w) = 1"
    using sample_run by blast
  have "all_frames w = mset (frame_pool 0 (tx_frame_count DirTx))"
    using tx_frames_conserved [OF sample_kernel_ok _ w(1)] by simp
  then show ?thesis using w by (auto simp: tx_frame_count_def ring_sizes_def)
qed

text \<open>
  C4. While frames are reclaimed one at a time, buffers do not overlap and stay in the UMEM: in every run of a made transmit socket in
  which no \<^verbatim>\<open>seek_n\<close> reclaims several frames, or one while others are available (\<open>single_frame\<close>), two different available indices
  have different frames of the pool, neither of them is queued or completed, and each buffer of up to 2048 bytes is a frame
  inside the first \<open>N * 2048\<close> bytes. Without that restriction two buffers can be one frame (\<open>Seek_Batch\<close>).
\<close>

theorem tx_buffers_disjoint:
  assumes "kernel_ok os K" "safety_checks b" "tx_run single_frame K os b d config w"
    and "i < unat (available (w_sock w))" "j < unat (available (w_sock w))" "i \<noteq> j"
  shows "\<exists>k l. k < tx_frame_count d \<and> l < tx_frame_count d \<and> k \<noteq> l \<and>
    unat (app_frames (w_sock w) ! i) = k * 2048 \<and> unat (app_frames (w_sock w) ! j) = l * 2048 \<and>
    app_frames (w_sock w) ! i \<notin> set (queued_frames (w_sock w)) \<union> set (completed_frames (w_sock w))"
proof -
  let ?n = "tx_frame_count d"
  have inv: "tx_inv (frame_pool 0 ?n) w" and pool: "pool_inv ?n (set (frame_pool 0 ?n)) w" and n: "unat (0 :: u32) + ?n \<le> 4096"
    using tx_run_inv [OF assms(1-3)] tx_run_facts [OF assms(1-3)] by simp_all
  have dist: "distinct (app_frames (w_sock w) @ queued_frames (w_sock w) @ completed_frames (w_sock w))"
    using inv distinct_frame_pool [OF n] by (rule app_frames_distinct)
  then have "app_frames (w_sock w) ! i \<noteq> app_frames (w_sock w) ! j"
    using assms(4-6) by (simp add: nth_eq_iff_index_eq)
  moreover have "app_frames (w_sock w) ! i \<in> set (app_frames (w_sock w))" using assms(4) by simp
  ultimately show ?thesis
    using dist frame_pool_in [OF app_frame_in_pool [OF pool assms(4)] n]
      frame_pool_in [OF app_frame_in_pool [OF pool assms(5)] n]
    by fastforce
qed

theorem tx_buffers_disjoint_witness:
  "\<exists>w k l. tx_run single_frame loopback_kernel sample_os sample_build DirTx None w \<and> k \<noteq> l \<and>
     unat (app_frames (w_sock w) ! 0) = k * 2048 \<and> unat (app_frames (w_sock w) ! 4000) = l * 2048"
proof -
  obtain w where w: "tx_run single_frame loopback_kernel sample_os sample_build DirTx None w" "available (w_sock w) = 4095"
    using sample_run by blast
  then show ?thesis
    using tx_buffers_disjoint [OF sample_kernel_ok _ w(1), of 0 4000] by auto
qed

text \<open>
  C6. What \<^verbatim>\<open>peek_at\<close> returns in every state of every run of a made transmit socket, whatever the client has called: an index that is not available and a length over
  2048 are errors, a length of exactly 2048 passes the length check and panics in the ring, and any
  other call gives the buffer at the start of the frame, of the asked length, inside the UMEM.
\<close>

theorem tx_peek_outcome:
  assumes "kernel_ok os K" "safety_checks b" "tx_run any_call K os b d config w"
  shows "snd (peek_at_tx b (w_sock w) i len) =
    (if ucast (available (w_sock w)) \<le> i then Err InvalidIndex
     else if 2048 < unat len then Err InvalidLength
     else if unat len = 2048 then Panic
     else Ok \<lparr>sl_off = unat (app_frames (w_sock w) ! unat i), sl_len = unat len\<rparr>)"
proof -
  have "pool_inv (tx_frame_count d) (set (frame_pool 0 (tx_frame_count d))) w" "umem_ok (w_sock w)" "tx_frame_count d \<le> 4096"
    using tx_run_facts [OF assms] by simp_all
  then show ?thesis using assms(2) by (simp add: peek_at_tx_def peek_effect)
qed

theorem tx_peek_outcome_witness:
  "\<exists>w. tx_run any_call loopback_kernel sample_os sample_build DirTx None w \<and>
     snd (peek_at_tx sample_build (w_sock w) 4095 60) = Err InvalidIndex \<and>
     snd (peek_at_tx sample_build (w_sock w) 7 2048) = Panic \<and>
     snd (peek_at_tx sample_build (w_sock w) 7 60) =
       Ok \<lparr>sl_off = unat (app_frames (w_sock w) ! 7), sl_len = 60\<rparr>"
proof -
  obtain w where w: "tx_run any_call loopback_kernel sample_os sample_build DirTx None w" "available (w_sock w) = 4095"
    using sample_run_any by blast
  show ?thesis
    using w tx_peek_outcome [OF sample_kernel_ok _ w(1)] by (intro exI [of _ w]) simp
qed

text \<open>
  C30. What \<^verbatim>\<open>send\<close> returns in every state of every run of a made transmit socket, whatever the client has called, for a packet of \<open>n\<close> bytes (header and data): an
  error without a free frame and for more than 2048 bytes, a panic for exactly 2048 bytes, and success
  for every shorter packet.
\<close>

theorem tx_send_outcome:
  assumes "kernel_ok os K" "safety_checks b" "tx_run any_call K os b d config w" "8388608 \<le> length mem"
    and n: "n = length (header_bytes header) + length data" "n < 2 ^ 64"
  shows "snd (send b (w_sock w, mem) data header) =
    (if available (w_sock w) = 0 then Err InvalidIndex
     else if 2048 < n then Err InvalidLength
     else if n = 2048 then Panic else Ok ())"
proof -
  let ?s = "w_sock w" and ?l = "of_nat (length data) + of_nat (length (header_bytes header)) :: usize"
  have inv: "pool_inv (tx_frame_count d) (set (frame_pool 0 (tx_frame_count d))) w" and um: "umem_ok ?s" and cnt: "unat (0 :: u32) + tx_frame_count d \<le> 4096"
    using tx_run_facts [OF assms(1-3)] by simp_all
  have x: "ring_ok (x_ring ?s)" using inv by (simp add: pool_inv_def tx_shape_def)
  have l: "unat ?l = n" using n by (simp add: unat_word_ariths(1) unat_of_nat_u64)
  have chk: "add_chk b (of_nat (length data)) (of_nat (length (header_bytes header))) = (Ok ?l :: (ring_error, usize) res)"
    using n by (intro add_chk_Ok) (simp add: unat_of_nat_u64)
  have hdr: "(case header of None \<Rightarrow> 0 | Some h \<Rightarrow> length h) = length (header_bytes header)"
    by (simp add: header_bytes_def split: option.split)
  have failed: "snd (peek_tx b ?s 0 ?l) = Err e \<Longrightarrow> snd (send b (?s, mem) data header) = Err e"
    "snd (peek_tx b ?s 0 ?l) = Panic \<Longrightarrow> snd (send b (?s, mem) data header) = Panic" for e
    by (auto simp: send_def Let_def hdr chk peek_tx_0_def split: prod.split)
  consider "available ?s = 0" | "available ?s \<noteq> 0" "2048 < n" | "available ?s \<noteq> 0" "n = 2048" | "available ?s \<noteq> 0" "n < 2048"
    by (meson nat_neq_iff)
  then show ?thesis
  proof cases
    case 1
    then show ?thesis using peek_tx_bad_index [OF assms(2), of 0 ?s ?l] failed(1) by simp
  next
    case 2
    then have "(0 :: usize) < ucast (available ?s)" by (simp add: word_less_nat_alt unat_gt_0)
    then show ?thesis
      using 2 peek_tx_bad_length [OF assms(2), of 0 ?s ?l] failed(1) l by simp
  next
    case 3
    then have "(0 :: usize) < ucast (available ?s)" by (simp add: word_less_nat_alt unat_gt_0)
    then show ?thesis
      using 3 peek_tx_full_frame [OF x assms(2), of 0 ?l] failed(2) l by simp
  next
    case 4
    then have av: "0 < available ?s" and i: "(0 :: usize) < ucast (available ?s)"
      by (simp_all add: word_less_nat_alt unat_gt_0)
    have "unat (d_addr (tx_desc ?s 0)) + 2048 \<le> 8388608"
      using frame_pool_in [OF app_frame_in_pool [OF inv, of 0] cnt] i cnt
      by (auto simp: tx_desc_addr word_less_nat_alt)
    then show ?thesis
      using send_ok [OF pool_inv_wf [OF inv] um av _ _ assms(4), of header data b] 4 n by simp
  qed
qed

theorem tx_send_outcome_witness:
  "\<exists>w. tx_run any_call loopback_kernel sample_os sample_build DirTx None w \<and>
     (\<forall>mem. 8388608 \<le> length mem \<longrightarrow>
        snd (send sample_build (w_sock w, mem) [1, 2, 3] (Some [9])) = Ok () \<and>
        snd (send sample_build (w_sock w, mem) (replicate 2040 0) (Some (replicate 8 1))) = Panic)"
proof -
  obtain w where w: "tx_run any_call loopback_kernel sample_os sample_build DirTx None w" "available (w_sock w) = 4095"
    using sample_run_any by blast
  have "snd (send sample_build (w_sock w, mem) [1, 2, 3] (Some [9])) = Ok ()"
    "snd (send sample_build (w_sock w, mem) (replicate 2040 0) (Some (replicate 8 1))) = Panic"
    if "8388608 \<le> length mem" for mem
    using w(2) tx_send_outcome [OF sample_kernel_ok _ w(1) that, of 4 "Some [9]" "[1, 2, 3]"]
      tx_send_outcome [OF sample_kernel_ok _ w(1) that, of 2048 "Some (replicate 8 1)" "replicate 2040 0"]
    by (simp_all add: header_bytes_def)
  then show ?thesis using w(1) by blast
qed

text \<open>
  C5. In every state of every run of a made transmit socket, whatever the client has called, a successful \<^verbatim>\<open>send\<close> hands exactly one frame to the kernel: the first available frame moves to the
  end of the queue, its descriptor has the length of the packet, header and data are in the frame, every
  other byte of the UMEM is as before, and the new producer index is published.
\<close>

theorem tx_send_queues:
  assumes "kernel_ok os K" "safety_checks b" "tx_run any_call K os b d config w" "8388608 \<le> length mem"
    and n: "n = length (header_bytes header) + length data" "n < 2048"
    and av: "0 < available (w_sock w)" and off: "off = unat (hd (app_frames (w_sock w)))"
  shows "\<exists>s' mem'. send b (w_sock w, mem) data header = ((s', mem'), Ok ()) \<and>
    queued_frames s' = queued_frames (w_sock w) @ [hd (app_frames (w_sock w))] \<and>
    app_frames s' = tl (app_frames (w_sock w)) \<and>
    d_len (slot_rd (x_ring s') (producer (w_sock w))) = of_nat n \<and>
    prod_ix (x_ring s') = producer (w_sock w) + 1 \<and>
    length mem' = length mem \<and>
    (\<forall>i < length mem. mem' ! i =
       (if off \<le> i \<and> i < off + n then (header_bytes header @ data) ! (i - off) else mem ! i))"
proof -
  let ?s = "w_sock w" and ?mem' = "write_bytes mem off (header_bytes header @ data)"
  have inv: "pool_inv (tx_frame_count d) (set (frame_pool 0 (tx_frame_count d))) w" and um: "umem_ok ?s" and cnt: "unat (0 :: u32) + tx_frame_count d \<le> 4096"
    using tx_run_facts [OF assms(1-3)] by simp_all
  have i: "(0 :: usize) < ucast (available ?s)" using av by (simp add: word_less_nat_alt)
  then have "app_frames ?s \<noteq> []" by (simp add: word_less_nat_alt flip: length_0_conv)
  then have addr: "unat (d_addr (tx_desc ?s 0)) = off" using i by (simp add: off hd_conv_nth tx_desc_addr)
  have le: "off + 2048 \<le> 8388608"
    using frame_pool_in [OF app_frame_in_pool [OF inv, of 0] cnt] i cnt addr
    by (auto simp: tx_desc_addr word_less_nat_alt)
  have room: "queued_count ?s + unat (available ?s) \<le> ring_cap (x_ring ?s)"
    using pool_inv_count [OF inv] by simp
  have "send b (?s, mem) data header = ((sent n ?s, ?mem'), Ok ())"
    using send_ok [OF pool_inv_wf [OF inv] um av _ _ assms(4), of header data b] n addr le by simp
  moreover have "prod_ix (x_ring (sent n ?s)) = producer ?s + 1" by (simp add: sent_def)
  moreover have "length ?mem' = length mem" using le n assms(4) by simp
  moreover have "?mem' ! j = (if off \<le> j \<and> j < off + n then (header_bytes header @ data) ! (j - off) else mem ! j)"
    if "j < length mem" for j
    using that le n assms(4) write_bytes_nth_inside [of off "header_bytes header @ data" mem "j - off"]
      write_bytes_nth_outside [of off "header_bytes header @ data" mem j] by auto
  ultimately show ?thesis
    using sent_moves [OF pool_inv_wf [OF inv] av room, of n] by blast
qed

theorem tx_send_queues_witness:
  "\<exists>w. tx_run any_call loopback_kernel sample_os sample_build DirTx None w \<and>
     (\<forall>mem. 8388608 \<le> length mem \<longrightarrow>
        (\<exists>s' mem'. send sample_build (w_sock w, mem) [1, 2, 3] (Some [9]) = ((s', mem'), Ok ()) \<and>
           app_frames s' = tl (app_frames (w_sock w)) \<and>
           queued_frames s' = queued_frames (w_sock w) @ [hd (app_frames (w_sock w))]))"
proof -
  obtain w where w: "tx_run any_call loopback_kernel sample_os sample_build DirTx None w" "available (w_sock w) = 4095"
    using sample_run_any by blast
  have "\<exists>s' mem'. send sample_build (w_sock w, mem) [1, 2, 3] (Some [9]) = ((s', mem'), Ok ()) \<and>
           app_frames s' = tl (app_frames (w_sock w)) \<and>
           queued_frames s' = queued_frames (w_sock w) @ [hd (app_frames (w_sock w))]"
    if m: "8388608 \<le> length mem" for mem
    using w(2) tx_send_queues [OF sample_kernel_ok _ w(1) m, of 4 "Some [9]" "[1, 2, 3]"]
    by (fastforce simp: header_bytes_def)
  then show ?thesis using w(1) by blast
qed

section \<open>Properties of seek and commit\<close>

text \<open>
  C7. What \<^verbatim>\<open>seek_n\<close> does on a well-formed transmit socket, in every situation. With \<open>k\<close> the number of frames that are missing
  or, if fewer are completed, of those: enough available frames change nothing and give the asked number; otherwise nothing completed
  is \<^verbatim>\<open>RingFull\<close> and changes nothing; otherwise \<open>k\<close> frames are taken, \<open>available\<close> and \<open>consumer\<close> grow by \<open>k\<close>, the consumer
  index is published, and the total now available is returned, which can be less than asked. Of the \<open>k\<close> addresses the last is stored, in
  a descriptor without length at the slot of the producer index; every other slot of the TX ring, every slot of the Completion ring,
  and all else in the socket stay as they were. It always returns.
\<close>

theorem seek_tx_outcome:
  assumes "wf_tx s" "k = min (unat n - unat (available s)) (pending s)"
  shows "\<exists>s'. socket_seek_n seek_tx b s n =
      (s', if unat n \<le> unat (available s) then Ok n
           else if pending s = 0 then Err RingFull else Ok (ucast (available s'))) \<and>
    (k = 0 \<longrightarrow> s' = s) \<and>
    (0 < k \<longrightarrow>
      s' = s\<lparr>available := available s + of_nat k, consumer := consumer s + of_nat k,
        x_ring := x_ring s', u_ring := u_ring s'\<rparr> \<and>
      slot_rd (x_ring s') (producer s) = \<lparr>d_addr = completed_frames s ! (k - 1), d_len = 0, d_options = 0\<rparr> \<and>
      (\<forall>j. 0 < j \<and> j < ring_cap (x_ring s) \<longrightarrow>
         slot_rd (x_ring s') (producer s + of_nat j) = slot_rd (x_ring s) (producer s + of_nat j)) \<and>
      prod_ix (x_ring s') = prod_ix (x_ring s) \<and> cons_ix (x_ring s') = cons_ix (x_ring s) \<and>
      slot_rd (u_ring s') = slot_rd (u_ring s) \<and> prod_ix (u_ring s') = prod_ix (u_ring s) \<and>
      cons_ix (u_ring s') = consumer s') \<and>
    unat (available s') = unat (available s) + k \<and> pending s' = pending s - k \<and> wf_tx s'"
proof -
  have n: "n \<le> ucast (available s) \<longleftrightarrow> unat n \<le> unat (available s)" by (simp add: word_le_nat_alt)
  show ?thesis
  proof (cases "k = 0")
    case True
    then show ?thesis
      using assms seek_tx_empty [OF assms(1), of n b]
      by (intro exI [of _ s]) (cases "unat n \<le> unat (available s)", simp_all add: socket_seek_n_def seek_tx_hit n)
  next
    case False
    let ?s' = "reclaimed k s"
    have k: "k \<le> pending s" "0 < pending s" "\<not> unat n \<le> unat (available s)" using False assms(2) by auto
    have x: "ring_ok (x_ring s)" using assms(1) by (rule wf_txD)
    have wr: "x_ring ?s' = slot_wr (x_ring s) (producer s) \<lparr>d_addr = completed_frames s ! (k - 1), d_len = 0, d_options = 0\<rparr>"
      using k False by (simp add: reclaimed_def completed_frames_def xdp_desc_new_def)
    have call: "seek_tx b s n = (?s', Ok (ucast (available ?s')))"
      using seek_tx_reclaims [OF assms(1) _ k(2) assms(2), of b] k(3) n by simp
    have "slot_rd (x_ring ?s') (producer s + of_nat j) = slot_rd (x_ring s) (producer s + of_nat j)"
      if "0 < j" "j < ring_cap (x_ring s)" for j
      using rings.rd_wr_offset [OF x that(2), of 0 "producer s"] that by (simp add: wr)
    moreover have "?s' = s\<lparr>available := available s + of_nat k, consumer := consumer s + of_nat k,
        x_ring := x_ring ?s', u_ring := u_ring ?s'\<rparr>" "u_ring ?s' = set_cons (u_ring s) (consumer ?s')"
      by (simp_all add: reclaimed_def)
    moreover have "slot_rd (x_ring ?s') (producer s) = \<lparr>d_addr = completed_frames s ! (k - 1), d_len = 0, d_options = 0\<rparr>"
      by (simp add: wr rings.rd_wr_same [OF x])
    moreover have "prod_ix (x_ring ?s') = prod_ix (x_ring s)" "cons_ix (x_ring ?s') = cons_ix (x_ring s)"
      by (simp_all add: wr)
    ultimately show ?thesis
      using False k available_reclaimed [OF assms(1) k(1)] pending_reclaimed [OF k(1)] wf_tx_reclaimed [OF assms(1) k(1)]
      by (intro exI [of _ ?s']) (simp add: socket_seek_n_def call)
  qed
qed

lemma small_tx_wf: "wf_tx small_tx"
  by (simp add: small_tx_def wf_tx_def pending_def)

theorem seek_tx_outcome_witness:
  "\<exists>s'. socket_seek_n seek_tx sample_build small_tx 3 = (s', Ok 3) \<and> pending small_tx = 1 \<and> pending s' = 0 \<and>
     d_addr (slot_rd (x_ring s') (producer small_tx)) = completed_frames small_tx ! 0"
proof -
  have p: "pending small_tx = 1" "unat (available small_tx) = 2" by (simp_all add: pending_def small_tx_def)
  obtain s' where s': "socket_seek_n seek_tx sample_build small_tx 3 = (s', Ok (ucast (available s')))"
    "unat (available s') = 3" "pending s' = 0" "d_addr (slot_rd (x_ring s') (producer small_tx)) = completed_frames small_tx ! 0"
    using seek_tx_outcome [OF small_tx_wf, of 1 3 sample_build] p by auto
  then have "(ucast (available s') :: usize) = 3" by (metis of_nat_numeral ucast_eq_of_nat)
  then show ?thesis using s' p by auto
qed

text \<open>Two packets were sent and completed, the two other frames are available.\<close>

definition two_completed :: socket where
  "two_completed = small_socket
     (small_ring 2 2 (map (\<lambda>a. \<lparr>d_addr = a, d_len = 60, d_options = 0\<rparr>) [0, 2048, 4096, 6144]))
     (small_ring 2 0 [0, 2048, 0, 0]) 2 2 0"

lemma two_completed_wf: "wf_tx two_completed"
  by (simp add: two_completed_def wf_tx_def pending_def)

lemma two_completed_simps:
  "app_frames two_completed = [4096, 6144]" "completed_frames two_completed = [0, 2048]" "pending two_completed = 2"
  by (simp_all add: two_completed_def app_frames_def completed_frames_def pending_def window_numeral window_Cons slot_rd_def)

text \<open>
  A socket that \<^verbatim>\<open>seek_n\<close> breaks: the four frames of the socket are all accounted for before the call,
  and after \<^verbatim>\<open>seek_n(4)\<close> the four available buffers have one frame twice and one frame is gone.
\<close>

theorem seek_n_aliases_frames:
  "all_frames \<lparr>w_sock = two_completed, w_mem = [], w_held = {#}\<rparr> = mset [0, 2048, 4096, 6144] \<and>
   snd (socket_seek_n seek_tx sample_build two_completed 4) = Ok 4 \<and>
   app_frames (fst (socket_seek_n seek_tx sample_build two_completed 4)) = [2048, 6144, 0, 2048]"
proof -
  have s: "socket_seek_n seek_tx sample_build two_completed 4 =
      (reclaimed 2 two_completed, Ok (ucast (available (reclaimed 2 two_completed))))"
    unfolding socket_seek_n_def
    by (rule seek_tx_reclaims [OF two_completed_wf])
      (simp_all add: two_completed_simps, simp_all add: two_completed_def)
  have "app_frames (reclaimed 2 two_completed) = [2048, 6144, 0, 2048]"
    by (simp add: two_completed_def reclaimed_def app_frames_def window_numeral window_Cons slot_rd_def slot_wr_def
        xdp_desc_new_def)
  moreover have "queued_frames two_completed = []"
    by (simp add: two_completed_def queued_frames_def queued_count_def)
  ultimately show ?thesis
    by (simp add: s all_frames_def two_completed_simps) (simp add: reclaimed_def two_completed_def)
qed

text \<open>
  C8. What \<^verbatim>\<open>commit_n\<close> does: with \<open>m\<close> the count modulo \<open>2 ^ 32\<close>, more than is available is refused without
  an effect, and otherwise the first \<open>m\<close> available frames go to the end of the queue in order and the new
  producer index is published.
\<close>

theorem commit_tx_outcome:
  assumes "wf_tx s" "safety_checks b" "m = unat n mod 2 ^ 32"
    and "queued_count s + unat (available s) \<le> ring_cap (x_ring s)"
  shows "\<exists>s'. socket_commit_n commit_tx b s n = (s', if unat (available s) < m then Err NotAvailable else Ok ()) \<and>
    (unat (available s) < m \<longrightarrow> s' = s) \<and>
    (m \<le> unat (available s) \<longrightarrow>
       app_frames s' = drop m (app_frames s) \<and> queued_frames s' = queued_frames s @ take m (app_frames s) \<and>
       completed_frames s' = completed_frames s \<and>
       prod_ix (x_ring s') = producer s' \<and> producer s' = producer s + of_nat m \<and> wf_tx s')"
proof -
  have m: "m = unat (ucast n :: u32)" using assms(3) by (simp add: unat_ucast_64_32)
  show ?thesis
  proof (cases "unat (available s) < m")
    case True
    then show ?thesis
      using tx.commit_refused [OF assms(2), of s n] by (simp add: socket_commit_n_def word_less_nat_alt m)
  next
    case False
    then have n: "ucast n \<le> available s" by (simp add: word_le_nat_alt m)
    show ?thesis
      using False commit_moves [OF assms(1) n assms(4), of b] commit_tx_ok [OF assms(1) n, of b] wf_tx_commit [OF assms(1) n]
      by (auto simp: socket_commit_n_def m)
  qed
qed

theorem commit_tx_outcome_witness:
  "\<exists>s'. socket_commit_n commit_tx sample_build small_tx 2 = (s', Ok ()) \<and>
     queued_frames s' = queued_frames small_tx @ take 2 (app_frames small_tx) \<and> queued_count small_tx = 1"
proof -
  have "queued_count small_tx + unat (available small_tx) \<le> ring_cap (x_ring small_tx)" "queued_count small_tx = 1"
    "unat (available small_tx) = 2"
    by (simp_all add: small_tx_def queued_count_def)
  then show ?thesis using commit_tx_outcome [OF small_tx_wf, of sample_build 2 2] by auto
qed

text \<open>
  The count is cut to 32 bits before it is compared: committing \<open>2 ^ 32\<close> descriptors of a socket with
  none available reports success and commits nothing.
\<close>

theorem commit_truncates_count:
  assumes "wf_tx s"
  shows "\<exists>s'. socket_commit_n commit_tx b s 4294967296 = (s', Ok ()) \<and>
    available s' = available s \<and> producer s' = producer s"
proof -
  have "(ucast (4294967296 :: usize) :: u32) = 0"
    by (rule word_unat_eq_iff [THEN iffD2]) (simp add: unat_ucast_64_32)
  then show ?thesis
    using commit_tx_ok [OF assms, of 4294967296 b] by (simp only: socket_commit_n_def) simp
qed

theorem commit_truncates_count_witness:
  "\<exists>s'. socket_commit_n commit_tx sample_build (small_tx\<lparr>available := 0\<rparr>) 4294967296 = (s', Ok ()) \<and> available s' = 0"
proof -
  have "wf_tx (small_tx\<lparr>available := 0\<rparr>)" by (simp add: small_tx_def wf_tx_def pending_def)
  then show ?thesis using commit_truncates_count [of "small_tx\<lparr>available := 0\<rparr>" sample_build] by auto
qed

text \<open>
  After a \<^verbatim>\<open>seek()\<close> that succeeds on a transmit socket, \<^verbatim>\<open>commit()\<close> succeeds.
\<close>

theorem tx_seek_then_commit:
  assumes "wf_tx s" "socket_seek seek_tx b s = (s', Ok k)"
  shows "\<exists>s''. socket_commit commit_tx b s' = (s'', Ok ()) \<and> wf_tx s'' \<and> available s'' = available s' - 1"
  using assms by (rule tx.seek_then_commit)

theorem tx_seek_then_commit_witness:
  "\<exists>s' s''. socket_seek seek_tx sample_build small_tx = (s', Ok 1) \<and>
     socket_commit commit_tx sample_build s' = (s'', Ok ()) \<and> available s'' = 1"
proof -
  have "socket_seek seek_tx sample_build small_tx = (small_tx, Ok 1)"
    unfolding socket_seek_def by (rule seek_tx_hit) (simp add: small_tx_def)
  then show ?thesis
    using tx_seek_then_commit [OF small_tx_wf, of sample_build small_tx 1] by (auto simp: small_tx_def)
qed

end
