(* ===== verification/Rx_Properties.thy ===== *)
theory Rx_Properties
  imports Sample
begin

unbundle bit_operations_syntax

text \<open>
  Properties of the receive side: what \<^verbatim>\<open>seek_n\<close>, \<^verbatim>\<open>peek_at\<close> and \<^verbatim>\<open>commit_n\<close> do in every situation, that
  a commit moves frames from the RX ring to the Fill ring, and the state in which \<^verbatim>\<open>create_socket\<close>
  leaves a receive socket.
\<close>

section \<open>Receive calls\<close>

lemma small_rx_simps [simp]:
  "available small_rx = 2" "received small_rx = 2" "free_count small_rx = 1" "ring_cap (u_ring small_rx) = 4"
  "prod_ix (u_ring small_rx) = producer small_rx"
  by (simp_all add: small_rx_def received_def free_count_def)

lemma small_rx_wf: "wf_rx small_rx"
  using small_rx_simps by (simp add: wf_rx_def rings_rx_def) (simp add: small_rx_def)

text \<open>
  A receive \<^verbatim>\<open>commit_n\<close> gives frames back to the kernel without losing or inventing one: on a socket
  whose producer index is the published one, committing \<open>m\<close> available packets takes exactly the first
  \<open>m\<close> frames off the RX ring and appends them in order to the Fill ring, and the producer index stays
  the published one.
\<close>

theorem rx_commit_moves_frames:
  assumes "wf_rx s" "prod_ix (u_ring s) = producer s"
    and "m = unat n" "m \<le> unat (available s)"
    and "free_count s + m \<le> ring_cap (u_ring s)"
  shows "\<exists>s'. socket_commit_n commit_rx b s n = (s', Ok ()) \<and>
    received_frames s' = drop m (received_frames s) \<and>
    free_frames s' = free_frames s @ take m (received_frames s) \<and>
    prod_ix (u_ring s') = producer s'"
proof -
  have "unat (ucast n :: u32) = m"
    using order_le_less_trans [OF assms(4) unat_lt_u32] by (simp add: unat_ucast_64_32 assms(3))
  moreover from this have "ucast n \<le> available s" using assms(4) by (simp add: word_le_nat_alt)
  ultimately show ?thesis
    using commit_rx_moves_frames [OF assms(1,2), of n m b] assms(5) by (simp add: socket_commit_n_def)
qed

theorem rx_commit_moves_frames_witness:
  "\<exists>s'. socket_commit_n commit_rx sample_build small_rx 2 = (s', Ok ()) \<and>
     received_frames s' = [] \<and> free_frames s' = [4096, 0, 2048]"
proof -
  have "received_frames small_rx = [0, 2048]" "free_frames small_rx = [4096]"
    by (simp_all add: received_frames_def free_frames_def window_numeral window_Cons)
      (simp_all add: small_rx_def slot_rd_def)
  then show ?thesis
    using rx_commit_moves_frames [OF small_rx_wf, of 2 2 sample_build] by auto
qed

text \<open>
  What a receive \<^verbatim>\<open>seek_n\<close> does: enough available packets change nothing; otherwise an empty RX ring is
  \<^verbatim>\<open>RingEmpty\<close>; otherwise everything the kernel has delivered becomes available and the smaller of that and
  the count (cut to 32 bits) is returned.
\<close>

theorem seek_rx_outcome:
  assumes "wf_rx s"
  shows "socket_seek_n seek_rx b s n =
    (if unat n \<le> unat (available s) then (s, Ok n)
     else if received s = 0 then (s, Err RingEmpty)
     else (s\<lparr>available := of_nat (received s)\<rparr>, Ok (of_nat (min (received s) (unat n mod 2 ^ 32)))))
    \<and> wf_rx (fst (socket_seek_n seek_rx b s n))"
proof -
  have x: "ring_ok (x_ring s)" using assms by (simp add: wf_rx_def rings_rx_def)
  have r: "unat (of_nat (received s) :: u32) = received s" by (simp add: received_def)
  have "unat (min (of_nat (received s) :: u32) (ucast n)) = min (received s) (unat n mod 2 ^ 32)"
    by (simp add: min_def word_le_nat_alt r unat_ucast_64_32)
  then have "(ucast (min (of_nat (received s) :: u32) (ucast n)) :: usize) = of_nat (min (received s) (unat n mod 2 ^ 32))"
    by (simp only: ucast_eq_of_nat)
  then show ?thesis
    using rx.seek_preserves [OF assms, of b n] seek_rx_empty [OF x, of n b] seek_rx_finds [OF x, of n b]
    by (cases "unat n \<le> unat (available s)")
      (simp_all add: socket_seek_n_def seek_rx_def word_le_nat_alt)
qed

theorem seek_rx_outcome_witness:
  "socket_seek_n seek_rx sample_build (small_rx\<lparr>available := 1\<rparr>) 3 = (small_rx, Ok 2)"
proof -
  have "wf_rx (small_rx\<lparr>available := 1\<rparr>)" "received (small_rx\<lparr>available := 1\<rparr>) = 2"
    by (simp_all add: wf_rx_def rings_rx_def received_def) (simp_all add: small_rx_def)
  then show ?thesis
    using seek_rx_outcome [of "small_rx\<lparr>available := 1\<rparr>" sample_build 3]
    by (simp add: small_rx_def small_socket_def)
qed

lemma peek_rx_result:
  assumes "ring_ok (x_ring s)" "umem_ok s" "safety_checks b"
    and d: "d = slot_rd (x_ring s) (consumer s + ucast i)" "unat (d_addr d) + unat (d_len d) < 2 ^ 64"
  shows "snd (peek_at_rx b s i) =
    (if unat (available s) \<le> unat i then Err InvalidIndex
     else if 2048 \<le> unat (d_len d) \<or> 8388608 \<le> unat (d_addr d) + unat (d_len d) then Panic
     else Ok \<lparr>sl_off = unat (d_addr d), sl_len = unat (d_len d)\<rparr>)"
proof -
  let ?i = "consumer s + ucast i" and ?len = "ucast (d_len d) :: usize"
  obtain n where n: "frames s = Some n" "8388608 \<le> n" and cap: "ring_cap (x_ring s) \<le> 4096"
    using assms(2) by (auto simp: umem_ok_def split: option.splits)
  have "?i AND mod_mask (x_ring s) < ucast FRAME_COUNT"
    using slot_index_lt [OF assms(1), of ?i] cap by (simp add: word_less_nat_alt FRAME_COUNT_def)
  moreover have "(ucast ?len :: u32) < ucast FRAME_SIZE \<longleftrightarrow> unat (d_len d) < 2048"
    using unat_lt_u32 [of "d_len d"] by (simp add: word_less_nat_alt FRAME_SIZE_def unat_ucast_64_32)
  moreover have "add_chk b (d_addr d) ?len = (Ok (d_addr d + ?len) :: (ring_error, u64) res)"
    using d(2) by (intro add_chk_Ok) simp
  moreover have "d_addr d + ?len < FRAME_SIZE * FRAME_COUNT \<longleftrightarrow> unat (d_addr d) + unat (d_len d) < 8388608"
    using d(2) by (simp add: word_less_nat_alt FRAME_SIZE_def FRAME_COUNT_def unat_word_ariths(1))
  moreover have "ucast (available s) \<le> i \<longleftrightarrow> unat (available s) \<le> unat i"
    by (simp add: word_le_nat_alt)
  moreover have "2048 \<le> unat (d_len d) \<longleftrightarrow> \<not> unat (d_len d) < 2048"
    "8388608 \<le> unat (d_addr d) + unat (d_len d) \<longleftrightarrow> \<not> unat (d_addr d) + unat (d_len d) < 8388608"
    by linarith+
  ultimately show ?thesis
    using assms(1,3) n
    by (simp add: peek_at_rx_def peek_rx_def desc_at_ok mut_desc_at_ok mut_bytes_at_def
        d(1) [symmetric] Let_def split: prod.split)
qed

lemma peek_rx_long:
  assumes x: "ring_ok (x_ring s)" "ring_cap (x_ring s) \<le> 4096" and b: "safety_checks b"
    and d: "d = slot_rd (x_ring s) (consumer s + ucast i)" and i: "unat i < unat (available s)" "2048 \<le> unat (d_len d)"
  shows "snd (peek_at_rx b s i) = Panic"
proof -
  let ?i = "consumer s + ucast i"
  have "?i AND mod_mask (x_ring s) < ucast FRAME_COUNT"
    using slot_index_lt [OF x(1), of ?i] x(2) by (simp add: word_less_nat_alt FRAME_COUNT_def)
  moreover have "\<not> (ucast (ucast (d_len d) :: usize) :: u32) < ucast FRAME_SIZE"
    using i(2) unat_lt_u32 [of "d_len d"] by (simp add: word_less_nat_alt FRAME_SIZE_def unat_ucast_64_32)
  moreover have "\<not> ucast (available s) \<le> i" using i(1) by (simp add: word_le_nat_alt)
  ultimately show ?thesis
    using x b by (simp add: peek_at_rx_def peek_rx_def desc_at_ok mut_bytes_at_def d [symmetric] Let_def)
qed

text \<open>
  A descriptor whose end wraps around: a build with overflow checks panics, and in one without them the wrapped end passes the assertion, so
  that the slice lies outside the UMEM.
\<close>

lemma peek_rx_wraps:
  assumes x: "ring_ok (x_ring s)" "ring_cap (x_ring s) \<le> 4096" and n: "frames s = Some n" "n < 2 ^ 64" and b: "safety_checks b"
    and d: "d = slot_rd (x_ring s) (consumer s + ucast i)" "2 ^ 64 \<le> unat (d_addr d) + unat (d_len d)" "unat (d_len d) < 2048"
    and i: "unat i < unat (available s)"
  shows "snd (peek_at_rx b s i) = (if debug_assertions b then Panic else Undef)"
proof -
  let ?i = "consumer s + ucast i" and ?len = "ucast (d_len d) :: usize"
  have "?i AND mod_mask (x_ring s) < ucast FRAME_COUNT"
    using slot_index_lt [OF x(1), of ?i] x(2) by (simp add: word_less_nat_alt FRAME_COUNT_def)
  moreover have "(ucast ?len :: u32) < ucast FRAME_SIZE"
    using d(3) unat_lt_u32 [of "d_len d"] by (simp add: word_less_nat_alt FRAME_SIZE_def unat_ucast_64_32)
  moreover have "(add_chk b (d_addr d) ?len :: (ring_error, u64) res) = (if debug_assertions b then Panic else Ok (d_addr d + ?len))"
    using d(2) by (simp add: add_chk_def)
  moreover have "unat (d_addr d + ?len) < 2048"
  proof -
    have "unat (d_addr d) < 2 ^ 64" by (rule order_less_le_trans [OF unsigned_less]) simp
    then have "(unat (d_addr d) + unat (d_len d)) mod 2 ^ 64 = unat (d_addr d) + unat (d_len d) - 2 ^ 64"
      using d(2,3) by (simp add: mod_if)
    moreover have "unat (d_addr d + ?len) = (unat (d_addr d) + unat (d_len d)) mod 2 ^ 64"
      by (simp add: unat_word_ariths(1))
    ultimately show ?thesis using \<open>unat (d_addr d) < 2 ^ 64\<close> d(3) by linarith
  qed
  then have "d_addr d + ?len < FRAME_SIZE * FRAME_COUNT" by (simp add: word_less_nat_alt FRAME_SIZE_def FRAME_COUNT_def)
  moreover have "\<not> ucast (available s) \<le> i" using i by (simp add: word_le_nat_alt)
  moreover have "\<not> unat (d_addr d) + unat (d_len d) \<le> n" using d(2) n(2) by simp
  ultimately show ?thesis
    using x n b
    by (simp add: peek_at_rx_def peek_rx_def desc_at_ok mut_desc_at_ok mut_bytes_at_def d(1) [symmetric] Let_def split: prod.split)
qed

text \<open>
  C26. What a receive \<^verbatim>\<open>peek_at\<close> returns in a build with the safety checks, whatever descriptor the kernel has written: an index that
  is not available is an error, a descriptor of 2048 bytes or more panics, and so does one that ends at the end of the UMEM or behind it.
  Any other gives exactly the bytes it describes, except that address plus length may wrap around: then a build with
  overflow checks panics, and one without them passes the assertion and gives a slice outside the UMEM, which is undefined behaviour.
\<close>

theorem peek_rx_outcome:
  assumes "ring_ok (x_ring s)" "ring_cap (x_ring s) \<le> 4096" "safety_checks b"
    and "frames s = Some n" "8388608 \<le> n" "n < 2 ^ 64" and d: "d = slot_rd (x_ring s) (consumer s + ucast i)"
  shows "snd (peek_at_rx b s i) =
    (if unat (available s) \<le> unat i then Err InvalidIndex
     else if 2048 \<le> unat (d_len d) then Panic
     else if 2 ^ 64 \<le> unat (d_addr d) + unat (d_len d) then if debug_assertions b then Panic else Undef
     else if 8388608 \<le> unat (d_addr d) + unat (d_len d) then Panic
     else Ok \<lparr>sl_off = unat (d_addr d), sl_len = unat (d_len d)\<rparr>)"
proof (cases "2 ^ 64 \<le> unat (d_addr d) + unat (d_len d)")
  case False
  have "umem_ok s" using assms by (simp add: umem_ok_def)
  then show ?thesis using peek_rx_result [OF assms(1) _ assms(3) d] False by simp
next
  case True
  consider "unat (available s) \<le> unat i" | "unat i < unat (available s)" "2048 \<le> unat (d_len d)"
    | "unat i < unat (available s)" "unat (d_len d) < 2048" by linarith
  then show ?thesis
  proof cases
    case 1
    then show ?thesis using assms(3) by (simp add: peek_at_rx_def peek_rx_def word_le_nat_alt)
  next
    case 2
    then show ?thesis using peek_rx_long [OF assms(1-3) d] by simp
  next
    case 3
    then show ?thesis using peek_rx_wraps [OF assms(1,2,4,6,3) d True] True by simp
  qed
qed

text \<open>A readable packet, an index that is too large, and the wrap-around in a release build with all checks of the code.\<close>

theorem peek_rx_outcome_witness:
  "snd (peek_at_rx sample_build small_rx 1) = Ok \<lparr>sl_off = 2048, sl_len = 60\<rparr> \<and>
   snd (peek_at_rx sample_build small_rx 2) = Err InvalidIndex \<and>
   snd (peek_at_rx \<lparr>safety_checks = True, debug_assertions = False\<rparr>
     (small_rx\<lparr>x_ring := slot_wr (x_ring small_rx) 0 \<lparr>d_addr = 18446744073709551615, d_len = 60, d_options = 0\<rparr>\<rparr>) 0) = Undef"
proof -
  let ?v = "\<lparr>d_addr = 18446744073709551615, d_len = 60, d_options = 0\<rparr>"
  let ?s = "small_rx\<lparr>x_ring := slot_wr (x_ring small_rx) 0 ?v\<rparr>"
  have s: "ring_ok (x_ring small_rx)" "ring_cap (x_ring small_rx) \<le> 4096" "frames small_rx = Some 8388608" "available small_rx = 2"
    "slot_rd (x_ring small_rx) (consumer small_rx + ucast (1 :: usize)) = \<lparr>d_addr = 2048, d_len = 60, d_options = 0\<rparr>"
    "slot_rd (x_ring small_rx) (consumer small_rx + ucast (2 :: usize)) = \<lparr>d_addr = 4096, d_len = 60, d_options = 0\<rparr>"
    "consumer small_rx = 0"
    by (simp_all add: small_rx_def slot_rd_def)
  have "slot_rd (x_ring ?s) (consumer ?s + ucast (0 :: usize)) = ?v" using s(1,7) by (simp add: slot_rd_wr)
  then show ?thesis
    using s peek_rx_outcome [of small_rx sample_build 8388608 _ 1] peek_rx_outcome [of small_rx sample_build 8388608 _ 2]
      peek_rx_outcome [of ?s "\<lparr>safety_checks = True, debug_assertions = False\<rparr>" 8388608 ?v 0] by simp
qed

text \<open>After a \<^verbatim>\<open>seek()\<close> that succeeds on a receive socket, \<^verbatim>\<open>commit()\<close> succeeds.\<close>

theorem rx_seek_then_commit:
  assumes "wf_rx s" "socket_seek seek_rx b s = (s', Ok k)"
  shows "\<exists>s''. socket_commit commit_rx b s' = (s'', Ok ()) \<and> wf_rx s'' \<and> available s'' = available s' - 1"
  using assms by (rule rx.seek_then_commit)

theorem rx_seek_then_commit_witness:
  "\<exists>s''. socket_commit commit_rx sample_build small_rx = (s'', Ok ()) \<and> available s'' = 1"
proof -
  have "socket_seek seek_rx sample_build small_rx = (small_rx, Ok 1)"
    by (simp add: socket_seek_def seek_rx_def)
  then show ?thesis
    using rx_seek_then_commit [OF small_rx_wf, of sample_build small_rx 1] by auto
qed

end
