(* ===== verification/Rx_Protocol.thy ===== *)
theory Rx_Protocol
  imports Rx Sample
begin

unbundle bit_operations_syntax

text \<open>
  The receive side as a whole: the application's calls interleaved with the moves of the kernel, on a
  socket whose producer index is the published one. A frame is free (in the Fill ring, not yet taken by
  the kernel), held by the kernel, or received (in the RX ring, not yet returned). \<open>create_socket\<close> does
  not leave a socket in this state; the theory \<open>Create_Properties\<close> shows what it leaves.
\<close>

section \<open>Frames and their owners\<close>

text \<open>
  The frame of an address. The kernel puts a packet behind some headroom in its frame, and takes any address in
  a frame back for the frame.
\<close>

definition frame_of :: "u64 \<Rightarrow> u64" where
  "frame_of a = of_nat (unat a div 2048 * 2048)"

lemma unat_frame_of: "unat (frame_of a) = unat a div 2048 * 2048"
proof -
  have "unat a div 2048 * 2048 \<le> unat a" by simp
  also have "unat a < 2 ^ 64" by (rule order_less_le_trans [OF unsigned_less]) simp
  finally show ?thesis unfolding frame_of_def by (rule unat_of_nat_u64)
qed

record rx_world =
  rw_sock :: socket
  rw_held :: "u64 multiset"

definition rx_frames :: "rx_world \<Rightarrow> u64 multiset" where
  "rx_frames w = mset (map frame_of (free_frames (rw_sock w))) + rw_held w + mset (map frame_of (received_frames (rw_sock w)))"

definition rx_shape :: "socket \<Rightarrow> bool" where
  "rx_shape s \<longleftrightarrow> rings_rx s \<and> unat (available s) \<le> received s \<and>
     prod_ix (u_ring s) = producer s \<and> cons_ix (x_ring s) = consumer s"

definition rx_inv :: "u64 list \<Rightarrow> rx_world \<Rightarrow> bool" where
  "rx_inv pool w \<longleftrightarrow> rx_shape (rw_sock w) \<and> length pool = ring_cap (x_ring (rw_sock w)) \<and> rx_frames w = mset pool"

lemma length_rx_frames [simp]:
  "length (received_frames s) = received s" "length (free_frames s) = free_count s"
  by (simp_all add: received_frames_def free_frames_def)

lemma rx_inv_count:
  assumes "rx_inv pool w"
  shows "free_count (rw_sock w) + size (rw_held w) + received (rw_sock w) = ring_cap (x_ring (rw_sock w))"
proof -
  have "size (rx_frames w) = size (mset pool)" using assms by (simp add: rx_inv_def)
  then show ?thesis using assms by (simp add: rx_frames_def rx_inv_def)
qed

lemma rx_inv_wf: "rx_inv pool w \<Longrightarrow> wf_rx (rw_sock w)"
  using rx_inv_count [of pool w] by (simp add: rx_inv_def rx_shape_def wf_rx_def)

section \<open>Application steps\<close>

datatype rx_op = RxSeek usize | RxPeekAt usize | RxSeekAndPeek | RxCommit usize

fun rx_apply :: "build \<Rightarrow> rx_op \<Rightarrow> rx_world \<Rightarrow> rx_world" where
  "rx_apply b (RxSeek n) w = w\<lparr>rw_sock := fst (socket_seek_n seek_rx b (rw_sock w) n)\<rparr>"
| "rx_apply b (RxPeekAt i) w = w\<lparr>rw_sock := fst (peek_at_rx b (rw_sock w) i)\<rparr>"
| "rx_apply b RxSeekAndPeek w = w\<lparr>rw_sock := fst (seek_and_peek_rx b (rw_sock w))\<rparr>"
| "rx_apply b (RxCommit n) w = w\<lparr>rw_sock := fst (socket_commit_n commit_rx b (rw_sock w) n)\<rparr>"

text \<open>Reading a packet writes the length it has read back into its descriptor: nothing moves.\<close>

definition same_rx :: "socket \<Rightarrow> socket \<Rightarrow> bool" where
  "same_rx s s' \<longleftrightarrow> rings_rx s' \<and> available s' = available s \<and> producer s' = producer s \<and> consumer s' = consumer s \<and>
     u_ring s' = u_ring s \<and> ring_cap (x_ring s') = ring_cap (x_ring s) \<and>
     prod_ix (x_ring s') = prod_ix (x_ring s) \<and> cons_ix (x_ring s') = cons_ix (x_ring s) \<and>
     (\<lambda>i. d_addr (slot_rd (x_ring s') i)) = (\<lambda>i. d_addr (slot_rd (x_ring s) i))"

lemma same_rx_frames:
  assumes "same_rx s s'"
  shows "free_frames s' = free_frames s \<and> received_frames s' = received_frames s \<and> received s' = received s"
proof -
  have "free_frames s' = free_frames s" "received s' = received s"
    using assms by (simp_all add: same_rx_def free_frames_def free_count_def received_def)
  moreover have "received_frames s' = received_frames s"
    using assms calculation(2) by (simp add: same_rx_def received_frames_def map_window)
  ultimately show ?thesis by simp
qed

lemma same_rx_inv:
  assumes "rx_inv pool w" "same_rx (rw_sock w) s'"
  shows "rx_inv pool (w\<lparr>rw_sock := s'\<rparr>)"
proof -
  have "rx_frames (w\<lparr>rw_sock := s'\<rparr>) = rx_frames w" "received s' = received (rw_sock w)"
    using same_rx_frames [OF assms(2)] by (simp_all add: rx_frames_def)
  then show ?thesis using assms by (simp add: rx_inv_def rx_shape_def same_rx_def)
qed

text \<open>Peeking reads a descriptor and writes the length that it has read back into it.\<close>

lemma slot_wr_read: "ring_ok r \<Longrightarrow> slot_rd (slot_wr r i (slot_rd r i)) = slot_rd r"
  by (auto simp: fun_eq_iff slot_rd_wr intro: rings.rd_cong)

lemma peek_rx_rings:
  assumes x: "ring_ok (x_ring s)"
  shows "\<exists>x'. fst (peek_rx b s i) = s\<lparr>x_ring := x'\<rparr> \<and> ring_ok x' \<and> ring_cap x' = ring_cap (x_ring s) \<and>
    prod_ix x' = prod_ix (x_ring s) \<and> cons_ix x' = cons_ix (x_ring s) \<and> slot_rd x' = slot_rd (x_ring s)"
proof -
  let ?i = "consumer s + ucast i"
  let ?d = "slot_rd (x_ring s) ?i"
  obtain x' and r :: "(ring_error, slice) res"
    where m: "mut_bytes_at b (x_ring s) (frames s) (?i AND mod_mask (x_ring s)) (ucast (d_len ?d)) = (x', r)"
    by (metis surj_pair)
  have "(ucast (ucast (d_len ?d) :: usize) :: u32) = d_len ?d"
    using unat_lt_u32 [of "d_len ?d"] by (simp add: word_unat_eq_iff unat_ucast_64_32)
  then have "?d\<lparr>d_len := ucast (ucast (d_len ?d) :: usize)\<rparr> = ?d" by simp
  then have "x' = x_ring s \<or> x' = slot_wr (x_ring s) ?i ?d"
    using mut_bytes_at_effect [OF x m] by metis
  then have "ring_ok x' \<and> ring_cap x' = ring_cap (x_ring s) \<and>
    prod_ix x' = prod_ix (x_ring s) \<and> cons_ix x' = cons_ix (x_ring s) \<and> slot_rd x' = slot_rd (x_ring s)"
    using x by (auto simp: slot_wr_read)
  moreover have "fst (peek_rx b s i) \<in> {s, s\<lparr>x_ring := x'\<rparr>}"
    using x m by (simp add: peek_rx_def desc_at_ok Let_def)
  ultimately show ?thesis
    using x by (cases "fst (peek_rx b s i) = s") (auto intro: exI [of _ "x_ring s"])
qed

lemma peek_rx_same:
  assumes "rings_rx s"
  shows "same_rx s (fst (peek_rx b s i))"
  using peek_rx_rings [of s b i] assms by (auto simp: same_rx_def rings_rx_def)

lemma seek_rx_inv:
  assumes "rx_inv pool w"
  shows "rx_inv pool (w\<lparr>rw_sock := fst (seek_rx b (rw_sock w) n)\<rparr>)"
proof -
  let ?s = "rw_sock w"
  have x: "ring_ok (x_ring ?s)" using assms by (simp add: rx_inv_def rx_shape_def rings_rx_def)
  let ?s' = "?s\<lparr>available := of_nat (received ?s)\<rparr>"
  have "unat (available ?s') = received ?s" by (simp add: received_def)
  moreover have "received ?s' = received ?s" "free_frames ?s' = free_frames ?s" "rings_rx ?s' = rings_rx ?s"
    by (simp_all add: received_def free_frames_def free_count_def rings_rx_def)
  moreover have "received_frames ?s' = received_frames ?s"
    by (simp only: received_frames_def calculation(2)) simp
  moreover have "rx_frames (w\<lparr>rw_sock := ?s'\<rparr>) = rx_frames w"
    using calculation by (simp add: rx_frames_def)
  ultimately have "rx_inv pool (w\<lparr>rw_sock := ?s'\<rparr>)"
    using assms by (simp add: rx_inv_def rx_shape_def)
  moreover have "fst (seek_rx b ?s n) \<in> {?s, ?s\<lparr>available := of_nat (received ?s)\<rparr>}"
    using seek_rx_empty [OF x, of n b] seek_rx_finds [OF x, of n b]
    by (cases "n \<le> ucast (available ?s)"; cases "received ?s = 0") (simp_all add: seek_rx_def)
  ultimately show ?thesis using assms by auto
qed

lemma commit_rx_inv:
  assumes inv: "rx_inv pool w" and b: "safety_checks b"
  shows "rx_inv pool (w\<lparr>rw_sock := fst (commit_rx b (rw_sock w) n)\<rparr>)"
proof (cases "available (rw_sock w) < ucast n")
  case True
  then show ?thesis using inv b rx.commit_refused [of b "rw_sock w" n] by simp
next
  case False
  let ?s = "rw_sock w" and ?m = "unat (ucast n :: u32)"
  have wf: "wf_rx ?s" using inv by (rule rx_inv_wf)
  have n: "ucast n \<le> available ?s" using False by (simp add: not_less)
  then have "?m \<le> received ?s" using inv by (simp add: rx_inv_def rx_shape_def word_le_nat_alt)
  then have room: "free_count ?s + ?m \<le> ring_cap (u_ring ?s)"
    using rx_inv_count [OF inv] inv by (simp add: rx_inv_def rx_shape_def rings_rx_def)
  have sync: "prod_ix (u_ring ?s) = producer ?s" using inv by (simp add: rx_inv_def rx_shape_def)
  have rings: "rings_rx ?s" using wf by (simp add: wf_rx_def)
  obtain s' where c: "commit_rx b ?s n = (s', Ok ())" and f: "received_frames s' = drop ?m (received_frames ?s)"
      "free_frames s' = free_frames ?s @ take ?m (received_frames ?s)" "prod_ix (u_ring s') = producer s'"
    using commit_rx_moves_frames [OF wf sync n refl room, of b] by blast
  have s': "s' = released (ucast n) ?s" using commit_rx_ok [OF rings n, of b] c by simp
  have "mset (map frame_of (received_frames ?s)) =
      mset (map frame_of (take ?m (received_frames ?s))) + mset (map frame_of (drop ?m (received_frames ?s)))"
    by (simp only: mset_append [symmetric] map_append [symmetric] append_take_drop_id)
  then have "rx_frames (w\<lparr>rw_sock := s'\<rparr>) = rx_frames w" by (simp add: rx_frames_def f ac_simps)
  moreover have "wf_rx s'" using wf_rx_released [OF wf n] by (simp add: s')
  moreover have "cons_ix (x_ring s') = consumer s'" "ring_cap (x_ring s') = ring_cap (x_ring ?s)"
    by (simp_all add: s' released_def)
  ultimately show ?thesis using inv f(3) by (simp add: c rx_inv_def rx_shape_def wf_rx_def)
qed

lemma rx_apply_inv:
  assumes "rx_inv pool w" "safety_checks b"
  shows "rx_inv pool (rx_apply b op w)"
proof (cases op)
  case (RxSeek n)
  then show ?thesis using assms seek_rx_inv by (simp add: socket_seek_n_def)
next
  case (RxPeekAt i)
  have "rings_rx (rw_sock w)" using assms(1) by (simp add: rx_inv_def rx_shape_def)
  then show ?thesis using same_rx_inv [OF assms(1) peek_rx_same] by (simp add: RxPeekAt peek_at_rx_def)
next
  case RxSeekAndPeek
  obtain s1 r where s1: "seek_rx b (rw_sock w) 1 = (s1, r)" by fastforce
  have i: "rx_inv pool (w\<lparr>rw_sock := s1\<rparr>)" using seek_rx_inv [OF assms(1), of b 1] s1 by simp
  then have "rings_rx s1" by (simp add: rx_inv_def rx_shape_def)
  then have "rx_inv pool (w\<lparr>rw_sock := fst (peek_rx b s1 0)\<rparr>)"
    using same_rx_inv [OF i, of "fst (peek_rx b s1 0)"] peek_rx_same by simp
  then show ?thesis using i by (cases r) (simp_all add: RxSeekAndPeek seek_and_peek_rx_def s1)
next
  case (RxCommit n)
  then show ?thesis using assms commit_rx_inv by (simp add: socket_commit_n_def)
qed

section \<open>The kernel and the runs\<close>

text \<open>
  The protocol of the kernel: it takes frames from the Fill ring in order, delivers packets in frames it holds
  through the RX ring, at any address in the frame, and changes nothing else.
\<close>

definition rx_rely :: "rx_world \<Rightarrow> rx_world \<Rightarrow> bool" where
  "rx_rely w w' \<longleftrightarrow>
     (let s = rw_sock w; s' = rw_sock w' in
      available s' = available s \<and> producer s' = producer s \<and> consumer s' = consumer s \<and>
      frames s' = frames s \<and>
      ring_ok (x_ring s') \<and> ring_cap (x_ring s') = ring_cap (x_ring s) \<and> cons_ix (x_ring s') = cons_ix (x_ring s) \<and>
      ring_ok (u_ring s') \<and> ring_cap (u_ring s') = ring_cap (u_ring s) \<and> prod_ix (u_ring s') = prod_ix (u_ring s) \<and>
      (\<exists>k rs. k \<le> free_count s \<and> free_frames s' = drop k (free_frames s) \<and>
         received_frames s' = received_frames s @ rs \<and>
         rw_held w' + mset (map frame_of rs) = rw_held w + mset (map frame_of (take k (free_frames s)))))"

lemma rx_rely_inv:
  assumes inv: "rx_inv pool w" and rely: "rx_rely w w'"
  shows "rx_inv pool w'"
proof -
  let ?s = "rw_sock w" and ?s' = "rw_sock w'"
  obtain k rs where k: "free_frames ?s' = drop k (free_frames ?s)" "received_frames ?s' = received_frames ?s @ rs"
    "rw_held w' + mset (map frame_of rs) = rw_held w + mset (map frame_of (take k (free_frames ?s)))"
    using rely by (auto simp: rx_rely_def Let_def)
  let ?m = "\<lambda>as. mset (map frame_of as)"
  have "rx_frames w' = ?m (drop k (free_frames ?s)) + (rw_held w' + ?m rs) + ?m (received_frames ?s)"
    by (simp add: rx_frames_def k(1,2))
  also have "\<dots> = (?m (take k (free_frames ?s)) + ?m (drop k (free_frames ?s))) + rw_held w + ?m (received_frames ?s)"
    by (simp only: k(3)) (simp only: ac_simps)
  also have "\<dots> = rx_frames w" unfolding rx_frames_def mset_append [symmetric] map_append [symmetric] append_take_drop_id ..
  finally have "rx_frames w' = rx_frames w" .
  moreover have "received ?s \<le> received ?s'"
    using arg_cong [OF k(2), of length] by simp
  ultimately show ?thesis
    using inv rely by (simp add: rx_inv_def rx_shape_def rx_rely_def rings_rx_def Let_def)
qed

inductive rx_step :: "(rx_world \<Rightarrow> rx_world \<Rightarrow> bool) \<Rightarrow> build \<Rightarrow> rx_world \<Rightarrow> rx_world \<Rightarrow> bool"
  for K b where
  rx_kernel_moves: "K w w' \<Longrightarrow> rx_step K b w w'"
| rx_app_calls: "rx_step K b w (rx_apply b op w)"

inductive_cases rx_stepE: "rx_step K b w w'"

inductive rx_reach :: "(rx_world \<Rightarrow> rx_world \<Rightarrow> bool) \<Rightarrow> build \<Rightarrow> rx_world \<Rightarrow> rx_world \<Rightarrow> bool"
  for K b w0 where
  rx_reach_refl: "rx_reach K b w0 w0"
| rx_reach_step: "rx_reach K b w0 w \<Longrightarrow> rx_step K b w w' \<Longrightarrow> rx_reach K b w0 w'"

lemma rx_reach_inv:
  assumes "rx_reach K b w0 w" "rx_inv pool w0" "safety_checks b" "\<And>w w'. K w w' \<Longrightarrow> rx_rely w w'"
  shows "rx_inv pool w"
  using assms(1,2)
proof (induction rule: rx_reach.induct)
  case rx_reach_refl
  then show ?case .
next
  case (rx_reach_step w w')
  then have w: "rx_inv pool w" by blast
  from rx_reach_step.hyps(2) show ?case
  proof (rule rx_stepE)
    assume "K w w'"
    then show ?thesis using w assms(4) rx_rely_inv by blast
  next
    fix op assume "w' = rx_apply b op w"
    then show ?thesis using w assms(3) rx_apply_inv by blast
  qed
qed

section \<open>A sample kernel\<close>

text \<open>It takes the first free frame and delivers at once a packet of 60 bytes in it, behind a headroom of 256 bytes.\<close>

definition next_free :: "rx_world \<Rightarrow> u64" where
  "next_free w = slot_rd (u_ring (rw_sock w)) (cons_ix (u_ring (rw_sock w)))"

definition next_desc :: "rx_world \<Rightarrow> xdp_desc" where
  "next_desc w = xdp_desc_new (frame_of (next_free w) + 256) 60 0"

definition deliver :: "rx_world \<Rightarrow> rx_world" where
  "deliver w =
     (let s = rw_sock w; x = x_ring s; u = u_ring s
      in w\<lparr>rw_sock := s\<lparr>x_ring := set_prod (slot_wr x (prod_ix x) (next_desc w)) (prod_ix x + 1),
           u_ring := set_cons u (cons_ix u + 1)\<rparr>\<rparr>)"

definition deliver_kernel :: "rx_world \<Rightarrow> rx_world \<Rightarrow> bool" where
  "deliver_kernel w w' \<longleftrightarrow> rx_shape (rw_sock w) \<and> 0 < free_count (rw_sock w) \<and>
     received (rw_sock w) < ring_cap (x_ring (rw_sock w)) \<and> w' = deliver w"

lemma frame_of_room: "unat (frame_of a) + 2048 \<le> 2 ^ 64"
proof -
  have "unat a < 2 ^ 64" by (rule order_less_le_trans [OF unsigned_less]) simp
  then have "unat a div 2048 < 2 ^ 53" by (simp add: div_less_iff_less_mult)
  then show ?thesis by (simp add: unat_frame_of)
qed

lemma next_desc_addr: "unat (d_addr (next_desc w)) = unat (frame_of (next_free w)) + 256"
proof -
  have "unat (frame_of (next_free w)) + 256 < 2 ^ 64"
    using frame_of_room [of "next_free w"] by simp
  then show ?thesis by (simp add: next_desc_def xdp_desc_new_def unat_word_ariths(1))
qed

lemma next_desc_frame: "frame_of (d_addr (next_desc w)) = frame_of (next_free w)"
  by (simp add: word_unat_eq_iff unat_frame_of next_desc_addr)

lemma deliver_descs:
  assumes "deliver_kernel w w'"
  shows "received_descs (rw_sock w') = received_descs (rw_sock w) @ [next_desc w]"
proof -
  let ?s = "rw_sock w" and ?x = "x_ring (rw_sock w)" and ?d = "next_desc w"
  have x: "ring_ok ?x" and room: "received ?s < ring_cap ?x"
    using assms by (simp_all add: deliver_kernel_def rx_shape_def rings_rx_def)
  have x': "x_ring (rw_sock w') = set_prod (slot_wr ?x (prod_ix ?x) ?d) (prod_ix ?x + 1)" "consumer (rw_sock w') = consumer ?s"
    using assms by (simp_all add: deliver_kernel_def deliver_def Let_def)
  then show ?thesis
    using rings.entries_push [OF x, of "consumer ?s" "x_ring (rw_sock w')" ?d] room
    by (simp add: received_descs_def received_def)
qed

lemma deliver_rely:
  assumes "deliver_kernel w w'"
  shows "rx_rely w w'"
proof -
  let ?s = "rw_sock w" and ?s' = "rw_sock (deliver w)" and ?a = "next_free w"
  let ?x = "x_ring (rw_sock w)" and ?u = "u_ring (rw_sock w)"
  have w': "w' = deliver w" and shape: "rx_shape ?s" and q: "0 < free_count ?s"
    using assms by (simp_all add: deliver_kernel_def)
  have s': "?s' = ?s\<lparr>x_ring := set_prod (slot_wr ?x (prod_ix ?x) (next_desc w)) (prod_ix ?x + 1),
      u_ring := set_cons ?u (cons_ix ?u + 1)\<rparr>"
    by (simp add: deliver_def Let_def)
  have u: "ring_ok ?u" and x: "ring_ok ?x" using shape by (simp_all add: rx_shape_def rings_rx_def)
  have "received_frames ?s' = received_frames ?s @ [d_addr (next_desc w)]"
    using deliver_descs [OF assms] by (simp add: w' received_frames_descs)
  moreover have "free_frames ?s = ?a # free_frames ?s'"
  proof -
    have "prod_ix ?u - cons_ix ?u \<noteq> 0" using q by (auto simp: free_count_def)
    then have "unat (prod_ix ?u - cons_ix ?u - 1) = free_count ?s - 1"
      by (simp add: free_count_def unat_minus_one)
    then have "free_count ?s = Suc (free_count ?s')"
      using q by (simp add: free_count_def s' diff_diff_eq)
    then show ?thesis by (simp add: free_frames_def window_Cons next_free_def) (simp add: s')
  qed
  ultimately show ?thesis
    using u x q by (simp add: rx_rely_def Let_def w')
      (intro conjI exI [of _ "Suc 0"] exI [of _ "[d_addr (next_desc w)]"], simp_all add: s' deliver_def Let_def next_desc_frame)
qed

text \<open>
  No receive frame is lost or duplicated: starting from a socket whose producer index is the published
  one, in every state of every run, with any interleaving of calls and kernel moves, the frames that are
  free, held by the kernel and received are together the frames of the start, and the state keeps its
  shape: never more available packets than were received.
\<close>

theorem rx_frames_conserved:
  assumes "rx_shape (rw_sock w0)" "size (rx_frames w0) = ring_cap (x_ring (rw_sock w0))"
    and "safety_checks b" "\<And>w w'. K w w' \<Longrightarrow> rx_rely w w'" and "rx_reach K b w0 w"
  shows "rx_frames w = rx_frames w0 \<and> rx_shape (rw_sock w)"
proof -
  obtain pool where pool: "mset pool = rx_frames w0" by (metis ex_mset)
  then have inv: "rx_inv pool w0" using assms(1,2) by (metis rx_inv_def size_mset)
  have "rx_inv pool w" by (rule rx_reach_inv [OF assms(5) inv assms(3)]) (rule assms(4))
  then show ?thesis using pool by (simp add: rx_inv_def)
qed

definition rx_start :: rx_world where
  "rx_start = \<lparr>rw_sock = small_rx, rw_held = {#8192#}\<rparr>"

lemma rx_start_next: "next_desc rx_start = xdp_desc_new 4352 60 0"
  by (simp add: next_desc_def next_free_def frame_of_def rx_start_def small_rx_def slot_rd_def)

theorem rx_frames_conserved_witness:
  "\<exists>w. rx_reach deliver_kernel sample_build rx_start w \<and> rx_frames w = rx_frames rx_start \<and>
     received (rw_sock w) = 3 \<and> available (rw_sock w) = 3"
proof -
  let ?w1 = "deliver rx_start" and ?w2 = "rx_apply sample_build (RxSeek 3) (deliver rx_start)"
  have s: "rx_shape small_rx" "free_count small_rx = 1" "received small_rx = 2" "ring_cap (x_ring small_rx) = 4"
    by (simp_all add: rx_shape_def rings_rx_def free_count_def received_def) (simp_all add: small_rx_def)
  then have "deliver_kernel rx_start ?w1" by (simp add: deliver_kernel_def rx_start_def)
  then have "rx_reach deliver_kernel sample_build rx_start ?w2"
    by (rule rx_reach_step [OF rx_reach_step [OF rx_reach_refl rx_kernel_moves] rx_app_calls])
  moreover have "size (rx_frames rx_start) = ring_cap (x_ring (rw_sock rx_start))"
    using s by (simp add: rx_frames_def rx_start_def)
  moreover have "ring_ok (x_ring (rw_sock ?w1))" "received (rw_sock ?w1) = 3" "available (rw_sock ?w1) = 2"
    by (simp_all add: deliver_def rx_start_def received_def small_rx_def Let_def)
  then have "received (rw_sock ?w2) = 3" "available (rw_sock ?w2) = 3"
    using seek_rx_finds [of "rw_sock ?w1" 3 sample_build]
    by (simp_all add: socket_seek_n_def received_def)
  ultimately show ?thesis
    using rx_frames_conserved [of rx_start sample_build deliver_kernel ?w2] s deliver_rely
    by (auto simp: rx_start_def)
qed

end
