(* ===== verification/Create_Properties.thy ===== *)
theory Create_Properties
  imports Sample
begin

unbundle bit_operations_syntax

text \<open>
  Properties of \<^verbatim>\<open>create_socket\<close>: nothing leaks, it succeeds when the calls do, the frames are divided
  between the two sockets, and the state in which it leaves a receive socket.
\<close>

section \<open>Made sockets\<close>

lemma made_rx_facts:
  assumes made: "made_rx os n start io s" and zero: "zero_indices os"
    and n: "ring_size (unat n)" "unat n \<le> 4096" "unat start \<le> 4096"
  shows "rings_rx s" "unat (available s) = unat n" "received s = 0" "producer s = 0" "consumer s = 0"
    "prod_ix (u_ring s) = of_nat (unat n)" "cons_ix (u_ring s) = 0" "prod_ix (x_ring s) = 0"
    "ring_cap (x_ring s) = unat n" "ring_cap (u_ring s) = unat n"
    "free_frames s = frame_pool (ucast start) (unat n)"
    "slot_rd (x_ring s) 0 = os_desc os XDP_PGOFF_RX_RING 0"
proof -
  obtain x f0 f1 where s: "s = socket_new (Some io) x (set_prod f1 (ucast n))"
    and x: "as_mapped os os_desc XDP_PGOFF_RX_RING n x" and f0: "as_mapped os os_u64 XDP_UMEM_PGOFF_FILL_RING n f0"
    and f1: "filled_with (\<lambda>a. a) (ucast start) f0 f1"
    using made unfolding made_rx_def by blast
  have n32: "unat (ucast n :: u32) = unat n" using n(2) by (simp add: unat_ucast_64_32)
  have u: "(ucast n :: u32) = of_nat (unat n)" by (rule ucast_eq_of_nat)
  have ok: "ring_ok x" "ring_ok f1" "ring_cap x = unat n" "ring_cap f0 = unat n" "ring_cap f1 = unat n"
    using as_mappedD [OF x] as_mappedD [OF f0] f1 same_indices_cap [of f0 f1] by (simp_all add: filled_with_def)
  show "rings_rx s" using ok by (simp add: s rings_rx_def)
  show "unat (available s) = unat n" using x n32 by (simp add: s as_mapped_def)
  show "received s = 0" "prod_ix (x_ring s) = 0"
    using x zero by (simp_all add: s received_def as_mapped_def zero_indices_def)
  show "producer s = 0" "consumer s = 0" "ring_cap (x_ring s) = unat n" "ring_cap (u_ring s) = unat n"
    using ok by (simp_all add: s)
  show "prod_ix (u_ring s) = of_nat (unat n)" by (simp only: s socket_new_simps index_ring_simps u)
  have cons: "cons_ix f1 = 0"
    using f0 f1 zero by (simp add: filled_with_def same_indices_def as_mapped_def zero_indices_def)
  then show "cons_ix (u_ring s) = 0" by (simp add: s)
  have "free_count s = unat n" using cons n32 by (simp add: s free_count_def)
  then show "free_frames s = frame_pool (ucast start) (unat n)"
    using f1 cons ok by (simp add: free_frames_def s filled_with_def frame_pool_def)
  have "0 < unat n" using n(1) by (rule ring_size_pos)
  then show "slot_rd (x_ring s) 0 = os_desc os XDP_PGOFF_RX_RING 0"
    using x by (simp add: s slot_rd_def as_mapped_def)
qed

lemma made_tx_frames:
  assumes "made_tx os n io s" "zero_indices os" "ring_size (unat n)"
  shows "app_frames s = frame_pool 0 (unat n)"
proof -
  obtain c t0 t where s: "s = socket_new (Some io) t c"
    and t0: "as_mapped os os_desc XDP_PGOFF_TX_RING n t0" and t: "filled_with frame_desc 0 t0 t"
    using assms(1) unfolding made_tx_def by blast
  have cap: "ring_cap t0 = unat n" "ring_len t = n"
    using as_mappedD [OF t0] t t0 by (simp_all add: filled_with_def same_indices_def as_mapped_def)
  have n32: "unat (ucast n :: u32) = unat n" using ring_size_lt [OF assms(3)] by (simp add: unat_ucast_64_32)
  have "app_frames s = map d_addr (window (slot_rd t) 0 (ring_cap t0))"
    by (simp add: app_frames_def s cap n32 map_window)
  then show ?thesis using t cap by (simp add: filled_with_def frame_pool_def frame_desc_def)
qed

lemma frame_pool_append:
  assumes "unat start = unat s0 + m"
  shows "frame_pool s0 m @ frame_pool start n = frame_pool s0 (m + n)"
  by (induction n) (simp_all add: frame_pool_def assms add.assoc)

section \<open>Resources\<close>

text \<open>
  C21. \<^verbatim>\<open>create_socket\<close> leaks nothing. When it fails, at whatever call, every descriptor and every mapping
  it took has been released; when it succeeds, what is live is exactly what the two sockets own, and
  dropping them releases it. No call of it is undefined.
\<close>

theorem create_socket_no_leak:
  assumes "os_ok os" "create_socket os b if_index if_queue d config = (tr, r)"
  shows "r \<noteq> Undef \<and> ((\<nexists>p. r = Ok p) \<longrightarrow> os_holds os tr {#}) \<and>
    (\<forall>p. r = Ok p \<longrightarrow> os_holds os tr (owned_all os (pair_values p)) \<and>
       os_holds os (drop_all (os_drop os) (pair_values p) tr) {#})"
  using create_socket_settled [OF assms(1), of b if_index if_queue d config] assms(2)
    drop_all_holds [of os tr _ "{#}"] by (cases r) auto

lemma failing_os_fails: "create_socket failing_os b if_index if_queue d config \<noteq> (tr, Ok p)"
proof
  assume "create_socket failing_os b if_index if_queue d config = (tr, Ok p)"
  then obtain tr' fd where "\<not> a_ret (os_fun failing_os tr' (SysBind fd (bind_flags config) if_index if_queue)) < 0"
    by (cases p; cases "ring_sizes d")
      (simp only: create_socket_def os_call_eq Let_def prod.case failing_call_Ok_iff scoped_Ok_iff split_paired_Ex, blast)
  then show False by (simp add: failing_os_def sample_answer_def)
qed

theorem create_socket_no_leak_witness:
  "\<exists>tr r. create_socket failing_os sample_build 2 0 DirBoth None = (tr, r) \<and> (\<nexists>p. r = Ok p) \<and> os_holds failing_os tr {#}"
proof -
  obtain tr r where c: "create_socket failing_os sample_build 2 0 DirBoth None = (tr, r)" by fastforce
  then show ?thesis using create_socket_no_leak [OF failing_os_ok c] failing_os_fails by auto
qed

text \<open>
  C23. When every call of the system succeeds and the huge page information can be read,
  \<^verbatim>\<open>create_socket\<close> returns sockets, in every build and direction: no assertion and no overflow check of
  the ring code fails.
\<close>

theorem create_socket_succeeds:
  assumes "calls_succeed os" "page_ok os" "use_huge os (Option.bind config huge_page) = Ok huge"
  shows "\<exists>tr p. create_socket os b if_index if_queue d config = (tr, Ok p)"
  using succeeds_create_socket [OF assms, of b if_index if_queue d] by (simp add: succeeds_def)

theorem create_socket_succeeds_witness:
  "\<exists>tr p. create_socket sample_os sample_build 2 0 DirBoth None = (tr, Ok p)"
  by (rule create_socket_succeeds [OF sample_os_ok(4,2) sample_use_huge])

section \<open>Frames\<close>

text \<open>
  C22. The frames are divided: in every direction the frames that the transmit socket can fill and those
  that the Fill ring of the receive socket offers to the kernel are together the 4096 frames of the UMEM,
  each once; the sockets asked for are made and no other.
\<close>

theorem create_socket_divides_frames:
  assumes "os_ok os" "page_ok os" "zero_indices os"
    and made: "create_socket os b if_index if_queue d config = (tr, Ok (txo, rxo))"
  shows "(case txo of None \<Rightarrow> [] | Some s \<Rightarrow> app_frames s) @ (case rxo of None \<Rightarrow> [] | Some s \<Rightarrow> free_frames s)
      = frame_pool 0 4096 \<and>
    (txo = None \<longleftrightarrow> d = DirRx) \<and> (rxo = None \<longleftrightarrow> d = DirTx)"
proof -
  obtain rx_n tx_n where n: "ring_sizes d = (rx_n, tx_n)" by fastforce
  note sz = ring_sizes_ok [OF n]
  obtain io where io: "if d = DirRx then txo = None else \<exists>s. txo = Some s \<and> made_tx os tx_n io s"
    "if d = DirTx then rxo = None else \<exists>s. rxo = Some s \<and> made_rx os rx_n tx_n io s"
    using create_socket_Ok [OF assms(1,2) n made] by blast
  have u: "unat (ucast tx_n :: u32) = unat tx_n" using sz(3) by (simp add: unat_ucast_64_32)
  have tx: "(case txo of None \<Rightarrow> [] | Some s \<Rightarrow> app_frames s) = frame_pool 0 (unat tx_n)"
  proof (cases "d = DirRx")
    case True
    then show ?thesis using io n by (auto simp: ring_sizes_def frame_pool_def)
  next
    case False
    then show ?thesis using io(1) made_tx_frames [OF _ assms(3)] sz(1) by auto
  qed
  have rx: "(case rxo of None \<Rightarrow> [] | Some s \<Rightarrow> free_frames s) = frame_pool (ucast tx_n) (unat rx_n)"
  proof (cases "d = DirTx")
    case True
    then show ?thesis using io n by (auto simp: ring_sizes_def frame_pool_def)
  next
    case False
    then show ?thesis using io(2) made_rx_facts(11) [OF _ assms(3)] sz by auto
  qed
  have "unat tx_n + unat rx_n = 4096" using n by (cases d) (auto simp: ring_sizes_def)
  then show ?thesis
    using frame_pool_append [of "ucast tx_n" 0 "unat tx_n" "unat rx_n"] io by (auto simp: tx rx u split: if_splits)
qed

theorem create_socket_divides_frames_witness:
  "\<exists>tr t r. create_socket sample_os sample_build 2 0 DirBoth None = (tr, Ok (Some t, Some r)) \<and>
     app_frames t @ free_frames r = frame_pool 0 4096"
proof -
  obtain tr t rxo where c: "create_socket sample_os sample_build 2 0 DirBoth None = (tr, Ok (Some t, rxo))"
    using sample_creates_tx [of DirBoth] by blast
  show ?thesis
    using create_socket_divides_frames [OF sample_os_ok(1-3) c] c by (cases rxo) auto
qed

section \<open>The receive socket after creation\<close>

text \<open>
  C27. A receive socket starts with packets that do not exist: no packet was received, and yet
  \<^verbatim>\<open>seek_n\<close> reports success for every count up to the size of the ring, without looking at the ring.
\<close>

theorem fresh_rx_reports_packets:
  assumes "os_ok os" "page_ok os" "zero_indices os"
    and made: "create_socket os b if_index if_queue d config = (tr, Ok (txo, Some s))"
    and n: "unat n \<le> unat (fst (ring_sizes d))"
  shows "received s = 0 \<and> socket_seek_n seek_rx b s n = (s, Ok n) \<and> 2048 \<le> unat (available s)"
proof -
  obtain rx_n tx_n where rn: "ring_sizes d = (rx_n, tx_n)" by fastforce
  obtain io where d: "d \<noteq> DirTx" "made_rx os rx_n tx_n io s"
    using create_socket_Ok [OF assms(1,2) rn made] by (auto split: if_splits)
  note sz = ring_sizes_ok(2) [OF rn d(1)] ring_sizes_ok(3) [OF rn]
  note f = made_rx_facts [OF d(2) assms(3) conjunct1 [OF sz(1)] conjunct2 [OF sz(1)] sz(2)]
  have "n \<le> ucast (available s)" using n f(2) by (simp add: rn word_le_nat_alt)
  moreover have "2048 \<le> unat rx_n" using frame_sizes_cases(2) [OF rn d(1)] by auto
  ultimately show ?thesis using f(2,3) by (simp add: socket_seek_n_def seek_rx_def)
qed

theorem fresh_rx_reports_packets_witness:
  "\<exists>tr t s. create_socket sample_os sample_build 2 0 DirRx None = (tr, Ok (t, Some s)) \<and>
     received s = 0 \<and> socket_seek_n seek_rx sample_build s 4096 = (s, Ok 4096)"
proof -
  obtain tr t s where c: "create_socket sample_os sample_build 2 0 DirRx None = (tr, Ok (t, Some s))"
    using sample_creates_rx [of DirRx] by blast
  show ?thesis
    using c fresh_rx_reports_packets [OF sample_os_ok(1-3) c, of 4096] by (auto simp: ring_sizes_def)
qed

text \<open>
  C28. The first \<^verbatim>\<open>commit()\<close> of a made receive socket takes the Fill ring back: its published producer index
  goes from the number of frames to 1, so that the kernel is left with one frame, the address in the
  never written slot 0 of the RX ring, and the consumer index of the RX ring passes its producer.
\<close>

theorem fresh_rx_commit_withdraws_frames:
  assumes "os_ok os" "page_ok os" "zero_indices os"
    and made: "create_socket os b if_index if_queue d config = (tr, Ok (txo, Some s))"
  shows "\<exists>s'. socket_commit commit_rx b s = (s', Ok ()) \<and>
    free_count s = unat (fst (ring_sizes d)) \<and> free_count s' = 1 \<and>
    free_frames s' = [d_addr (os_desc os XDP_PGOFF_RX_RING 0)] \<and>
    prod_ix (x_ring s') = 0 \<and> cons_ix (x_ring s') = 1"
proof -
  obtain rx_n tx_n where rn: "ring_sizes d = (rx_n, tx_n)" by fastforce
  obtain io where d: "d \<noteq> DirTx" "made_rx os rx_n tx_n io s"
    using create_socket_Ok [OF assms(1,2) rn made] by (auto split: if_splits)
  note sz = ring_sizes_ok(2) [OF rn d(1)] ring_sizes_ok(3) [OF rn]
  note f = made_rx_facts [OF d(2) assms(3) conjunct1 [OF sz(1)] conjunct2 [OF sz(1)] sz(2)]
  have "0 < unat rx_n" using sz(1) ring_size_pos by blast
  then have av: "ucast (1 :: usize) \<le> available s" using f(2) by (simp add: word_le_nat_alt)
  have u: "ring_ok (u_ring s)" using f(1) by (simp add: rings_rx_def)
  have fc: "free_count s = unat rx_n"
    using f(6,7) sz(1) by (simp add: free_count_def unat_ucast_64_32)
  let ?s = "released 1 s"
  have "free_count ?s = 1" using f(4,7) by (simp add: free_count_def released_def)
  moreover from this have "free_frames ?s = [d_addr (os_desc os XDP_PGOFF_RX_RING 0)]"
    using f(4,5,7,12) u
    by (simp add: free_frames_def window_Cons released_def rings.rd_wr_same)
  moreover have "prod_ix (x_ring ?s) = 0" "cons_ix (x_ring ?s) = 1"
    using f(5,8) by (simp_all add: released_def)
  moreover have "socket_commit commit_rx b s = (?s, Ok ())"
    using commit_rx_ok [OF f(1) av, of b] by (simp add: socket_commit_def)
  ultimately show ?thesis using fc by (simp add: rn)
qed

theorem fresh_rx_commit_withdraws_frames_witness:
  "\<exists>tr t s s'. create_socket sample_os sample_build 2 0 DirRx None = (tr, Ok (t, Some s)) \<and>
     free_count s = 4096 \<and> socket_commit commit_rx sample_build s = (s', Ok ()) \<and> free_frames s' = [0]"
proof -
  obtain tr t s where c: "create_socket sample_os sample_build 2 0 DirRx None = (tr, Ok (t, Some s))"
    using sample_creates_rx [of DirRx] by blast
  show ?thesis
    using c fresh_rx_commit_withdraws_frames [OF sample_os_ok(1-3) c]
    by (auto simp: ring_sizes_def sample_os_def)
qed

section \<open>The calls that were made\<close>

text \<open>A step that returns a value has only added calls to the run.\<close>

definition grows :: "os_run \<Rightarrow> os_run \<times> ('e, 'a) res \<Rightarrow> bool" where
  "grows tr p \<longleftrightarrow> (\<forall>tr' a. p = (tr', Ok a) \<longrightarrow> (\<exists>zs. tr' = tr @ zs))"

lemma grows_scoped:
  "grows tr p \<Longrightarrow> (\<And>a tr'. p = (tr', Ok a) \<Longrightarrow> grows tr' (k a tr')) \<Longrightarrow> grows tr (scoped os ds p k)"
  unfolding grows_def by (fastforce simp: scoped_Ok_iff)

lemma grows_result [simp]: "grows tr (tr, r)" "grows tr (tr', Err e)" "grows tr (tr', Panic)"
  by (simp_all add: grows_def)

lemma grows_call [simp]: "grows tr (tr @ [c], r)"
  by (simp add: grows_def)

lemma grows_steps:
  "grows tr (set_size os tr t fd n)" "grows tr (ring_offsets os tr fd)"
  by (simp_all add: set_size_def ring_offsets_def os_call_eq Let_def)

lemma grows_ring_type_mmap: "grows tr (ring_type_mmap os b tr contents sz t fd offsets n)"
  unfolding ring_type_mmap_def ring_map_def
  by (auto intro!: grows_scoped simp: mmap_ring_def os_call_eq Let_def split: prod.split)

lemma grows_map_rings:
  "grows tr (map_tx_rings os b tr fd offsets d n)" "grows tr (map_rx_rings os b tr fd offsets d n m)"
  unfolding map_tx_rings_def map_rx_rings_def
  by (auto intro!: grows_scoped grows_ring_type_mmap)

lemma grows_Ok: "grows tr p \<Longrightarrow> p = (tr', Ok a) \<Longrightarrow> set tr \<subseteq> set tr'"
  by (auto simp: grows_def)

text \<open>
  C29. A receive-only socket asks the kernel for a Fill ring of one entry, and then maps and fills a Fill
  ring of 4096 entries.
\<close>

theorem rx_fill_ring_size_mismatch:
  assumes "os_ok os" "page_ok os" "zero_indices os"
    and made: "create_socket os b if_index if_queue DirRx config = (tr, Ok (txo, Some s))"
  shows "(\<exists>fd a. (SysSetRing fd XDP_UMEM_FILL_RING 1, a) \<in> set tr) \<and>
    ring_cap (u_ring s) = 4096 \<and> free_count s = 4096"
proof -
  let ?fd = "a_ret (os_fun os [] SysSocketXdp)"
  have n: "ring_sizes DirRx = (FRAME_COUNT, 0)" by (simp add: ring_sizes_def)
  from made obtain tr1 tr2 tr3 tr4 tr5 offsets tr6 c t tr7 x f tr8 u1 u2 u3 u4 call where
      1: "set_size os tr1 FillRing ?fd 0 = (tr2, Ok u1)"
    and 2: "set_size os tr2 CompletionRing ?fd 0 = (tr3, Ok u2)"
    and 3: "(if (0 :: usize) < 0 then set_size os tr3 TxRing ?fd 0 else (tr3, Ok ())) = (tr4, Ok u3)"
    and 4: "(if 0 < FRAME_COUNT then set_size os tr4 RxRing ?fd FRAME_COUNT else (tr4, Ok ())) = (tr5, Ok u4)"
    and 5: "ring_offsets os tr5 ?fd = (tr6, Ok offsets)"
    and 6: "map_tx_rings os b tr6 ?fd offsets DirRx 0 = (tr7, Ok (c, t))"
    and 7: "map_rx_rings os b tr7 ?fd offsets DirRx FRAME_COUNT 0 = (tr8, Ok (x, f))"
    and 8: "tr = tr8 @ [call]"
    by (simp only: create_socket_def n os_call_eq Let_def prod.case failing_call_Ok_iff scoped_Ok_iff
        split_paired_Ex append_Nil res.inject prod.inject) blast
  have "set tr2 \<subseteq> set tr3" using grows_steps(1) 2 by (rule grows_Ok)
  also have "\<dots> \<subseteq> set tr4" using 3 by simp
  also have "\<dots> \<subseteq> set tr5" using 4 grows_Ok [OF grows_steps(1)] by (auto simp: FRAME_COUNT_def)
  also have "\<dots> \<subseteq> set tr6" using grows_steps(2) 5 by (rule grows_Ok)
  also have "\<dots> \<subseteq> set tr7" using grows_map_rings(1) 6 by (rule grows_Ok)
  also have "\<dots> \<subseteq> set tr8" using grows_map_rings(2) 7 by (rule grows_Ok)
  also have "\<dots> \<subseteq> set tr" using 8 by auto
  finally have "set tr2 \<subseteq> set tr" .
  moreover have "tr2 = tr1 @ [(SysSetRing ?fd XDP_UMEM_FILL_RING 1, os_fun os tr1 (SysSetRing ?fd XDP_UMEM_FILL_RING 1))]"
    using 1 by (simp add: set_size_def os_call_eq Let_def split: if_splits)
  ultimately have "(SysSetRing ?fd XDP_UMEM_FILL_RING 1, os_fun os tr1 (SysSetRing ?fd XDP_UMEM_FILL_RING 1)) \<in> set tr"
    by auto
  moreover obtain io where "made_rx os FRAME_COUNT 0 io s"
    using create_socket_Ok [OF assms(1,2) _ made, of FRAME_COUNT 0] by (auto simp: ring_sizes_def)
  ultimately show ?thesis
    using made_rx_facts [OF _ assms(3), of FRAME_COUNT 0 io s] by (auto simp: free_count_def)
qed

theorem rx_fill_ring_size_mismatch_witness:
  "\<exists>tr t s. create_socket sample_os sample_build 2 0 DirRx None = (tr, Ok (t, Some s)) \<and>
     (\<exists>fd a. (SysSetRing fd XDP_UMEM_FILL_RING 1, a) \<in> set tr) \<and> ring_cap (u_ring s) = 4096"
proof -
  obtain tr t s where c: "create_socket sample_os sample_build 2 0 DirRx None = (tr, Ok (t, Some s))"
    using sample_creates_rx [of DirRx] by blast
  show ?thesis
    using c rx_fill_ring_size_mismatch [OF sample_os_ok(1-3) c] by blast
qed

text \<open>
  The three wrappers of \<^verbatim>\<open>create_socket\<close> return sockets exactly when it does for their direction, and
  the sockets it made: their own error messages are never reached.
\<close>

theorem create_wrappers:
  assumes "os_ok os" "page_ok os"
  shows "(create_tx_socket os b if_index if_queue config = (tr, Ok s) \<longleftrightarrow>
      create_socket os b if_index if_queue DirTx config = (tr, Ok (Some s, None))) \<and>
    (create_rx_socket os b if_index if_queue config = (tr, Ok r) \<longleftrightarrow>
      create_socket os b if_index if_queue DirRx config = (tr, Ok (None, Some r))) \<and>
    (create_bi_socket os b if_index if_queue config = (tr, Ok (s, r)) \<longleftrightarrow>
      create_socket os b if_index if_queue DirBoth config = (tr, Ok (Some s, Some r)))"
proof -
  have "(txo = None \<longleftrightarrow> d = DirRx) \<and> (rxo = None \<longleftrightarrow> d = DirTx)"
    if "create_socket os b if_index if_queue d config = (tr', Ok (txo, rxo))" for d tr' txo rxo
    using create_socket_Ok [OF assms _ that] by (cases "ring_sizes d") (auto split: if_splits)
  note shape = this
  have ok: "ok_or_else x e = Ok v \<longleftrightarrow> x = Some v" for x :: "socket option" and e v
    by (cases x) (simp_all add: ok_or_else_def)
  show ?thesis
    unfolding create_tx_socket_def create_rx_socket_def create_bi_socket_def and_then_Ok_iff
    by (auto simp: res_then_Ok_iff ok dest: shape)
qed

theorem create_wrappers_witness:
  "\<exists>tr s. create_tx_socket sample_os sample_build 2 0 None = (tr, Ok s)"
proof -
  obtain tr s rx where c: "create_socket sample_os sample_build 2 0 DirTx None = (tr, Ok (Some s, rx))"
    using sample_creates_tx [of DirTx] by blast
  then have "rx = None" using create_socket_Ok [OF sample_os_ok(1,2) _ c] by (auto simp: ring_sizes_def)
  then show ?thesis
    using c create_wrappers [OF sample_os_ok(1,2), of sample_build 2 0 None tr s] by blast
qed

end
