(* ===== verification/Ring_Properties.thy ===== *)
theory Ring_Properties
  imports Sample Rx
begin

unbundle bit_operations_syntax

text \<open>
  Properties of the ring operations of \<^verbatim>\<open>ring.rs\<close> on their own, and of a socket that was made with
  \<^verbatim>\<open>Default\<close>.
\<close>

text \<open>
  \<^verbatim>\<open>fill\<close> gives every slot of a well-formed ring the frame of its number, counted from the start
  frame, in every build, and changes neither the size nor the indices of the ring; no assertion or
  overflow check fails as long as the frame numbers fit in 32 bits.
\<close>

theorem fill_assigns_frames:
  assumes "ring_ok r" "unat start + ring_cap r \<le> 2 ^ 32"
  shows "\<exists>r'. fill_desc b r start = Ok r' \<and> ring_ok r' \<and> ring_len r' = ring_len r \<and>
    prod_ix r' = prod_ix r \<and> cons_ix r' = cons_ix r \<and>
    window (slot_rd r') 0 (ring_cap r) =
      map (\<lambda>k. \<lparr>d_addr = frame_addr (unat start + k), d_len = 0, d_options = 0\<rparr>) [0..<ring_cap r]"
  using fill_desc_filled [OF assms, of b]
  by (auto simp: filled_with_def same_indices_def frame_desc_def)

theorem fill_assigns_frames_witness:
  "\<exists>r'. fill_desc sample_build (small_ring 1 1 (replicate 2 \<lparr>d_addr = 7, d_len = 7, d_options = 7\<rparr>)) 2048 =
      (Ok r' :: (io_error, xdp_desc ring) res) \<and>
     d_addr (slot_rd r' 1) = 2049 * 2048"
proof -
  let ?r = "small_ring 1 1 (replicate 2 \<lparr>d_addr = 7, d_len = 7, d_options = 7\<rparr>) :: xdp_desc ring"
  obtain r' where r': "fill_desc sample_build ?r 2048 = (Ok r' :: (io_error, xdp_desc ring) res)"
    "window (slot_rd r') 0 2 = map (\<lambda>k. \<lparr>d_addr = frame_addr (2048 + k), d_len = 0, d_options = 0\<rparr>) [0..<2]"
    using fill_assigns_frames [of ?r 2048 sample_build] by auto
  have "slot_rd r' 1 = window (slot_rd r') 0 2 ! 1" by simp
  also have "\<dots> = \<lparr>d_addr = frame_addr 2049, d_len = 0, d_options = 0\<rparr>"
    by (simp only: r'(2)) simp
  finally have "d_addr (slot_rd r' 1) = 2049 * 2048" by (simp add: frame_addr_def)
  then show ?thesis using r'(1) by blast
qed

text \<open>
  The index that \<^verbatim>\<open>increment\<close> gives is always inside the ring and is the next one modulo its size,
  for every starting value; in a build without overflow checks it always gives one.
\<close>

theorem increment_wraps:
  assumes "ring_ok r"
  shows "(\<forall>w. increment b r v = (Ok w :: ('e, u32) res) \<longrightarrow> unat w < ring_cap r \<and> unat w = (unat v + 1) mod ring_cap r) \<and>
    ((increment b r v :: ('e, u32) res) \<in> range Ok \<longleftrightarrow> \<not> (debug_assertions b \<and> unat v + 1 = 2 ^ 32))"
proof -
  have "1 \<le> ring_len r"
    using ring_size_pos [OF ring_okD(3) [OF assms]] by (simp add: ring_cap_def word_le_nat_alt)
  then have "(increment b r v :: ('e, u32) res) \<in> range Ok \<longleftrightarrow> \<not> (debug_assertions b \<and> 2 ^ 32 \<le> unat v + unat (1 :: u32))"
    by (auto simp: increment_def add_chk_def image_iff)
  moreover have "2 ^ 32 \<le> unat v + unat (1 :: u32) \<longleftrightarrow> unat v + 1 = 2 ^ 32"
    using unat_lt_u32 [of v] by simp linarith
  ultimately show ?thesis using increment_lt [OF assms] by blast
qed

theorem increment_wraps_witness:
  "\<exists>w. increment sample_build (small_ring 0 0 [0, 0, 0, 0 :: u64]) 7 = (Ok w :: (io_error, u32) res) \<and> unat w = 0"
proof -
  let ?r = "small_ring 0 0 [0, 0, 0, 0 :: u64]"
  have "ring_ok ?r" "ring_cap ?r = 4" by simp_all
  then show ?thesis using increment_wraps [of ?r sample_build 7, where ?'e = io_error] by fastforce
qed

text \<open>
  The safety checks of \<^verbatim>\<open>mut_bytes_at\<close>: whatever index, descriptor and length it is given, the call
  panics or returns a slice that lies inside the frames of the UMEM, provided that the address plus the
  length does not wrap around.
\<close>

theorem mut_bytes_at_stays_inside:
  assumes "safety_checks b" "ring_ok r" "8388608 \<le> n"
    and "unat (d_addr (slot_rd r i)) + unat len < 2 ^ 64"
  shows "snd (mut_bytes_at b r (Some n) (i AND mod_mask r) len) = Panic \<or>
    (\<exists>s. snd (mut_bytes_at b r (Some n) (i AND mod_mask r) len) = Ok s \<and>
       sl_off s = unat (d_addr (slot_rd r i)) \<and> sl_len s = unat len \<and> sl_off s + sl_len s < 8388608)"
proof -
  have "unat (d_addr (slot_rd r i) + len) = unat (d_addr (slot_rd r i)) + unat len"
    using assms(4) by (simp add: unat_word_ariths(1))
  then show ?thesis
    using assms
    by (auto simp: mut_bytes_at_def ring_simps word_less_nat_alt FRAME_SIZE_def FRAME_COUNT_def add_chk_def)
qed

theorem mut_bytes_at_stays_inside_witness:
  "snd (mut_bytes_at sample_build (x_ring small_tx) (Some 8388608) (2 AND mod_mask (x_ring small_tx)) 60) = Panic \<or>
   (\<exists>s. snd (mut_bytes_at sample_build (x_ring small_tx) (Some 8388608) (2 AND mod_mask (x_ring small_tx)) 60) = Ok s \<and>
      sl_off s = 4096)"
proof -
  have "ring_ok (x_ring small_tx)" "d_addr (slot_rd (x_ring small_tx) 2) = 4096"
    by (simp_all add: small_tx_def slot_rd_def)
  then show ?thesis
    using mut_bytes_at_stays_inside [of sample_build "x_ring small_tx" 8388608 2 60] by auto
qed

text \<open>
  \<^verbatim>\<open>set\<close> with its checks: an index of a frame that does not exist and a length of a frame or more
  panic, and otherwise the slot gets the frame of its own number and no other slot changes.
\<close>

theorem set_desc_outcome:
  assumes "ring_ok r" "safety_checks b" "unat index < ring_cap r"
  shows "(4096 \<le> unat index \<or> 2048 \<le> unat len \<longrightarrow> set_desc b r index len = Panic) \<and>
    (unat index < 4096 \<and> unat len < 2048 \<longrightarrow>
      (\<exists>r'. set_desc b r index len = Ok r' \<and> ring_ok r' \<and>
        slot_rd r' index = \<lparr>d_addr = frame_addr (unat index), d_len = len, d_options = 0\<rparr> \<and>
        (\<forall>j. unat j < ring_cap r \<and> j \<noteq> index \<longrightarrow> slot_rd r' j = slot_rd r j)))"
proof -
  have chk: "index < ucast FRAME_COUNT \<longleftrightarrow> unat index < 4096" "len < ucast FRAME_SIZE \<longleftrightarrow> unat len < 2048"
    by (simp_all add: word_less_nat_alt FRAME_COUNT_def FRAME_SIZE_def)
  have other: "slot_rd (slot_wr r index v) j = slot_rd r j" if "unat j < ring_cap r" "j \<noteq> index" for j v
    using that assms(1,3) by (intro rings.rd_wr_other) (auto simp: word_unat_eq_iff)
  show ?thesis
    using assms other by (auto simp: set_desc_def chk mut_desc_at_direct ucast_times_frame_size rings.rd_wr_same)
qed

theorem set_desc_outcome_witness:
  "set_desc sample_build (x_ring small_tx) 3 2048 = Panic \<and>
   (\<exists>r'. set_desc sample_build (x_ring small_tx) 3 64 = Ok r' \<and> d_len (slot_rd r' 3) = 64)"
proof -
  have "ring_ok (x_ring small_tx)" "ring_cap (x_ring small_tx) = 4" by (simp_all add: small_tx_def)
  then show ?thesis
    using set_desc_outcome [of "x_ring small_tx" sample_build 3 2048] set_desc_outcome [of "x_ring small_tx" sample_build 3 64]
    by auto
qed

text \<open>
  A socket made with the public \<^verbatim>\<open>Default\<close> has null pointers: from safe code, \<^verbatim>\<open>seek\<close> in both
  directions, a commit of nothing and \<^verbatim>\<open>kick\<close> dereference them.
\<close>

theorem default_socket_undefined:
  "snd (socket_seek seek_tx b socket_default) = Undef \<and> snd (socket_seek seek_rx b socket_default) = Undef \<and>
   snd (socket_commit_n commit_tx b socket_default 0) = Undef \<and>
   snd (socket_commit_n commit_rx b socket_default 0) = Undef \<and> snd (kick env socket_default) = Undef"
  by (simp add: socket_seek_def socket_commit_n_def seek_tx_def seek_rx_def commit_tx_def commit_rx_def
      socket_default_def ring_default_def ring_mmap_default_def ring_producer_def update_producer_def
      update_consumer_def with_cells_def kick_def Let_def)

end
