(* ===== verification/Io_Properties.thy ===== *)
theory Io_Properties
  imports Sample
begin

unbundle bit_operations_syntax

text \<open>
  Properties of waking and waiting (\<^verbatim>\<open>kick.rs\<close>, \<^verbatim>\<open>poll.rs\<close>, \<^verbatim>\<open>send_blocking\<close>) and of the UMEM mapping
  (\<^verbatim>\<open>mmap.rs\<close>).
\<close>

section \<open>Waking and waiting\<close>

text \<open>
  \<^verbatim>\<open>kick\<close> calls \<^verbatim>\<open>sendto\<close> exactly when the kernel has set its need-wakeup flag, once and on the
  descriptor of the socket; the only errors it reports are those of \<^verbatim>\<open>sendto\<close> other than the four that a
  busy or stopped device gives.
\<close>

theorem kick_outcome:
  assumes "ring_ok (x_ring s)" and "sys_sendto env (raw_fd s) = (ret, e)"
    and "need = (flags_ix (the_cells (x_ring s)) AND xdp_ring_need_wakeup env \<noteq> 0)"
  shows "fst (kick env s) = (if need then [raw_fd s] else []) \<and>
    snd (kick env s) =
      (if need \<and> ret < 0 \<and> e \<notin> {None, Some EBUSY, Some ENOBUFS, Some EAGAIN, Some ENETDOWN}
       then Err (OsError (the e)) else Ok ())"
  using assms by (cases e rule: kick_error.cases) (auto simp: kick_def ring_okD(1) Let_def)

definition sample_env :: libc_env where
  "sample_env = \<lparr>xdp_ring_need_wakeup = 1, pollin = 1, pollout = 4, sys_sendto = (\<lambda>fd. (- 1, Some (Errno 9))),
     sys_poll = (\<lambda>i. if i < 3 then (- 1, 0) else if i < 5 then (1, 8) else (1, 4))\<rparr>"

theorem kick_outcome_witness:
  "kick sample_env small_tx = ([3], Err (OsError (Errno 9)))"
proof -
  have "ring_ok (x_ring small_tx)" "sys_sendto sample_env (raw_fd small_tx) = (- 1, Some (Errno 9))"
    "flags_ix (the_cells (x_ring small_tx)) AND xdp_ring_need_wakeup sample_env \<noteq> 0" "raw_fd small_tx = 3"
    by (simp_all add: small_tx_def sample_env_def the_cells_def)
  then show ?thesis using kick_outcome [of small_tx sample_env "- 1" "Some (Errno 9)" True]
    by (cases "kick sample_env small_tx") simp
qed

text \<open>
  C40. \<^verbatim>\<open>poll_wait\<close> first wakes the kernel: if it has asked for that and \<^verbatim>\<open>sendto\<close> fails with another error than the four of a busy
  or stopped device, that error is returned at once. Otherwise it returns if and only if some call of \<^verbatim>\<open>poll\<close> succeeds and reports the
  awaited event, after the first such call, and then it returns success: no timeout ends the wait, and neither does a failing \<^verbatim>\<open>poll\<close>
  nor an error event.
\<close>

theorem poll_wait_outcome:
  assumes "ring_ok (x_ring s)" "sys_sendto env (raw_fd s) = (ret, e)"
    and "need = (flags_ix (the_cells (x_ring s)) AND xdp_ring_need_wakeup env \<noteq> 0)"
    and "msk = (if t then pollout env else pollin env)"
    and "ready = (\<lambda>i. 0 \<le> fst (sys_poll env i) \<and> snd (sys_poll env i) AND msk \<noteq> 0)"
  shows "poll_wait env t s timeout =
      (if need \<and> ret < 0 \<and> e \<notin> {None, Some EBUSY, Some ENOBUFS, Some EAGAIN, Some ENETDOWN}
       then Some (Err (OsError (the e)))
       else if \<exists>i. ready i then Some (Ok ()) else None) \<and>
    (poll_loop (sys_poll env) msk 0 = Some n \<longleftrightarrow> ready n \<and> (\<forall>m < n. \<not> ready m))"
proof -
  have ready: "ready = poll_ready (sys_poll env) msk" by (simp add: assms(5) poll_ready_def fun_eq_iff)
  have first: "poll_loop (sys_poll env) msk 0 = Some n \<longleftrightarrow> ready n \<and> (\<forall>m < n. \<not> ready m)" for n
  proof
    assume n: "poll_loop (sys_poll env) msk 0 = Some n"
    then obtain k where "ready k" "\<forall>m < k. \<not> ready m"
      using poll.returns_iff [of "sys_poll env" msk] exists_least_iff [of ready] unfolding ready by blast
    then show "ready n \<and> (\<forall>m < n. \<not> ready m)" using n poll.finds_first [of "sys_poll env" msk k] unfolding ready by simp
  qed (use poll.finds_first in \<open>auto simp: ready\<close>)
  have "(\<exists>n. poll_loop (sys_poll env) msk 0 = Some n) \<longleftrightarrow> (\<exists>i. ready i)" unfolding ready by (rule poll.returns_iff)
  then show ?thesis
    using kick_outcome [OF assms(1-3)] first [of n]
    by (cases "poll_loop (sys_poll env) msk 0") (auto simp: poll_wait_def assms(4) [symmetric])
qed

theorem poll_wait_outcome_witness:
  "poll_wait (sample_env\<lparr>sys_sendto := (\<lambda>fd. (0, None))\<rparr>) True small_tx (Some 10) = Some (Ok ()) \<and>
   poll_wait (sample_env\<lparr>sys_sendto := (\<lambda>fd. (0, None))\<rparr>) False small_tx (Some 10) = None \<and>
   poll_wait sample_env True small_tx (Some 10) = Some (Err (OsError (Errno 9)))"
proof -
  let ?e = "sample_env\<lparr>sys_sendto := (\<lambda>fd. (0, None))\<rparr>"
  have x: "ring_ok (x_ring small_tx)" by (simp add: small_tx_def)
  have s: "sys_sendto ?e (raw_fd small_tx) = (0, None)" "sys_sendto sample_env (raw_fd small_tx) = (- 1, Some (Errno 9))"
    "flags_ix (the_cells (x_ring small_tx)) AND xdp_ring_need_wakeup sample_env \<noteq> 0"
    by (simp_all add: small_tx_def sample_env_def the_cells_def)
  have "fst (sys_poll ?e 5) = 1" "snd (sys_poll ?e 5) AND pollout ?e \<noteq> 0"
    "\<And>i. snd (sys_poll ?e i) AND pollin ?e = 0"
    by (simp_all add: sample_env_def)
  then show ?thesis
    using poll_wait_outcome [OF x s(1) refl refl refl, of True "Some 10"] poll_wait_outcome [OF x s(1) refl refl refl, of False "Some 10"]
      poll_wait_outcome [OF x s(2) refl refl refl, of True "Some 10"] s(3)
    by (auto, metis zero_le_one)
qed

text \<open>
  \<^verbatim>\<open>send_blocking\<close> fails exactly as \<^verbatim>\<open>send\<close> fails; when the packet was queued it keeps the state of
  \<^verbatim>\<open>send\<close>, and it returns if and only if the wakeup fails or some \<^verbatim>\<open>poll\<close> reports that the socket is
  writable.
\<close>

theorem send_blocking_outcome:
  assumes "send b (s, mem) data header = (w', r)" and "ready = (\<exists>i. poll_ready (sys_poll env) (pollout env) i)"
  shows "send_blocking env b (s, mem) data header =
    (case r of
       Ok _ \<Rightarrow>
         (case snd (kick env (fst w')) of
            Ok _ \<Rightarrow> (if ready then Some (w', Ok ()) else None)
          | k \<Rightarrow> Some (w', map_err Io k))
     | r \<Rightarrow> Some (w', r))"
proof (cases r)
  case (Ok u)
  show ?thesis
  proof (cases "snd (kick env (fst w'))")
    case k: (Ok v)
    then have "poll_wait env True (fst w') None = (if ready then Some (Ok ()) else None)"
      using poll.returns_iff [of "sys_poll env" "pollout env"]
      by (cases "poll_loop (sys_poll env) (pollout env) 0") (auto simp: poll_wait_def assms(2))
    then show ?thesis using k Ok assms(1) by (simp add: send_blocking_def)
  qed (use Ok assms(1) in \<open>simp_all add: send_blocking_def poll_wait_def\<close>)
qed (use assms(1) in \<open>simp_all add: send_blocking_def\<close>)

theorem send_blocking_outcome_witness:
  "\<exists>w' r. send sample_build (small_tx\<lparr>available := 0\<rparr>, []) [1] None = (w', r) \<and>
     send_blocking sample_env sample_build (small_tx\<lparr>available := 0\<rparr>, []) [1] None = Some (w', Err InvalidIndex)"
proof -
  let ?s = "small_tx\<lparr>available := 0\<rparr>"
  have s: "send sample_build (?s, []) [1] None = ((?s, []), Err InvalidIndex)"
    by (simp add: send_def Let_def peek_tx_0_def peek_tx_def small_tx_def)
  show ?thesis using send_blocking_outcome [OF s refl, of sample_env] s by auto
qed

section \<open>The UMEM mapping\<close>

text \<open>
  The size of a UMEM mapping is the asked size rounded up: for a power-of-two page the result is the
  least multiple of the page that is not smaller, and no overflow check fails, as long as size and page
  together fit in 64 bits.
\<close>

theorem align_up_least_multiple:
  assumes "k < 64" "unat page = 2 ^ k" "unat len + 2 ^ k < 2 ^ 64"
  shows "\<exists>a. align_up b len page = Ok a \<and> 2 ^ k dvd unat a \<and> unat len \<le> unat a \<and>
    (\<forall>m. 2 ^ k dvd m \<and> unat len \<le> m \<longrightarrow> unat a \<le> m)"
proof -
  obtain a where a: "align_up b len page = Ok a" "unat a = (unat len + 2 ^ k - 1) div 2 ^ k * 2 ^ k"
    using align_up_ok [OF assms] by blast
  note bounds = round_up_bounds [of "2 ^ k" "unat len"]
  have "unat a \<le> m" if m: "2 ^ k dvd m" "unat len \<le> m" for m
  proof (rule ccontr)
    assume "\<not> unat a \<le> m"
    moreover have "2 ^ k dvd unat a" by (simp add: a(2))
    ultimately have "2 ^ k \<le> unat a - m" using m(1) by (intro dvd_imp_le) (auto intro: dvd_diff_nat)
    then show False using bounds m(2) \<open>\<not> unat a \<le> m\<close> by (simp add: a(2))
  qed
  then show ?thesis using a bounds by (intro exI [of _ a]) simp
qed

theorem align_up_least_multiple_witness:
  "\<exists>a. align_up sample_build 8388609 4096 = Ok a \<and> 4096 dvd unat a \<and> 8388609 \<le> unat a"
  using align_up_least_multiple [of 12 4096 8388609 sample_build] by auto

definition fold_lines :: "(string \<times> nat \<times> nat \<times> bool) list \<Rightarrow> hugepage_info \<Rightarrow> hugepage_info" where
  "fold_lines es i = fold (\<lambda>(key, pad, n, kb) i. store_value i key (of_nat n)) es i"

lemma meminfo_lines_print:
  "\<forall>(key, pad, n, kb) \<in> set es. key_ok key \<and> n < 2 ^ 64 \<Longrightarrow>
    meminfo_lines i (map (\<lambda>e. Ok (print_line e)) es) = Ok (fold_lines es i)"
  by (induction es arbitrary: i) (auto simp: meminfo_line_print fold_lines_def)

lemma fold_lines_simps [simp]:
  "fold_lines [] i = i"
  "fold_lines ((key, pad, n, kb) # es) i = fold_lines es (store_value i key (of_nat n))"
  "fold_lines (xs @ ys) i = fold_lines ys (fold_lines xs i)"
  by (simp_all add: fold_lines_def)

lemma fold_lines_absent:
  "''Hugepagesize'' \<notin> fst ` set es \<Longrightarrow> size_kb (fold_lines es i) = size_kb i"
  "''HugePages_Free'' \<notin> fst ` set es \<Longrightarrow> free (fold_lines es i) = free i"
  by (induction es arbitrary: i) (auto simp: store_value_def)

lemma fold_lines_present:
  assumes "distinct (map fst es)"
  shows "(''Hugepagesize'', pad, n, kb) \<in> set es \<Longrightarrow> size_kb (fold_lines es i) = Some (of_nat n)"
    "(''HugePages_Free'', pad, n, kb) \<in> set es \<Longrightarrow> free (fold_lines es i) = Some (of_nat n)"
  using assms by (auto dest!: split_list simp: fold_lines_absent store_value_def)

text \<open>
  Huge pages are chosen from what the kernel prints: for a \<^verbatim>\<open>/proc/meminfo\<close> whose lines are keys, a
  colon, any padding, a decimal number and an optional unit, with distinct keys, the parser succeeds and
  huge pages are used exactly when the huge page size is 2048 kB and some are free.
\<close>

theorem use_huge_decision:
  assumes "os_meminfo os = Ok (map (\<lambda>e. Ok (print_line e)) es)"
    and "\<forall>(key, pad, n, kb) \<in> set es. key_ok key \<and> n < 2 ^ 64" and "distinct (map fst es)"
  shows "use_huge os None =
    Ok ((\<exists>pad kb. (''Hugepagesize'', pad, 2048, kb) \<in> set es) \<and>
        (\<exists>pad n kb. (''HugePages_Free'', pad, n, kb) \<in> set es \<and> 0 < n))"
proof -
  let ?i = "fold_lines es hugepage_info_default"
  have info: "get_hugepage_info os = Ok ?i"
    using assms(1,2) by (simp add: get_hugepage_info_def meminfo_lines_print)
  have uniq: "p = p'" if "(key, p) \<in> set es" "(key, p') \<in> set es" for key p p'
    using that assms(3) by (metis eq_key_imp_eq_value)
  have small: "n < 2 ^ 64" if "(key, pad, n, kb) \<in> set es" for key pad n kb using that assms(2) by auto
  show ?thesis
  proof (cases "''Hugepagesize'' \<in> fst ` set es \<and> ''HugePages_Free'' \<in> fst ` set es")
    case True
    then obtain p1 n1 k1 p2 n2 k2 where e: "(''Hugepagesize'', p1, n1, k1) \<in> set es" "(''HugePages_Free'', p2, n2, k2) \<in> set es"
      by auto
    have "size_kb ?i = Some (of_nat n1)" "free ?i = Some (of_nat n2)"
      using fold_lines_present [OF assms(3)] e by blast+
    then have "use_huge os None = Ok ((of_nat n1 :: u64) = 2048 \<and> 0 < (of_nat n2 :: u64))"
      by (simp add: use_huge_def info)
    moreover have "(of_nat n1 :: u64) = 2048 \<longleftrightarrow> n1 = 2048" "0 < (of_nat n2 :: u64) \<longleftrightarrow> 0 < n2"
      using small [OF e(1)] small [OF e(2)] by (simp_all add: word_unat_eq_iff unat_of_nat_u64 word_less_nat_alt)
    moreover have "(\<exists>pad kb. (''Hugepagesize'', pad, 2048, kb) \<in> set es) \<longleftrightarrow> n1 = 2048"
      using e(1) uniq [OF e(1)] by blast
    moreover have "(\<exists>pad n kb. (''HugePages_Free'', pad, n, kb) \<in> set es \<and> 0 < n) \<longleftrightarrow> 0 < n2"
      using e(2) uniq [OF e(2)] by blast
    ultimately show ?thesis by (simp only:)
  next
    case False
    then have "size_kb ?i = None \<or> free ?i = None"
      using fold_lines_absent [of es hugepage_info_default] by (auto simp: hugepage_info_default_def)
    then have "use_huge os None = Ok False" by (auto simp: use_huge_def info split: option.split)
    then show ?thesis using False by force
  qed
qed

theorem use_huge_decision_witness:
  "use_huge (sample_os\<lparr>os_meminfo := Ok (map (\<lambda>e. Ok (print_line e))
     [(''MemTotal'', 7, 16384, True), (''HugePages_Free'', 7, 12, False), (''Hugepagesize'', 7, 2048, True)])\<rparr>) None = Ok True"
  by (subst use_huge_decision [where es = "[(''MemTotal'', 7, 16384, True), (''HugePages_Free'', 7, 12, False),
        (''Hugepagesize'', 7, 2048, True)]"]) (auto simp: key_ok_def is_space_def)

end
