(* ===== verification/Netlink.thy ===== *)
theory Netlink
  imports Prelude
begin

text \<open>
  \<^verbatim>\<open>xdp-util/src/netlink.rs\<close>: the request and response loop, the four queries with their message
  handlers, and the choice of the default gateway.

  The netlink crates are not part of the repository. The socket and the deserializer are the fields of
  \<open>nl_env\<close>, an argument of every query; of the message types, the constructors that the code matches on
  are here, and all others are one constructor \<open>Other\<dots>\<close>.
\<close>

section \<open>Data\<close>

text \<open>Addresses are 32-bit words, hardware addresses six bytes.\<close>

type_synonym ipv4 = "32 word"
type_synonym mac = "u8 list"

definition mac_zero :: mac where "mac_zero = [0, 0, 0, 0, 0, 0]"

record link =
  l_if_index :: u32
  l_name :: string
  l_mtu :: u32
  l_mac :: mac

record ipv4_route =
  dest_prefix :: u8
  destination :: ipv4
  gateway :: "ipv4 option"
  out_if_index :: "u32 option"
  priority :: u32

record neighbor =
  n_ip :: ipv4
  n_mac :: mac
  n_if_index :: u32

record gateway_rec =
  g_ip :: ipv4
  g_priority :: u32
  g_if_index :: u32

datatype neigh_attr = NeighDestination ipv4 | NeighLinkLocalAddress "u8 list" | OtherNeighAttr
datatype route_attr =
    RouteDestination ipv4 | RouteGateway ipv4 | RouteOif u32 | RoutePriority u32 | OtherRouteAttr
datatype addr_attr = AddrAddressV4 ipv4 | OtherAddrAttr
datatype link_attr = LinkIfName string | LinkMtu u32 | LinkAddress "u8 list" | OtherLinkAttr

datatype nl_payload =
    NewNeighbour (nn_ifindex: u32) (nn_attrs: "neigh_attr list")
  | NewRoute (nr_prefix_len: u8) (nr_attrs: "route_attr list")
  | NewAddress (na_index: u32) (na_attrs: "addr_attr list")
  | NewLink (nk_index: u32) (nk_attrs: "link_attr list")
  | OtherPayload

record nl_message =
  nl_length :: u32
  nl_payload :: nl_payload

datatype nl_request = GetNeighbour | GetRoute | GetAddress | GetLink

text \<open>
  \<open>nl_serialize\<close> is the request with its flags as bytes, \<open>nl_send\<close> gives the number of bytes sent,
  \<open>nl_recv\<close> one datagram of the answer to a request.
\<close>

record nl_env =
  nl_socket :: "(io_error, unit) res"
  nl_bind :: "(io_error, unit) res"
  nl_serialize :: "nl_request \<Rightarrow> u8 list"
  nl_send :: "u8 list \<Rightarrow> (io_error, nat) res"
  nl_recv :: "nl_request \<Rightarrow> (io_error, u8 list) res"
  nl_deserialize :: "u8 list \<Rightarrow> (string, nl_message) res"

section \<open>The message loop\<close>

lemma res_then_cong [fundef_cong]:
  "r = r' \<Longrightarrow> (\<And>a. r' = Ok a \<Longrightarrow> k a = k' a) \<Longrightarrow> res_then r k = res_then r' k'"
  by (cases r') simp_all

text \<open>Every round takes a positive number of bytes off the buffer, or ends with an error.\<close>

function netlink_loop ::
  "(u8 list \<Rightarrow> (string, nl_message) res) \<Rightarrow> (nl_message \<Rightarrow> (io_error, 'r option) res) \<Rightarrow>
    u8 list \<Rightarrow> 'r list \<Rightarrow> (io_error, 'r list) res"
where
  "netlink_loop deser f buf result =
     (if buf = [] then Ok result
      else res_then (map_err OtherError (deser buf)) (\<lambda>msg.
        let len = unat (nl_length msg)
        in res_then (f msg) (\<lambda>r.
           let result' = (case r of Some x \<Rightarrow> result @ [x] | None \<Rightarrow> result)
           in if len = 0 \<or> length buf < len
              then Err (OtherError ''Received a malformed netlink message (invalid length)'')
              else netlink_loop deser f (drop len buf) result')))"
  by pat_completeness auto
termination
  by (relation "measure (\<lambda>(deser, f, buf, result). length buf)") auto

declare netlink_loop.simps [simp del]

definition netlink ::
  "nl_env \<Rightarrow> nl_request \<Rightarrow> (nl_message \<Rightarrow> (io_error, 'r option) res) \<Rightarrow> (io_error, 'r list) res" where
  "netlink env req f =
     res_then (nl_socket env) (\<lambda>_.
     res_then (nl_bind env) (\<lambda>_.
     let send_buf = nl_serialize env req
     in res_then (nl_send env send_buf) (\<lambda>n.
        if n \<noteq> length send_buf then Err (OtherError ''Failed to send request'')
        else res_then (nl_recv env req) (\<lambda>recv_buf.
             netlink_loop (nl_deserialize env) f recv_buf []))))"

section \<open>Message handlers\<close>

text \<open>\<^verbatim>\<open>if_index.is_some_and(|x| x != y)\<close>\<close>

definition filtered_out :: "u32 option \<Rightarrow> u32 \<Rightarrow> bool" where
  "filtered_out if_index y = (case if_index of Some x \<Rightarrow> x \<noteq> y | None \<Rightarrow> False)"

text \<open>The loops over the attributes; \<open>None\<close> is an early return of \<^verbatim>\<open>Ok(None)\<close>.\<close>

fun neighbor_attrs :: "neigh_attr list \<Rightarrow> neighbor \<Rightarrow> neighbor option" where
  "neighbor_attrs [] n = Some n"
| "neighbor_attrs (NeighDestination ip # as) n = neighbor_attrs as (n\<lparr>n_ip := ip\<rparr>)"
| "neighbor_attrs (NeighLinkLocalAddress m # as) n =
     (if length m = 6 then neighbor_attrs as (n\<lparr>n_mac := m\<rparr>) else None)"
| "neighbor_attrs (OtherNeighAttr # as) n = neighbor_attrs as n"

definition neighbor_msg :: "u32 option \<Rightarrow> nl_message \<Rightarrow> (io_error, neighbor option) res" where
  "neighbor_msg if_index msg =
     (case nl_payload msg of
        NewNeighbour ix attrs \<Rightarrow>
          if filtered_out if_index ix then Ok None
          else Ok (neighbor_attrs attrs \<lparr>n_ip = 0, n_mac = mac_zero, n_if_index = ix\<rparr>)
      | _ \<Rightarrow> Ok None)"

text \<open>\<^verbatim>\<open>break\<close> ends the loop over the attributes of a route.\<close>

fun route_attrs :: "u32 option \<Rightarrow> route_attr list \<Rightarrow> ipv4_route \<Rightarrow> ipv4_route" where
  "route_attrs if_index [] r = r"
| "route_attrs if_index (RouteDestination d # as) r = route_attrs if_index as (r\<lparr>destination := d\<rparr>)"
| "route_attrs if_index (RouteGateway g # as) r = route_attrs if_index as (r\<lparr>gateway := Some g\<rparr>)"
| "route_attrs if_index (RouteOif i # as) r =
     (if filtered_out if_index i then r else route_attrs if_index as (r\<lparr>out_if_index := Some i\<rparr>))"
| "route_attrs if_index (RoutePriority p # as) r = route_attrs if_index as (r\<lparr>priority := p\<rparr>)"
| "route_attrs if_index (OtherRouteAttr # as) r = route_attrs if_index as r"

definition route_msg :: "u32 option \<Rightarrow> nl_message \<Rightarrow> (io_error, ipv4_route option) res" where
  "route_msg if_index msg =
     (case nl_payload msg of
        NewRoute plen attrs \<Rightarrow>
          let route = route_attrs if_index attrs
                \<lparr>dest_prefix = plen, destination = 0, gateway = None, out_if_index = None, priority = 0\<rparr>
          in Ok (if out_if_index route = None then None else Some route)
      | _ \<Rightarrow> Ok None)"

fun address_attrs :: "addr_attr list \<Rightarrow> u32 \<Rightarrow> (ipv4 \<times> u32) option" where
  "address_attrs [] ix = None"
| "address_attrs (AddrAddressV4 ip # as) ix = Some (ip, ix)"
| "address_attrs (OtherAddrAttr # as) ix = address_attrs as ix"

definition address_msg :: "u32 option \<Rightarrow> nl_message \<Rightarrow> (io_error, (ipv4 \<times> u32) option) res" where
  "address_msg if_index msg =
     (case nl_payload msg of
        NewAddress ix attrs \<Rightarrow> if filtered_out if_index ix then Ok None else Ok (address_attrs attrs ix)
      | _ \<Rightarrow> Ok None)"

text \<open>The conversion of six bytes to an array cannot fail, so its error branch is not reachable.\<close>

fun link_attrs :: "link_attr list \<Rightarrow> link \<Rightarrow> link option" where
  "link_attrs [] l = Some l"
| "link_attrs (LinkIfName s # as) l = link_attrs as (l\<lparr>l_name := s\<rparr>)"
| "link_attrs (LinkMtu m # as) l = link_attrs as (l\<lparr>l_mtu := m\<rparr>)"
| "link_attrs (LinkAddress m # as) l = (if length m = 6 then link_attrs as (l\<lparr>l_mac := m\<rparr>) else None)"
| "link_attrs (OtherLinkAttr # as) l = link_attrs as l"

definition link_msg :: "nl_message \<Rightarrow> (io_error, link option) res" where
  "link_msg msg =
     (case nl_payload msg of
        NewLink ix attrs \<Rightarrow> Ok (link_attrs attrs \<lparr>l_if_index = ix, l_name = [], l_mtu = 0, l_mac = mac_zero\<rparr>)
      | _ \<Rightarrow> Ok None)"

section \<open>Queries\<close>

definition get_neighbors :: "nl_env \<Rightarrow> u32 option \<Rightarrow> (io_error, neighbor list) res" where
  "get_neighbors env if_index = netlink env GetNeighbour (neighbor_msg if_index)"

definition get_ipv4_routes :: "nl_env \<Rightarrow> u32 option \<Rightarrow> (io_error, ipv4_route list) res" where
  "get_ipv4_routes env if_index = netlink env GetRoute (route_msg if_index)"

definition get_ipv4_address :: "nl_env \<Rightarrow> u32 option \<Rightarrow> (io_error, (ipv4 \<times> u32) list) res" where
  "get_ipv4_address env if_index = netlink env GetAddress (address_msg if_index)"

definition get_links :: "nl_env \<Rightarrow> (io_error, link list) res" where
  "get_links env = netlink env GetLink link_msg"

text \<open>\<^verbatim>\<open>fold\<close> over the routes with the best candidate so far.\<close>

definition better_gateway ::
  "(ipv4 \<times> u32 \<times> u32) option \<Rightarrow> ipv4_route \<Rightarrow> (ipv4 \<times> u32 \<times> u32) option" where
  "better_gateway acc x =
     (case (gateway x, out_if_index x) of
        (Some gw, Some oif) \<Rightarrow>
          if dest_prefix x = 0
          then (case acc of
                  None \<Rightarrow> Some (gw, priority x, oif)
                | Some (a, p, i) \<Rightarrow> if priority x < p then Some (gw, priority x, oif) else acc)
          else acc
      | _ \<Rightarrow> acc)"

definition find_default_gateway :: "ipv4_route list \<Rightarrow> gateway_rec option" where
  "find_default_gateway routes =
     map_option (\<lambda>(ip, p, i). \<lparr>g_ip = ip, g_priority = p, g_if_index = i\<rparr>)
       (foldl better_gateway None routes)"

section \<open>Facts\<close>

text \<open>
  A buffer that is the concatenation of messages: each chunk has the length its header says, and the
  deserializer reads it whatever follows.
\<close>

definition frames_msg :: "(u8 list \<Rightarrow> (string, nl_message) res) \<Rightarrow> u8 list \<Rightarrow> nl_message \<Rightarrow> bool" where
  "frames_msg deser chunk msg \<longleftrightarrow> chunk \<noteq> [] \<and> length chunk = unat (nl_length msg) \<and>
     (\<forall>rest. deser (chunk @ rest) = Ok msg)"

lemma netlink_loop_messages:
  assumes "list_all2 (frames_msg deser) chunks msgs" "\<And>m. m \<in> set msgs \<Longrightarrow> f m = Ok (g m)"
  shows "netlink_loop deser f (concat chunks) acc = Ok (acc @ List.map_filter g msgs)"
  using assms
proof (induction chunks msgs arbitrary: acc rule: list_all2_induct)
  case Nil
  then show ?case by (simp add: netlink_loop.simps List.map_filter_def)
next
  case (Cons chunk chunks msg msgs)
  let ?buf = "chunk @ concat chunks"
  have c: "?buf \<noteq> []" "deser ?buf = Ok msg" "unat (nl_length msg) = length chunk" "chunk \<noteq> []"
    using Cons.hyps(1) by (simp_all add: frames_msg_def)
  have "netlink_loop deser f ?buf acc =
      netlink_loop deser f (concat chunks) (case g msg of Some x \<Rightarrow> acc @ [x] | None \<Rightarrow> acc)"
    using c Cons.prems by (subst netlink_loop.simps) simp
  also have "\<dots> = Ok ((case g msg of Some x \<Rightarrow> acc @ [x] | None \<Rightarrow> acc) @ List.map_filter g msgs)"
    using Cons.prems by (intro Cons.IH) simp
  finally show ?case by (cases "g msg") (simp_all add: List.map_filter_def)
qed

lemma netlink_Ok:
  assumes "nl_socket env = Ok ()" "nl_bind env = Ok ()"
    "nl_send env (nl_serialize env req) = Ok (length (nl_serialize env req))" "nl_recv env req = Ok buf"
  shows "netlink env req f = netlink_loop (nl_deserialize env) f buf []"
  using assms by (simp add: netlink_def)

text \<open>Every collected result is what the handler made of some message.\<close>

lemma netlink_loop_results:
  "netlink_loop deser f buf acc = Ok rs \<Longrightarrow> x \<in> set rs \<Longrightarrow> x \<in> set acc \<or> (\<exists>m. f m = Ok (Some x))"
proof (induction deser f buf acc rule: netlink_loop.induct)
  case (1 deser f buf acc)
  show ?case
  proof (cases "buf = []")
    case True
    then show ?thesis using 1(2,3) by (subst (asm) netlink_loop.simps) simp
  next
    case False
    obtain msg r where m: "map_err OtherError (deser buf) = Ok msg" "f msg = Ok r"
        "\<not> (unat (nl_length msg) = 0 \<or> length buf < unat (nl_length msg))"
        "netlink_loop deser f (drop (unat (nl_length msg)) buf) (case r of Some x \<Rightarrow> acc @ [x] | None \<Rightarrow> acc) = Ok rs"
      using 1(2) False by (subst (asm) netlink_loop.simps) (auto simp: res_then_Ok_iff Let_def split: if_splits)
    have "x \<in> set (case r of Some x \<Rightarrow> acc @ [x] | None \<Rightarrow> acc) \<or> (\<exists>m. f m = Ok (Some x))"
      using 1(1) [OF False m(1) refl m(2) refl m(3)] m(4) 1(3) by blast
    then show ?thesis using m(2) by (auto split: option.splits)
  qed
qed

lemma netlink_results:
  assumes "netlink env req f = Ok rs" "x \<in> set rs"
  shows "\<exists>m. f m = Ok (Some x)"
  using assms netlink_loop_results [of _ f _ "[]" rs x]
  by (auto simp: netlink_def res_then_Ok_iff Let_def split: if_splits)

lemma route_attrs_oif:
  "out_if_index r \<in> {None, Some x} \<Longrightarrow> out_if_index (route_attrs (Some x) as r) \<in> {None, Some x}"
  by (induction "Some x" as r rule: route_attrs.induct) (auto simp: filtered_out_def)

lemma neighbor_attrs_kept:
  "neighbor_attrs as n = Some n' \<Longrightarrow> length (n_mac n) = 6 \<Longrightarrow> n_if_index n' = n_if_index n \<and> length (n_mac n') = 6"
  by (induction as n rule: neighbor_attrs.induct) (auto split: if_splits)

end
