(* ===== verification/Router.thy ===== *)
theory Router
  imports Netlink
begin

unbundle bit_operations_syntax

text \<open>
  \<^verbatim>\<open>xdp-util/src/router.rs\<close>: the cached routing and neighbour tables and the next-hop lookup.

  The prefix map and the networks come from the crates \<^verbatim>\<open>prefix-trie\<close> and \<^verbatim>\<open>ipnet\<close>, which are not part of
  the repository: the operations the router calls are the fields of \<open>net_lib\<close>, an argument of the router's
  operations, and \<open>net_lib_ok\<close> says what their documentation promises. The hash map of neighbours is a map.
\<close>

section \<open>Operations\<close>

record ('n, 'm) net_lib =
  net_new :: "ipv4 \<Rightarrow> u8 \<Rightarrow> 'n option"
  net_from :: "ipv4 \<Rightarrow> 'n"
  pm_new :: 'm
  pm_insert :: "'n \<Rightarrow> ipv4_route \<Rightarrow> 'm \<Rightarrow> 'm"
  pm_lpm :: "'m \<Rightarrow> 'n \<Rightarrow> ('n \<times> ipv4_route) option"

record 'm router =
  r_if_index :: u32
  r_neighbors :: "ipv4 \<Rightarrow> neighbor option"
  r_routes :: 'm

record next_hop =
  ip_addr :: ipv4
  mac_addr :: "mac option"

definition router_new :: "('n, 'm) net_lib \<Rightarrow> u32 \<Rightarrow> 'm router" where
  "router_new lib if_index = \<lparr>r_if_index = if_index, r_neighbors = Map.empty, r_routes = pm_new lib\<rparr>"

definition route :: "('n, 'm) net_lib \<Rightarrow> 'm router \<Rightarrow> ipv4 \<Rightarrow> next_hop option" where
  "route lib r dest_ip =
     (let direct = (case r_neighbors r dest_ip of
            Some n \<Rightarrow> Some \<lparr>ip_addr = dest_ip, mac_addr = Some (n_mac n)\<rparr>
          | None \<Rightarrow> None)
      in case pm_lpm lib (r_routes r) (net_from lib dest_ip) of
           Some (_, rt) \<Rightarrow>
             let ip = (case gateway rt of Some g \<Rightarrow> g | None \<Rightarrow> dest_ip)
             in (case r_neighbors r ip of
                   Some n \<Rightarrow> Some \<lparr>ip_addr = ip, mac_addr = Some (n_mac n)\<rparr>
                 | None \<Rightarrow> direct)
         | None \<Rightarrow> direct)"

text \<open>The loop of \<^verbatim>\<open>refresh\<close> that builds the prefix map.\<close>

fun insert_routes :: "('n, 'm) net_lib \<Rightarrow> ipv4_route list \<Rightarrow> 'm \<Rightarrow> (io_error, 'm) res" where
  "insert_routes lib [] m = Ok m"
| "insert_routes lib (rt # rts) m =
     (case net_new lib (destination rt) (dest_prefix rt) of
        None \<Rightarrow> Err (InvalidDataError ''Invalid destination prefix'')
      | Some net \<Rightarrow> insert_routes lib rts (if gateway rt \<noteq> None then pm_insert lib net rt m else m))"

definition collect_neighbors :: "neighbor list \<Rightarrow> ipv4 \<Rightarrow> neighbor option" where
  "collect_neighbors ns = foldl (\<lambda>m n. m(n_ip n \<mapsto> n)) Map.empty ns"

definition refresh :: "('n, 'm) net_lib \<Rightarrow> nl_env \<Rightarrow> 'm router \<Rightarrow> 'm router \<times> (io_error, unit) res" where
  "refresh lib env r =
     try_in r (get_ipv4_routes env (Some (r_if_index r))) (\<lambda>routes.
     try_in r (get_neighbors env (Some (r_if_index r))) (\<lambda>neighbors.
     try_in r (insert_routes lib routes (pm_new lib)) (\<lambda>prefix_map.
       (r\<lparr>r_neighbors := collect_neighbors neighbors, r_routes := prefix_map\<rparr>, Ok ()))))"

section \<open>What the libraries promise\<close>

text \<open>The first \<open>l\<close> bits of an address, and whether an address is in a network.\<close>

definition net_prefix :: "ipv4 \<Rightarrow> nat \<Rightarrow> ipv4" where
  "net_prefix a l = push_bit (32 - l) (drop_bit (32 - l) a)"

definition longest_match :: "(ipv4 \<times> nat \<Rightarrow> ipv4_route option) \<Rightarrow> ipv4 \<Rightarrow> ipv4_route option" where
  "longest_match t ip =
     (case filter (\<lambda>l. t (net_prefix ip l, l) \<noteq> None) (rev [0..<33]) of
        [] \<Rightarrow> None
      | l # _ \<Rightarrow> t (net_prefix ip l, l))"

text \<open>
  \<open>view\<close> gives the table a prefix map stands for: a network is its prefix and its length, an insertion
  replaces the entry of its network, a new map is empty, and a lookup of an address finds the entry with
  the longest prefix that contains it. \<^verbatim>\<open>Ipv4Net::new\<close> refuses prefix lengths over 32.
\<close>

definition net_lib_ok :: "('n, 'm) net_lib \<Rightarrow> ('m \<Rightarrow> ipv4 \<times> nat \<Rightarrow> ipv4_route option) \<Rightarrow> ('n \<Rightarrow> ipv4 \<times> nat) \<Rightarrow> bool" where
  "net_lib_ok lib view key \<longleftrightarrow>
     view (pm_new lib) = Map.empty \<and>
     (\<forall>n rt m. view (pm_insert lib n rt m) = (view m)(key n \<mapsto> rt)) \<and>
     (\<forall>m ip. map_option snd (pm_lpm lib m (net_from lib ip)) = longest_match (view m) ip) \<and>
     (\<forall>a l. (net_new lib a l = None) = (32 < unat l)) \<and>
     (\<forall>a l n. net_new lib a l = Some n \<longrightarrow> key n = (net_prefix a (unat l), unat l))"

section \<open>Facts\<close>

text \<open>The table a list of routes stands for: later routes replace earlier ones of the same network.\<close>

definition route_key :: "ipv4_route \<Rightarrow> ipv4 \<times> nat" where
  "route_key rt = (net_prefix (destination rt) (unat (dest_prefix rt)), unat (dest_prefix rt))"

definition route_table :: "ipv4_route list \<Rightarrow> ipv4 \<times> nat \<Rightarrow> ipv4_route option" where
  "route_table rts = map_of (rev (map (\<lambda>rt. (route_key rt, rt)) (filter (\<lambda>rt. gateway rt \<noteq> None) rts)))"

lemma insert_routes_Ok:
  assumes "net_lib_ok lib view key" "\<forall>rt \<in> set rts. unat (dest_prefix rt) \<le> 32"
  shows "\<exists>m'. insert_routes lib rts m = Ok m' \<and> view m' = view m ++ route_table rts"
  using assms(2)
proof (induction rts arbitrary: m)
  case Nil
  then show ?case by (simp add: route_table_def)
next
  case (Cons rt rts)
  have ok: "(net_new lib a l = None) = (32 < unat l)" "net_new lib a l = Some n \<Longrightarrow> key n = (net_prefix a (unat l), unat l)"
      "view (pm_insert lib n rt m) = (view m)(key n \<mapsto> rt)" for a l n rt m
    using assms(1) by (simp_all add: net_lib_ok_def)
  obtain net where net: "net_new lib (destination rt) (dest_prefix rt) = Some net"
    using Cons.prems ok(1) [of "destination rt" "dest_prefix rt"] by fastforce
  then have key: "key net = route_key rt" using ok(2) by (simp add: route_key_def)
  let ?m = "if gateway rt \<noteq> None then pm_insert lib net rt m else m"
  obtain m' where m': "insert_routes lib rts ?m = Ok m'" "view m' = view ?m ++ route_table rts"
    using Cons.IH [of ?m] Cons.prems by auto
  have "view ?m ++ route_table rts = view m ++ route_table (rt # rts)"
    by (simp add: route_table_def ok(3) key)
  then show ?case using m' net by simp
qed

lemma insert_routes_fails:
  assumes "net_lib_ok lib view key" "\<exists>rt \<in> set rts. 32 < unat (dest_prefix rt)"
  shows "insert_routes lib rts m = Err (InvalidDataError ''Invalid destination prefix'')"
  using assms(2)
proof (induction rts arbitrary: m)
  case (Cons rt rts)
  have "(net_new lib (destination rt) (dest_prefix rt) = None) = (32 < unat (dest_prefix rt))"
    using assms(1) by (simp add: net_lib_ok_def)
  then show ?case using Cons by (cases "net_new lib (destination rt) (dest_prefix rt)") auto
qed simp

lemma collect_neighbors_last:
  "collect_neighbors (ns @ [n]) = (collect_neighbors ns)(n_ip n \<mapsto> n)"
  by (simp add: collect_neighbors_def)

lemma collect_neighbors_in:
  "collect_neighbors ns ip = Some n \<Longrightarrow> n \<in> set ns \<and> n_ip n = ip"
  by (induction ns rule: rev_induct) (auto simp: collect_neighbors_last collect_neighbors_def split: if_splits)

lemma collect_neighbors_None: "collect_neighbors ns ip = None \<longleftrightarrow> ip \<notin> n_ip ` set ns"
  by (induction ns rule: rev_induct) (auto simp: collect_neighbors_last collect_neighbors_def)

lemma longest_match_Some:
  assumes "longest_match t ip = Some rt"
  shows "\<exists>l \<le> 32. t (net_prefix ip l, l) = Some rt \<and> (\<forall>l' \<le> 32. l < l' \<longrightarrow> t (net_prefix ip l', l') = None)"
proof -
  let ?ls = "filter (\<lambda>l. t (net_prefix ip l, l) \<noteq> None) (rev [0..<33])"
  obtain l ls where ls: "?ls = l # ls" "t (net_prefix ip l, l) = Some rt"
    using assms by (auto simp: longest_match_def split: list.splits)
  then have "l \<in> set ?ls" by simp
  then have l: "l \<le> 32" by auto
  have "rev ?ls = filter (\<lambda>l. t (net_prefix ip l, l) \<noteq> None) [0..<33]"
    by (simp only: rev_filter rev_rev_ident)
  then have "sorted (rev ?ls)"
    using sorted_filter [of id "[0..<33]" "\<lambda>l. t (net_prefix ip l, l) \<noteq> None"] by (simp only: list.map_id sorted_upt)
  then have "\<forall>l' \<in> set (l # ls). l' \<le> l" by (simp only: ls(1) rev.simps sorted_append) simp
  then have "\<forall>l' \<in> set ?ls. l' \<le> l" by (simp only: ls(1))
  moreover have "l' \<in> set ?ls" if "l' \<le> 32" "t (net_prefix ip l', l') \<noteq> None" for l'
    using that by simp
  ultimately have "t (net_prefix ip l', l') = None" if "l' \<le> 32" "l < l'" for l'
    using that by (meson not_le)
  then show ?thesis using l ls(2) by blast
qed

lemma longest_match_None: "longest_match t ip = None \<longleftrightarrow> (\<forall>l \<le> 32. t (net_prefix ip l, l) = None)"
proof -
  let ?ls = "filter (\<lambda>l. t (net_prefix ip l, l) \<noteq> None) (rev [0..<33])"
  have "longest_match t ip = None \<longleftrightarrow> ?ls = []"
  proof (cases ?ls)
    case (Cons l ls)
    then have "l \<in> set ?ls" by simp
    then show ?thesis using Cons by (auto simp: longest_match_def)
  qed (simp add: longest_match_def)
  also have "\<dots> \<longleftrightarrow> (\<forall>l \<in> {0..<33}. t (net_prefix ip l, l) = None)" by (simp add: filter_empty_conv)
  finally show ?thesis by auto
qed

end
