(* ===== verification/Packet.thy ===== *)
theory Packet
  imports Netlink
begin

text \<open>
  \<^verbatim>\<open>xdp-util/src/packet.rs\<close>: the 42-byte header buffer with its \<^verbatim>\<open>io::Write\<close> implementation, and the
  function that fills it. The contract of \<^verbatim>\<open>Write\<close> that the packet builder relies on is the locale
  \<open>byte_writer\<close>; \<^verbatim>\<open>HdrWrite\<close> interprets it.
\<close>

section \<open>The contract of a writer\<close>

text \<open>
  \<open>seen w\<close> is the stream of all bytes a writer has been given. \<open>write_all\<close> of the standard library writes
  until everything is accepted.
\<close>

locale byte_writer =
  fixes wr :: "'w \<Rightarrow> u8 list \<Rightarrow> 'w \<times> nat"
    and ok :: "'w \<Rightarrow> u8 list \<Rightarrow> bool"
  assumes accepts_all: "ok w s \<Longrightarrow> snd (wr w bs) = length bs"
    and appends: "ok w s \<Longrightarrow> ok (fst (wr w bs)) (s @ bs)"
begin

lemma writes_append: "ok w s \<Longrightarrow> ok (foldl (\<lambda>w bs. fst (wr w bs)) w chunks) (s @ concat chunks)"
proof (induction chunks arbitrary: w s)
  case (Cons c chunks)
  then show ?case using Cons.IH [OF appends [OF Cons.prems]] by simp
qed simp

end

section \<open>HdrWrite\<close>

record hdr_write =
  hw_buf :: "u8 list"
  hw_pos :: nat

text \<open>
  \<^verbatim>\<open>write\<close>: the position is kept as a natural number, since the stream written to one header is far
  shorter than \<open>2 ^ 64\<close> bytes. A short buffer would panic in the slice operation; the type has 42 bytes.
\<close>

definition hdr_write_write :: "hdr_write \<Rightarrow> u8 list \<Rightarrow> hdr_write \<times> nat" where
  "hdr_write_write w buf =
     (let w1 = (if hw_pos w < 42
                then let len = min (length buf) (length (hw_buf w) - hw_pos w)
                     in w\<lparr>hw_buf := take (hw_pos w) (hw_buf w) @ take len buf @ drop (hw_pos w + len) (hw_buf w)\<rparr>
                else w)
      in (w1\<lparr>hw_pos := hw_pos w1 + length buf\<rparr>, length buf))"

definition hdr_write_flush :: "hdr_write \<Rightarrow> hdr_write \<times> (io_error, unit) res" where
  "hdr_write_flush w = (w, Ok ())"

text \<open>The buffer has the first 42 bytes of the stream, and is as it was behind the end of the stream.\<close>

definition hdr_holds :: "u8 list \<Rightarrow> hdr_write \<Rightarrow> u8 list \<Rightarrow> bool" where
  "hdr_holds init w s \<longleftrightarrow> length init = 42 \<and> hw_pos w = length s \<and>
     hw_buf w = take 42 s @ drop (length s) init"

lemma hdr_write_appends:
  assumes "hdr_holds init w s"
  shows "hdr_holds init (fst (hdr_write_write w bs)) (s @ bs)"
proof -
  have i: "length init = 42" and p: "hw_pos w = length s" and b: "hw_buf w = take 42 s @ drop (length s) init"
    using assms by (simp_all add: hdr_holds_def)
  show ?thesis
  proof (cases "length s < 42")
    case True
    have "length (hw_buf w) = 42" using i True by (simp add: b)
    then show ?thesis
      using True i by (simp add: hdr_holds_def hdr_write_write_def p Let_def)
        (simp add: b min_def add.commute)
  next
    case False
    then show ?thesis using i by (simp add: hdr_holds_def hdr_write_write_def p b Let_def)
  qed
qed

interpretation hdr: byte_writer hdr_write_write "hdr_holds init" for init
  by unfold_locales (simp add: hdr_write_write_def Let_def, rule hdr_write_appends)

section \<open>The header of a UDP packet\<close>

text \<open>
  The builder comes from the crate \<^verbatim>\<open>etherparse\<close>, which is not part of the repository: \<open>build\<close> gives the
  pieces that the builder writes, in order, and its result, for the addresses and ports and the payload.
\<close>

record udp_flow =
  src_mac :: mac
  dst_mac :: mac
  src_addr :: ipv4
  dst_addr :: ipv4
  ttl :: u8
  src_port :: u16
  dst_port :: u16

definition write_udp_header_for ::
  "(udp_flow \<Rightarrow> u8 list \<Rightarrow> u8 list list \<times> (string, unit) res) \<Rightarrow>
    u8 list \<Rightarrow> ipv4 \<Rightarrow> mac \<Rightarrow> u16 \<Rightarrow> ipv4 \<Rightarrow> mac \<Rightarrow> u16 \<Rightarrow> (io_error, u8 list) res"
where
  "write_udp_header_for build data sa sm sp da dm dp =
     (let hdr = replicate 42 0;
          builder = \<lparr>src_mac = sm, dst_mac = dm, src_addr = sa, dst_addr = da, ttl = 64, src_port = sp, dst_port = dp\<rparr>;
          (pieces, r) = build builder data;
          w = foldl (\<lambda>w bs. fst (hdr_write_write w bs)) \<lparr>hw_buf = hdr, hw_pos = 0\<rparr> pieces
      in case r of
           Ok _ \<Rightarrow> Ok (hw_buf w)
         | Err e \<Rightarrow> Err (OtherError (''Error writing packet header: '' @ e))
         | Panic \<Rightarrow> Panic
         | Undef \<Rightarrow> Undef)"

lemma header_is_prefix:
  assumes "build \<lparr>src_mac = sm, dst_mac = dm, src_addr = sa, dst_addr = da, ttl = 64, src_port = sp, dst_port = dp\<rparr> data
    = (pieces, Ok ())"
  shows "write_udp_header_for build data sa sm sp da dm dp =
    Ok (take 42 (concat pieces) @ replicate (42 - length (concat pieces)) 0)"
proof -
  let ?w0 = "\<lparr>hw_buf = replicate 42 0, hw_pos = 0\<rparr>"
  have "hdr_holds (replicate 42 0) ?w0 []" by (simp add: hdr_holds_def)
  then have "hdr_holds (replicate 42 0) (foldl (\<lambda>w bs. fst (hdr_write_write w bs)) ?w0 pieces) ([] @ concat pieces)"
    by (rule hdr.writes_append)
  then show ?thesis using assms by (simp add: write_udp_header_for_def hdr_holds_def Let_def)
qed

text \<open>A header that is made has 42 bytes, whatever the builder writes.\<close>

lemma header_length:
  assumes "write_udp_header_for build data sa sm sp da dm dp = Ok h"
  shows "length h = 42"
proof -
  let ?w0 = "\<lparr>hw_buf = replicate 42 0, hw_pos = 0\<rparr>"
  have "hdr_holds (replicate 42 0) ?w0 []" by (simp add: hdr_holds_def)
  then have "hdr_holds (replicate 42 0) (foldl (\<lambda>w bs. fst (hdr_write_write w bs)) ?w0 pieces) ([] @ concat pieces)" for pieces
    by (rule hdr.writes_append)
  then have "length (hw_buf (foldl (\<lambda>w bs. fst (hdr_write_write w bs)) ?w0 pieces)) = 42" for pieces
    by (simp add: hdr_holds_def min_def)
  then show ?thesis using assms by (auto simp: write_udp_header_for_def Let_def split: prod.splits res.splits)
qed

end
