(* ===== verification/Xdp_Prog.thy ===== *)
theory Xdp_Prog
  imports Os
begin

text \<open>
  \<^verbatim>\<open>xdp-util/src/xdp_prog.rs\<close> and \<^verbatim>\<open>mac_by_ifindex.rs\<close>: loading and attaching an XDP program, its
  destructor, the query of the XDP features, and the hardware address of an interface. The C libraries
  are not part of the repository; their answers are an argument, as in the theory \<open>Os\<close>.
\<close>

section \<open>Programs\<close>

datatype bpf_call =
    BpfQuery u32
  | BpfOpenMem "u8 list"
  | BpfLoad u64
  | BpfFindProgram u64 string
  | BpfAttach u64 u32
  | BpfLinkDestroy u64
  | BpfObjectClose u64

text \<open>An answer has a return value, a pointer or the queried flags; each call uses the field it has.\<close>

record bpf_answer =
  b_ret :: int
  b_ptr :: u64
  b_flags :: u64
  b_errno :: errno

type_synonym bpf_run = "(bpf_call, bpf_answer) run"
type_synonym bpf = "bpf_run \<Rightarrow> bpf_call \<Rightarrow> bpf_answer"

definition bpf_call :: "bpf \<Rightarrow> bpf_run \<Rightarrow> bpf_call \<Rightarrow> bpf_run \<times> bpf_answer" where
  "bpf_call bpf tr c = sys_call bpf tr c"

lemma bpf_call_eq: "bpf_call bpf tr c = (tr @ [(c, bpf tr c)], bpf tr c)"
  by (simp add: bpf_call_def sys_call_def Let_def)

definition xdp_features :: "bpf \<Rightarrow> (io_error \<Rightarrow> string) \<Rightarrow> bpf_run \<Rightarrow> u32 \<Rightarrow> bpf_run \<times> (io_error, u32) res" where
  "xdp_features bpf shw tr if_index =
     (let (tr, a) = bpf_call bpf tr (BpfQuery if_index)
      in if b_ret a < 0
         then (tr, Err (OtherError (''Failed to query XDP features: '' @ shw (OsError (b_errno a)))))
         else (tr, Ok (ucast (b_flags a))))"

record owned_xdp_prog =
  p_if_index :: u32
  p_code :: "u8 list"
  p_name :: string
  bpf_obj :: u64
  bpf_link :: u64

definition owned_prog_drop :: "bpf \<Rightarrow> owned_xdp_prog \<Rightarrow> bpf_run \<Rightarrow> bpf_run" where
  "owned_prog_drop bpf p tr =
     (let tr = (if bpf_link p \<noteq> 0 then fst (bpf_call bpf tr (BpfLinkDestroy (bpf_link p))) else tr)
      in if bpf_obj p \<noteq> 0 then fst (bpf_call bpf tr (BpfObjectClose (bpf_obj p))) else tr)"

text \<open>Early returns drop the program as it is at that point. A name with a NUL byte is refused.\<close>

definition xdp_attach_program ::
  "bpf \<Rightarrow> bpf_run \<Rightarrow> u32 \<Rightarrow> u8 list \<Rightarrow> string \<Rightarrow> bpf_run \<times> (io_error, owned_xdp_prog) res" where
  "xdp_attach_program bpf tr if_index code name =
     (let p0 = \<lparr>p_if_index = if_index, p_code = code, p_name = name, bpf_obj = 0, bpf_link = 0\<rparr>;
          fail = (\<lambda>p tr e. (owned_prog_drop bpf p tr, Err e));
          (tr, a) = bpf_call bpf tr (BpfOpenMem code);
          p1 = p0\<lparr>bpf_obj := b_ptr a\<rparr>
      in if bpf_obj p1 = 0 then fail p1 tr (OtherError ''Failed to open BPF object from memory'')
         else
      let (tr, a) = bpf_call bpf tr (BpfLoad (bpf_obj p1))
      in if b_ret a \<noteq> 0 then fail p1 tr (OtherError ''Failed to load BPF object'')
         else if CHR 0x00 \<in> set name then fail p1 tr (InvalidInputError ''data provided contains a nul byte'')
         else
      let (tr, a) = bpf_call bpf tr (BpfFindProgram (bpf_obj p1) name)
      in if b_ptr a = 0 then fail p1 tr (OtherError (''Failed to find BPF program '' @ [CHR 0x27] @ name @ [CHR 0x27]))
         else
      let (tr, a) = bpf_call bpf tr (BpfAttach (b_ptr a) if_index);
          p2 = p1\<lparr>bpf_link := b_ptr a\<rparr>
      in if bpf_link p2 = 0 then fail p2 tr (OtherError ''Failed to attach XDP program'')
         else (tr, Ok p2))"

section \<open>Objects and links as resources\<close>

datatype bpf_resource = RObject u64 | RLink u64

fun bpf_acq :: "bpf_call \<times> bpf_answer \<Rightarrow> bpf_resource option" where
  "bpf_acq (BpfOpenMem code, a) = (if b_ptr a = 0 then None else Some (RObject (b_ptr a)))"
| "bpf_acq (BpfAttach p i, a) = (if b_ptr a = 0 then None else Some (RLink (b_ptr a)))"
| "bpf_acq _ = None"

fun bpf_rel :: "bpf_call \<Rightarrow> bpf_resource option" where
  "bpf_rel (BpfLinkDestroy p) = Some (RLink p)"
| "bpf_rel (BpfObjectClose p) = Some (RObject p)"
| "bpf_rel _ = None"

definition prog_owns :: "owned_xdp_prog \<Rightarrow> bpf_resource multiset" where
  "prog_owns p = (if bpf_link p \<noteq> 0 then {#RLink (bpf_link p)#} else {#}) +
     (if bpf_obj p \<noteq> 0 then {#RObject (bpf_obj p)#} else {#})"

lemma owned_prog_drop_releases:
  "holds bpf_acq bpf_rel tr (prog_owns p + live) \<Longrightarrow> holds bpf_acq bpf_rel (owned_prog_drop bpf p tr) live"
  by (auto simp: owned_prog_drop_def prog_owns_def bpf_call_eq Let_def add_mset_commute
      simp del: append_assoc intro!: holds_release split: if_splits)

interpretation bpf_scope: resource_scope bpf_acq bpf_rel prog_owns "owned_prog_drop bpf" for bpf
  by unfold_locales (rule owned_prog_drop_releases)

text \<open>Attaching a program leaves nothing behind when it fails, and a live object and a live link otherwise.\<close>

lemma attach_outcome:
  assumes "xdp_attach_program bpf [] if_index code name = (tr, r)"
  shows "case r of
      Ok p \<Rightarrow> bpf_obj p \<noteq> 0 \<and> bpf_link p \<noteq> 0 \<and> holds bpf_acq bpf_rel tr (prog_owns p)
    | Err e \<Rightarrow> holds bpf_acq bpf_rel tr {#}
    | _ \<Rightarrow> False"
proof -
  define a1 where "a1 = bpf [] (BpfOpenMem code)"
  define p1 where "p1 = \<lparr>p_if_index = if_index, p_code = code, p_name = name, bpf_obj = b_ptr a1, bpf_link = 0\<rparr>"
  define a2 where "a2 = bpf [(BpfOpenMem code, a1)] (BpfLoad (b_ptr a1))"
  define tr2 where "tr2 = [(BpfOpenMem code, a1), (BpfLoad (b_ptr a1), a2)]"
  define a3 where "a3 = bpf tr2 (BpfFindProgram (b_ptr a1) name)"
  define tr3 where "tr3 = tr2 @ [(BpfFindProgram (b_ptr a1) name, a3)]"
  define a4 where "a4 = bpf tr3 (BpfAttach (b_ptr a3) if_index)"
  define p2 where "p2 = p1\<lparr>bpf_link := b_ptr a4\<rparr>"
  define tr4 where "tr4 = tr3 @ [(BpfAttach (b_ptr a3) if_index, a4)]"
  have run: "(tr, r) =
    (if b_ptr a1 = 0 then (owned_prog_drop bpf p1 [(BpfOpenMem code, a1)], Err (OtherError ''Failed to open BPF object from memory''))
     else if b_ret a2 \<noteq> 0 then (owned_prog_drop bpf p1 tr2, Err (OtherError ''Failed to load BPF object''))
     else if CHR 0x00 \<in> set name then (owned_prog_drop bpf p1 tr2, Err (InvalidInputError ''data provided contains a nul byte''))
     else if b_ptr a3 = 0 then (owned_prog_drop bpf p1 tr3,
       Err (OtherError (''Failed to find BPF program '' @ [CHR 0x27] @ name @ [CHR 0x27])))
     else if b_ptr a4 = 0 then (owned_prog_drop bpf p2 tr4, Err (OtherError ''Failed to attach XDP program''))
     else (tr4, Ok p2))"
    unfolding assms [symmetric]
    by (simp add: xdp_attach_program_def bpf_call_eq Let_def p2_def p1_def tr4_def a4_def tr3_def a3_def tr2_def a2_def a1_def)
  have live: "holds bpf_acq bpf_rel [(BpfOpenMem code, a1)] (prog_owns p1)" "holds bpf_acq bpf_rel tr2 (prog_owns p1)"
    "holds bpf_acq bpf_rel tr3 (prog_owns p1)" "holds bpf_acq bpf_rel tr4 (prog_owns p2)"
    by (simp_all add: holds_def prog_owns_def acquired_res_def released_res_def List.map_filter_def
        p2_def p1_def tr4_def tr3_def tr2_def)
  have fail: "holds bpf_acq bpf_rel (owned_prog_drop bpf p tr) {#}" if "holds bpf_acq bpf_rel tr (prog_owns p)" for p tr
    using bpf_scope.drop_releases [of tr p "{#}" bpf] that by simp
  have "bpf_obj p2 = b_ptr a1" "bpf_link p2 = b_ptr a4" by (simp_all add: p2_def p1_def)
  then show ?thesis
    using run live(1-3) [THEN fail] live(4) live(4) [THEN fail] by (auto split: if_splits)
qed

section \<open>The hardware address of an interface\<close>

text \<open>
  An \<^verbatim>\<open>ifreq\<close> has the name of the interface and a union, of which the code uses the index before the first
  call and the bytes of the hardware address after the second. An answer gives the request back as the
  kernel has changed it; \<open>m_errno\<close> is the error number that is stored after the call.
\<close>

record ifreq =
  ifr_name :: "u8 list"
  ifru_ifindex :: int
  ifru_hwaddr :: "u8 list"

datatype mac_call = McSocket | McGetName int ifreq | McGetHwAddr int ifreq | McClose int

record mac_answer =
  m_ret :: int
  m_req :: ifreq
  m_errno :: errno

definition ifreq_zero :: ifreq where
  "ifreq_zero = \<lparr>ifr_name = replicate 16 0, ifru_ifindex = 0, ifru_hwaddr = replicate 14 0\<rparr>"

type_synonym mac_run = "(mac_call, mac_answer) run"

definition mac_by_ifindex ::
  "(mac_run \<Rightarrow> mac_call \<Rightarrow> mac_answer) \<Rightarrow> mac_run \<Rightarrow> u32 \<Rightarrow> mac_run \<times> (io_error, u8 list) res" where
  "mac_by_ifindex sys tr if_index =
     (let (tr, a) = sys_call sys tr McSocket;
          fd = m_ret a
      in if fd < 0 then (tr, Err (OsError (m_errno a)))
         else
      let req = ifreq_zero\<lparr>ifru_ifindex := sint if_index\<rparr>;
          (tr, a) = sys_call sys tr (McGetName fd req)
      in if m_ret a < 0
         then let (tr, c) = sys_call sys tr (McClose fd) in (tr, Err (OsError (m_errno c)))
         else
      let req = (m_req a)\<lparr>ifru_ifindex := 0\<rparr>;
          (tr, a) = sys_call sys tr (McGetHwAddr fd req)
      in if m_ret a < 0
         then let (tr, c) = sys_call sys tr (McClose fd) in (tr, Err (OsError (m_errno c)))
         else let (tr, c) = sys_call sys tr (McClose fd)
              in (tr, Ok (take 6 (ifru_hwaddr (m_req a)))))"

fun mac_acq :: "mac_call \<times> mac_answer \<Rightarrow> int option" where
  "mac_acq (McSocket, a) = (if m_ret a < 0 then None else Some (m_ret a))"
| "mac_acq _ = None"

fun mac_rel :: "mac_call \<Rightarrow> int option" where
  "mac_rel (McClose fd) = Some fd"
| "mac_rel _ = None"

text \<open>The code closes the socket by hand; the close is what the destructor of a descriptor would do.\<close>

definition mac_close :: "(mac_run \<Rightarrow> mac_call \<Rightarrow> mac_answer) \<Rightarrow> int \<Rightarrow> mac_run \<Rightarrow> mac_run" where
  "mac_close sys fd tr = fst (sys_call sys tr (McClose fd))"

interpretation mac_scope: resource_scope mac_acq mac_rel "\<lambda>fd. {#fd#}" "mac_close sys" for sys
  by unfold_locales (simp add: mac_close_def sys_call_def Let_def holds_release)

lemma mac_closed:
  assumes "mac_by_ifindex sys [] if_index = (tr, r)"
  shows "holds mac_acq mac_rel tr {#}"
  using assms
  by (auto simp: mac_by_ifindex_def sys_call_def Let_def holds_def acquired_res_def released_res_def
      List.map_filter_def split: if_splits)

end
