(* ===== verification/Util_Properties.thy ===== *)
theory Util_Properties
  imports Router Packet Xdp_Prog
begin

unbundle bit_operations_syntax

text \<open>
  Properties of the crate \<^verbatim>\<open>xdp-util\<close>: the netlink loop and its queries, the router, the packet header,
  and the resources of XDP programs and of \<^verbatim>\<open>mac_by_ifindex\<close>.
\<close>

section \<open>A sample netlink peer and a prefix map\<close>

text \<open>Messages of four bytes, the first byte chooses the message.\<close>

definition sample_msg :: "u8 \<Rightarrow> nl_message" where
  "sample_msg c = \<lparr>nl_length = 4, nl_payload =
     (if c = 1 then NewRoute 0 [RouteGateway 0x0A000001, RoutePriority 100, RouteOif 7]
      else if c = 2 then NewRoute 24 [RouteDestination 0x0A000000, RouteOif 7]
      else if c = 3 then NewRoute 8 [RouteDestination 0x7F000000, RouteOif 1]
      else if c = 4 then NewNeighbour 7 [NeighDestination 0x0A000001, NeighLinkLocalAddress [2, 0, 0, 0, 0, 1]]
      else if c = 5 then NewNeighbour 7 [NeighDestination 0x0A000005, NeighLinkLocalAddress [2, 0, 0, 0, 0, 5]]
      else OtherPayload)\<rparr>"

definition sample_nl :: "u8 list \<Rightarrow> nl_env" where
  "sample_nl codes = \<lparr>nl_socket = Ok (), nl_bind = Ok (), nl_serialize = (\<lambda>q. [1, 2, 3]),
     nl_send = (\<lambda>bs. Ok (length bs)), nl_recv = (\<lambda>q. Ok (concat (map (\<lambda>c. [c, 0, 0, 0]) codes))),
     nl_deserialize = (\<lambda>bs. Ok (sample_msg (hd bs)))\<rparr>"

lemma sample_nl_simps [simp]:
  "nl_socket (sample_nl cs) = Ok ()" "nl_bind (sample_nl cs) = Ok ()"
  "nl_send (sample_nl cs) bs = Ok (length bs)" "nl_recv (sample_nl cs) q = Ok (concat (map (\<lambda>c. [c, 0, 0, 0]) cs))"
  by (simp_all add: sample_nl_def)

lemma sample_frames:
  "list_all2 (frames_msg (nl_deserialize (sample_nl cs'))) (map (\<lambda>c. [c, 0, 0, 0]) cs) (map sample_msg cs)"
  by (simp add: list_all2_map1 list_all2_map2 list.rel_refl frames_msg_def sample_nl_def sample_msg_def)

definition table_lib :: "(ipv4 \<times> nat, ipv4 \<times> nat \<Rightarrow> ipv4_route option) net_lib" where
  "table_lib = \<lparr>net_new = (\<lambda>a l. if unat l \<le> 32 then Some (net_prefix a (unat l), unat l) else None),
     net_from = (\<lambda>ip. (ip, 32)), pm_new = Map.empty, pm_insert = (\<lambda>n rt m. m(n \<mapsto> rt)),
     pm_lpm = (\<lambda>m n. map_option (\<lambda>rt. (route_key rt, rt)) (longest_match m (fst n)))\<rparr>"

lemma table_lib_ok: "net_lib_ok table_lib id id"
  by (simp add: net_lib_ok_def table_lib_def option.map_comp comp_def not_le option.map_ident)

definition sample_route :: "u8 \<Rightarrow> ipv4 \<Rightarrow> ipv4 option \<Rightarrow> u32 \<Rightarrow> ipv4_route" where
  "sample_route l d g p = \<lparr>dest_prefix = l, destination = d, gateway = g, out_if_index = Some 7, priority = p\<rparr>"

definition sample_neighbor :: "ipv4 \<Rightarrow> u8 \<Rightarrow> neighbor" where
  "sample_neighbor ip c = \<lparr>n_ip = ip, n_mac = [2, 0, 0, 0, 0, c], n_if_index = 7\<rparr>"

lemma sample_query:
  assumes "\<And>m. f m = Ok (g m)"
  shows "netlink (sample_nl cs) req f = Ok (List.map_filter g (map sample_msg cs))"
  using netlink_Ok [of "sample_nl cs" req "concat (map (\<lambda>c. [c, 0, 0, 0]) cs)" f]
    netlink_loop_messages [OF sample_frames [of cs cs], of f g "[]"] assms by simp

definition msg_value :: "(io_error, 'r option) res \<Rightarrow> 'r option" where
  "msg_value r = (case r of Ok x \<Rightarrow> x | _ \<Rightarrow> None)"

lemma handlers_total:
  "route_msg i m = Ok (msg_value (route_msg i m))" "neighbor_msg i m = Ok (msg_value (neighbor_msg i m))"
  by (auto simp: route_msg_def neighbor_msg_def msg_value_def Let_def split: nl_payload.splits)

lemma sample_routes:
  "get_ipv4_routes (sample_nl [1, 3, 2, 4, 5, 9]) (Some 7) =
     Ok [sample_route 0 0 (Some 0x0A000001) 100, sample_route 24 0x0A000000 None 0]"
  "get_neighbors (sample_nl [1, 3, 2, 4, 5, 9]) (Some 7) =
     Ok [sample_neighbor 0x0A000001 1, sample_neighbor 0x0A000005 5]"
  unfolding get_ipv4_routes_def get_neighbors_def
    sample_query [of "route_msg (Some 7)", OF handlers_total(1)]
    sample_query [of "neighbor_msg (Some 7)", OF handlers_total(2)]
  by (simp_all add: List.map_filter_def msg_value_def sample_msg_def route_msg_def neighbor_msg_def
      filtered_out_def sample_route_def sample_neighbor_def)

section \<open>Netlink\<close>

text \<open>
  C37. A response is read completely and in order: when the datagram is a sequence of messages whose
  headers have their lengths, the result of a query is what the handler makes of each message, in the
  order of the messages, without the messages the handler leaves out.
\<close>

theorem netlink_collects_in_order:
  assumes "nl_socket env = Ok ()" "nl_bind env = Ok ()"
    and "nl_send env (nl_serialize env req) = Ok (length (nl_serialize env req))"
    and "nl_recv env req = Ok (concat chunks)" and "list_all2 (frames_msg (nl_deserialize env)) chunks msgs"
    and "\<forall>m \<in> set msgs. f m = Ok (g m)"
  shows "netlink env req f = Ok (List.map_filter g msgs)"
  using netlink_Ok [OF assms(1-4), of f] netlink_loop_messages [OF assms(5), of f g "[]"] assms(6) by simp

theorem netlink_collects_in_order_witness:
  "netlink (sample_nl [1, 3, 2, 9]) GetRoute (route_msg (Some 7)) =
     Ok [sample_route 0 0 (Some 0x0A000001) 100, sample_route 24 0x0A000000 None 0]"
proof -
  let ?cs = "[1, 3, 2, 9] :: u8 list"
  let ?g = "\<lambda>m. msg_value (route_msg (Some 7) m)"
  have "\<forall>m \<in> set (map sample_msg ?cs). route_msg (Some 7) m = Ok (?g m)"
    using handlers_total(1) by blast
  from netlink_collects_in_order [OF sample_nl_simps(1,2,3,4) sample_frames this, of GetRoute]
  have "netlink (sample_nl ?cs) GetRoute (route_msg (Some 7)) = Ok (List.map_filter ?g (map sample_msg ?cs))" .
  then show ?thesis
    by (simp add: List.map_filter_def msg_value_def sample_msg_def route_msg_def filtered_out_def sample_route_def)
qed

text \<open>
  A malformed response is an error and never an endless loop: when, after any number of good
  messages, the next one says that it has no bytes or more than are left, the query fails, whatever was
  collected.
\<close>

theorem netlink_rejects_bad_length:
  assumes "list_all2 (frames_msg deser) chunks msgs" "\<forall>m \<in> set msgs. f m = Ok (g m)"
    and "rest \<noteq> []" "deser rest = Ok m" "f m = Ok r"
    and "unat (nl_length m) = 0 \<or> length rest < unat (nl_length m)"
  shows "netlink_loop deser f (concat chunks @ rest) acc =
    Err (OtherError ''Received a malformed netlink message (invalid length)'')"
  using assms(1,2)
proof (induction chunks msgs arbitrary: acc rule: list_all2_induct)
  case Nil
  then show ?case using assms(3-6) by (subst netlink_loop.simps) (simp add: Let_def)
next
  case (Cons chunk chunks msg msgs)
  then show ?case by (subst netlink_loop.simps) (simp add: frames_msg_def Let_def)
qed

theorem netlink_rejects_bad_length_witness:
  "netlink_loop (nl_deserialize (sample_nl [])) (route_msg None) ([1, 0, 0, 0] @ [2, 0]) [] =
     Err (OtherError ''Received a malformed netlink message (invalid length)'')"
proof -
  have msgs: "\<forall>m \<in> set (map sample_msg [1]). route_msg None m = Ok (msg_value (route_msg None m))"
    using handlers_total(1) by blast
  have "nl_deserialize (sample_nl []) [2, 0] = Ok (sample_msg 2)"
    "unat (nl_length (sample_msg 2)) = 0 \<or> length [2, 0 :: u8] < unat (nl_length (sample_msg 2))"
    by (simp_all add: sample_nl_def sample_msg_def)
  from netlink_rejects_bad_length [OF sample_frames msgs _ this(1) handlers_total(1) this(2), of "[]"]
  show ?thesis by simp
qed

text \<open>
  The filters of the queries hold: routes and neighbours asked for on an interface are on that
  interface, and every neighbour has a hardware address of six bytes.
\<close>

theorem queries_respect_interface:
  "(get_ipv4_routes env (Some x) = Ok rts \<longrightarrow> (\<forall>rt \<in> set rts. out_if_index rt = Some x)) \<and>
   (get_neighbors env (Some x) = Ok ns \<longrightarrow> (\<forall>n \<in> set ns. n_if_index n = x \<and> length (n_mac n) = 6))"
proof -
  have "out_if_index rt = Some x" if r: "get_ipv4_routes env (Some x) = Ok rts" and rt: "rt \<in> set rts" for rt
  proof -
    obtain m where "route_msg (Some x) m = Ok (Some rt)"
      using netlink_results [OF r [unfolded get_ipv4_routes_def] rt] by blast
    then obtain plen attrs where "rt = route_attrs (Some x) attrs
        \<lparr>dest_prefix = plen, destination = 0, gateway = None, out_if_index = None, priority = 0\<rparr>" "out_if_index rt \<noteq> None"
      by (auto simp: route_msg_def Let_def split: nl_payload.splits if_splits)
    then show ?thesis
      using route_attrs_oif [of "\<lparr>dest_prefix = plen, destination = 0, gateway = None, out_if_index = None, priority = 0\<rparr>" x attrs]
      by auto
  qed
  moreover have "n_if_index n = x \<and> length (n_mac n) = 6"
    if ns: "get_neighbors env (Some x) = Ok ns" and n: "n \<in> set ns" for n
  proof -
    obtain m where "neighbor_msg (Some x) m = Ok (Some n)"
      using netlink_results [OF ns [unfolded get_neighbors_def] n] by blast
    then obtain attrs where "neighbor_attrs attrs \<lparr>n_ip = 0, n_mac = mac_zero, n_if_index = x\<rparr> = Some n"
      by (auto simp: neighbor_msg_def filtered_out_def split: nl_payload.splits if_splits)
    then show ?thesis using neighbor_attrs_kept by (fastforce simp: mac_zero_def)
  qed
  ultimately show ?thesis by blast
qed

theorem queries_respect_interface_witness:
  "\<exists>rts. get_ipv4_routes (sample_nl [1, 3, 2, 4, 5, 9]) (Some 7) = Ok rts \<and> length rts = 2 \<and>
     (\<forall>rt \<in> set rts. out_if_index rt = Some 7)"
  using queries_respect_interface [of "sample_nl [1, 3, 2, 4, 5, 9]" 7] sample_routes(1) by auto

section \<open>The default gateway\<close>

definition is_default_route :: "ipv4_route \<Rightarrow> bool" where
  "is_default_route rt \<longleftrightarrow> dest_prefix rt = 0 \<and> gateway rt \<noteq> None \<and> out_if_index rt \<noteq> None"

definition gateway_of :: "ipv4_route \<Rightarrow> gateway_rec" where
  "gateway_of rt = \<lparr>g_ip = the (gateway rt), g_priority = priority rt, g_if_index = the (out_if_index rt)\<rparr>"

definition first_best :: "ipv4_route list \<Rightarrow> ipv4_route \<Rightarrow> bool" where
  "first_best rts rt \<longleftrightarrow> (\<exists>xs ys. rts = xs @ rt # ys \<and> is_default_route rt \<and>
     (\<forall>x \<in> set xs. is_default_route x \<longrightarrow> priority rt < priority x) \<and>
     (\<forall>y \<in> set ys. is_default_route y \<longrightarrow> priority rt \<le> priority y))"

lemma first_best_skip:
  "first_best rts rt \<Longrightarrow> is_default_route r \<longrightarrow> priority rt \<le> priority r \<Longrightarrow> first_best (rts @ [r]) rt"
  unfolding first_best_def
proof (elim exE conjE)
  fix xs ys
  assume "rts = xs @ rt # ys" "is_default_route rt" "is_default_route r \<longrightarrow> priority rt \<le> priority r"
    "\<forall>x \<in> set xs. is_default_route x \<longrightarrow> priority rt < priority x"
    "\<forall>y \<in> set ys. is_default_route y \<longrightarrow> priority rt \<le> priority y"
  then show "\<exists>xs ys'. rts @ [r] = xs @ rt # ys' \<and> is_default_route rt \<and>
      (\<forall>x \<in> set xs. is_default_route x \<longrightarrow> priority rt < priority x) \<and>
      (\<forall>y \<in> set ys'. is_default_route y \<longrightarrow> priority rt \<le> priority y)"
    by (intro exI [of _ xs] exI [of _ "ys @ [r]"]) auto
qed

lemma first_best_take:
  "is_default_route r \<Longrightarrow> \<forall>x \<in> set rts. is_default_route x \<longrightarrow> priority r < priority x \<Longrightarrow> first_best (rts @ [r]) r"
  unfolding first_best_def by (intro exI [of _ rts] exI [of _ "[]"]) simp

lemma first_best_least: "first_best rts rt \<Longrightarrow> x \<in> set rts \<Longrightarrow> is_default_route x \<Longrightarrow> priority rt \<le> priority x"
  unfolding first_best_def by (elim exE conjE) (auto simp: order_le_less)

lemma better_gateway_skip: "\<not> is_default_route r \<Longrightarrow> better_gateway acc r = acc"
  by (auto simp: is_default_route_def better_gateway_def split: option.split)

lemma better_gateway_default:
  "is_default_route r \<Longrightarrow> better_gateway acc r =
    (case acc of
       None \<Rightarrow> Some (the (gateway r), priority r, the (out_if_index r))
     | Some (a, p, i) \<Rightarrow> if priority r < p then Some (the (gateway r), priority r, the (out_if_index r)) else acc)"
  by (auto simp: is_default_route_def better_gateway_def split: option.split)

lemma better_gateway_fold:
  "(foldl better_gateway None rts = None \<and> (\<forall>rt \<in> set rts. \<not> is_default_route rt)) \<or>
   (\<exists>rt. first_best rts rt \<and> foldl better_gateway None rts = Some (the (gateway rt), priority rt, the (out_if_index rt)))"
proof (induction rts rule: rev_induct)
  case Nil
  then show ?case by simp
next
  case (snoc r rts)
  show ?case
  proof (cases "is_default_route r")
    case False
    then show ?thesis using snoc.IH first_best_skip [of rts _ r] by (auto simp: better_gateway_skip)
  next
    case True
    from snoc.IH show ?thesis
    proof (elim disjE exE conjE)
      assume "foldl better_gateway None rts = None" "\<forall>rt \<in> set rts. \<not> is_default_route rt"
      moreover from this(2) have "first_best (rts @ [r]) r" by (intro first_best_take [OF True]) simp
      ultimately show ?thesis using True by (auto simp: better_gateway_default)
    next
      fix rt
      assume rt: "first_best rts rt"
        "foldl better_gateway None rts = Some (the (gateway rt), priority rt, the (out_if_index rt))"
      show ?thesis
      proof (cases "priority r < priority rt")
        case True
        then have "first_best (rts @ [r]) r"
          using first_best_least [OF rt(1)] \<open>is_default_route r\<close> by (intro first_best_take) (auto intro: less_le_trans)
        then show ?thesis using rt(2) True \<open>is_default_route r\<close> by (auto simp: better_gateway_default)
      next
        case False
        then have "first_best (rts @ [r]) rt" by (intro first_best_skip rt(1)) (simp add: not_less)
        then show ?thesis using rt(2) False \<open>is_default_route r\<close> by (auto simp: better_gateway_default)
      qed
    qed
  qed
qed

text \<open>
  \<^verbatim>\<open>find_default_gateway\<close> gives a default route with a gateway and an interface exactly when there is
  one, and then the first of those with the smallest priority value.
\<close>

theorem default_gateway_minimal:
  "(find_default_gateway rts = None \<and> (\<forall>rt \<in> set rts. \<not> is_default_route rt)) \<or>
   (\<exists>xs rt ys. rts = xs @ rt # ys \<and> is_default_route rt \<and> find_default_gateway rts = Some (gateway_of rt) \<and>
      (\<forall>x \<in> set xs. is_default_route x \<longrightarrow> priority rt < priority x) \<and>
      (\<forall>y \<in> set ys. is_default_route y \<longrightarrow> priority rt \<le> priority y))"
proof -
  have "find_default_gateway rts = Some (gateway_of rt)"
    if "foldl better_gateway None rts = Some (the (gateway rt), priority rt, the (out_if_index rt))" for rt
    using that by (simp add: find_default_gateway_def gateway_of_def)
  moreover have "find_default_gateway rts = None" if "foldl better_gateway None rts = None"
    using that by (simp add: find_default_gateway_def)
  ultimately show ?thesis using better_gateway_fold [of rts] unfolding first_best_def by metis
qed

theorem default_gateway_minimal_witness:
  "find_default_gateway [sample_route 0 0 (Some 9) 100, sample_route 24 0 (Some 5) 1, sample_route 0 0 (Some 8) 20]
     = Some \<lparr>g_ip = 8, g_priority = 20, g_if_index = 7\<rparr>"
proof -
  let ?a = "sample_route 0 0 (Some 9) 100" and ?b = "sample_route 24 0 (Some 5) 1" and ?c = "sample_route 0 0 (Some 8) 20"
  have d: "is_default_route ?a" "is_default_route ?c" "\<not> is_default_route ?b"
    by (simp_all add: is_default_route_def sample_route_def)
  then obtain xs rt ys where rt: "[?a, ?b, ?c] = xs @ rt # ys" "is_default_route rt"
    "find_default_gateway [?a, ?b, ?c] = Some (gateway_of rt)"
    "\<forall>x \<in> set xs. is_default_route x \<longrightarrow> priority rt < priority x"
    "\<forall>y \<in> set ys. is_default_route y \<longrightarrow> priority rt \<le> priority y"
    using default_gateway_minimal [of "[?a, ?b, ?c]"] by auto
  have s: "set (xs @ rt # ys) = {?a, ?b, ?c}" by (simp add: rt(1) [symmetric])
  then have "priority rt \<le> priority ?c" using rt(4,5) d(2) by (metis (no_types, lifting) UnE insertCI insertE list.simps(15) order_le_less set_append)
  moreover have "rt \<in> {?a, ?b, ?c}" using s by auto
  ultimately have "rt = ?c" using rt(2) d by (auto simp: sample_route_def)
  then show ?thesis using rt(3) by (simp add: gateway_of_def sample_route_def)
qed

section \<open>Routing\<close>

text \<open>
  What the documentation of \<^verbatim>\<open>route\<close> says, for the routes that the kernel reported: the longest matching route decides (of
  equal networks the last reported), the next hop is its gateway, or the destination if it has none, and the answer is the next hop
  with its hardware address, if that is known; without a matching route it is the destination, if its address is known.
\<close>

definition resolved :: "neighbor list \<Rightarrow> ipv4 \<Rightarrow> next_hop option" where
  "resolved ns ip = map_option (\<lambda>n. \<lparr>ip_addr = ip, mac_addr = Some (n_mac n)\<rparr>) (collect_neighbors ns ip)"

definition all_routes :: "ipv4_route list \<Rightarrow> ipv4 \<times> nat \<Rightarrow> ipv4_route option" where
  "all_routes rts = map_of (rev (map (\<lambda>rt. (route_key rt, rt)) rts))"

definition documented_hop :: "ipv4_route list \<Rightarrow> neighbor list \<Rightarrow> ipv4 \<Rightarrow> next_hop option" where
  "documented_hop rts ns ip =
     (case longest_match (all_routes rts) ip of
        Some rt \<Rightarrow> resolved ns (case gateway rt of Some g \<Rightarrow> g | None \<Rightarrow> ip)
      | None \<Rightarrow> resolved ns ip)"

text \<open>What the code computes: routes without a gateway are not kept, and a next hop that is not resolved is replaced by the destination.\<close>

definition next_hop_spec :: "ipv4_route list \<Rightarrow> neighbor list \<Rightarrow> ipv4 \<Rightarrow> next_hop option" where
  "next_hop_spec rts ns ip =
     (case Option.bind (longest_match (route_table rts) ip) gateway of
        None \<Rightarrow> resolved ns ip
      | Some g \<Rightarrow> if resolved ns g = None then resolved ns ip else resolved ns g)"

lemma route_table_all: "route_table rts = all_routes (filter (\<lambda>rt. gateway rt \<noteq> None) rts)"
  by (simp add: route_table_def all_routes_def)

lemma route_table_part:
  "(all_routes rts k = None \<longrightarrow> route_table rts k = None) \<and>
   (all_routes rts k = Some rt \<and> gateway rt \<noteq> None \<longrightarrow> route_table rts k = Some rt)"
  by (induction rts rule: rev_induct) (auto simp: all_routes_def route_table_def)

lemma longest_matchI:
  assumes "l \<le> 32" "t (net_prefix ip l, l) = Some rt" "\<And>l'. l' \<le> 32 \<Longrightarrow> l < l' \<Longrightarrow> t (net_prefix ip l', l') = None"
  shows "longest_match t ip = Some rt"
proof (cases "longest_match t ip")
  case None
  then show ?thesis using assms(1,2) by (simp add: longest_match_None)
next
  case (Some rt')
  then obtain m where m: "m \<le> 32" "t (net_prefix ip m, m) = Some rt'" "\<forall>l' \<le> 32. m < l' \<longrightarrow> t (net_prefix ip l', l') = None"
    using longest_match_Some by blast
  then have "m = l" using assms by (metis linorder_neqE_nat option.distinct(1))
  then show ?thesis using Some m(2) assms(2) by simp
qed

text \<open>Without the routes that have no gateway, a longest match that has one is still the longest match.\<close>

lemma longest_match_part:
  "longest_match (all_routes rts) ip = None \<Longrightarrow> longest_match (route_table rts) ip = None"
  "longest_match (all_routes rts) ip = Some rt \<Longrightarrow> gateway rt \<noteq> None \<Longrightarrow> longest_match (route_table rts) ip = Some rt"
proof -
  show "longest_match (route_table rts) ip = None" if "longest_match (all_routes rts) ip = None"
    using that route_table_part by (simp add: longest_match_None)
  show "longest_match (route_table rts) ip = Some rt" if "longest_match (all_routes rts) ip = Some rt" "gateway rt \<noteq> None"
  proof -
    note m = that
    obtain l where l: "l \<le> 32" "all_routes rts (net_prefix ip l, l) = Some rt"
      "\<forall>l' \<le> 32. l < l' \<longrightarrow> all_routes rts (net_prefix ip l', l') = None"
      using longest_match_Some [OF m(1)] by blast
    then show ?thesis
      using m(2) route_table_part by (intro longest_matchI [of l]) blast+
  qed
qed

lemma refresh_Ok:
  assumes lib: "net_lib_ok lib view key"
    and "get_ipv4_routes env (Some (r_if_index r)) = Ok rts" "get_neighbors env (Some (r_if_index r)) = Ok ns"
    and "\<forall>rt \<in> set rts. unat (dest_prefix rt) \<le> 32"
  shows "\<exists>m. refresh lib env r = (r\<lparr>r_neighbors := collect_neighbors ns, r_routes := m\<rparr>, Ok ()) \<and> view m = route_table rts"
proof -
  obtain m where "insert_routes lib rts (pm_new lib) = Ok m" "view m = view (pm_new lib) ++ route_table rts"
    using insert_routes_Ok [OF lib assms(4)] by blast
  moreover have "view (pm_new lib) = Map.empty" using lib by (simp add: net_lib_ok_def)
  ultimately show ?thesis using assms(2,3) by (intro exI [of _ m]) (simp add: refresh_def)
qed

lemma route_table_gateway: "route_table rts k = Some rt \<Longrightarrow> gateway rt \<noteq> None"
  unfolding route_table_def by (drule map_of_SomeD) auto

lemma longest_match_gateway: "longest_match (route_table rts) ip = Some rt \<Longrightarrow> gateway rt \<noteq> None"
  using longest_match_Some route_table_gateway by blast

lemma route_is_spec:
  assumes lib: "net_lib_ok lib view key" and m: "view m = route_table rts"
  shows "route lib (r\<lparr>r_neighbors := collect_neighbors ns, r_routes := m\<rparr>) ip = next_hop_spec rts ns ip"
proof -
  have lpm: "map_option snd (pm_lpm lib m (net_from lib ip)) = longest_match (route_table rts) ip"
    using lib m by (simp add: net_lib_ok_def)
  show ?thesis
  proof (cases "pm_lpm lib m (net_from lib ip)")
    case None
    then show ?thesis using lpm by (simp add: route_def next_hop_spec_def resolved_def Let_def split: option.split)
  next
    case (Some p)
    then have l: "longest_match (route_table rts) ip = Some (snd p)" using lpm by simp
    then obtain g where "gateway (snd p) = Some g" using longest_match_gateway by blast
    then show ?thesis using Some l by (cases p) (simp add: route_def next_hop_spec_def resolved_def Let_def split: option.split)
  qed
qed

lemma next_hop_documented:
  "case longest_match (all_routes rts) ip of
     None \<Rightarrow> next_hop_spec rts ns ip = documented_hop rts ns ip
   | Some rt \<Rightarrow>
       (case gateway rt of
          Some g \<Rightarrow>
            (if resolved ns g \<noteq> None then next_hop_spec rts ns ip = documented_hop rts ns ip
             else documented_hop rts ns ip = None \<and> next_hop_spec rts ns ip = resolved ns ip)
        | None \<Rightarrow> documented_hop rts ns ip = resolved ns ip \<and>
            next_hop_spec rts ns ip =
              (case documented_hop (filter (\<lambda>rt. gateway rt \<noteq> None) rts) ns ip of
                 Some h \<Rightarrow> Some h | None \<Rightarrow> resolved ns ip))"
proof (cases "longest_match (all_routes rts) ip")
  case None
  then show ?thesis using longest_match_part(1) [OF None] by (simp add: next_hop_spec_def documented_hop_def)
next
  case (Some rt)
  show ?thesis
  proof (cases "gateway rt")
    case g: (Some g)
    then show ?thesis
      using Some longest_match_part(2) [OF Some] by (simp add: next_hop_spec_def documented_hop_def)
  next
    case None
    have on_link: "documented_hop rts ns ip = resolved ns ip" using Some None by (simp add: documented_hop_def)
    have kept: "documented_hop (filter (\<lambda>rt. gateway rt \<noteq> None) rts) ns ip =
      (case longest_match (route_table rts) ip of
         Some rt' \<Rightarrow> resolved ns (case gateway rt' of Some g \<Rightarrow> g | None \<Rightarrow> ip) | None \<Rightarrow> resolved ns ip)"
      by (simp only: documented_hop_def route_table_all)
    have "next_hop_spec rts ns ip =
      (case documented_hop (filter (\<lambda>rt. gateway rt \<noteq> None) rts) ns ip of Some h \<Rightarrow> Some h | None \<Rightarrow> resolved ns ip)"
      unfolding kept using longest_match_gateway
      by (cases "longest_match (route_table rts) ip") (fastforce simp: next_hop_spec_def split: option.splits)+
    with on_link Some None show ?thesis by (simp only: option.case simp_thms)
  qed
qed

text \<open>
  C36. After a successful \<^verbatim>\<open>refresh\<close>, \<^verbatim>\<open>route\<close> answers every lookup from the routes and neighbours that the kernel reported, and as its
  documentation says (\<open>documented_hop\<close>) in two of four cases: if no route matches, and if the longest matching route has a gateway whose
  hardware address is known. If that gateway is not known, the documentation says that there is no answer, and the code
  answers with the destination itself if its address is known. If the longest matching route has no gateway, the documentation
  says that the destination is the next hop, and the code answers as if the kernel had reported only routes with a gateway.
\<close>

theorem router_next_hop:
  assumes "net_lib_ok lib view key"
    and "get_ipv4_routes env (Some (r_if_index r)) = Ok rts" "get_neighbors env (Some (r_if_index r)) = Ok ns"
    and "\<forall>rt \<in> set rts. unat (dest_prefix rt) \<le> 32"
  shows "\<exists>r'. refresh lib env r = (r', Ok ()) \<and>
    (\<forall>ip. case longest_match (all_routes rts) ip of
       None \<Rightarrow> route lib r' ip = documented_hop rts ns ip
     | Some rt \<Rightarrow>
         (case gateway rt of
            Some g \<Rightarrow>
              (if resolved ns g \<noteq> None then route lib r' ip = documented_hop rts ns ip
               else documented_hop rts ns ip = None \<and> route lib r' ip = resolved ns ip)
          | None \<Rightarrow> documented_hop rts ns ip = resolved ns ip \<and>
              route lib r' ip =
                (case documented_hop (filter (\<lambda>rt. gateway rt \<noteq> None) rts) ns ip of
                   Some h \<Rightarrow> Some h | None \<Rightarrow> resolved ns ip)))"
proof -
  obtain r' where r': "refresh lib env r = (r', Ok ())" "\<And>ip. route lib r' ip = next_hop_spec rts ns ip"
    using refresh_Ok [OF assms] route_is_spec [OF assms(1)] by metis
  show ?thesis
    by (intro exI [of _ r'] conjI allI r'(1)) (simp only: r'(2) next_hop_documented)
qed

lemma sample_prefixes: "unat (dest_prefix (sample_route l d g p)) = unat l"
  by (simp add: sample_route_def)

theorem router_next_hop_witness:
  "\<exists>r'. refresh table_lib (sample_nl [1, 3, 2, 4, 5, 9]) (router_new table_lib 7) = (r', Ok ()) \<and>
     route table_lib r' 0x08080808 = Some \<lparr>ip_addr = 0x0A000001, mac_addr = Some [2, 0, 0, 0, 0, 1]\<rparr> \<and>
     documented_hop [sample_route 0 0 (Some 0x0A000001) 100, sample_route 24 0x0A000000 None 0]
       [sample_neighbor 0x0A000001 1, sample_neighbor 0x0A000005 5] 0x08080808 =
       Some \<lparr>ip_addr = 0x0A000001, mac_addr = Some [2, 0, 0, 0, 0, 1]\<rparr>"
proof -
  let ?rts = "[sample_route 0 0 (Some 0x0A000001) 100, sample_route 24 0x0A000000 None 0]"
  let ?ns = "[sample_neighbor 0x0A000001 1, sample_neighbor 0x0A000005 5]"
  have if7: "r_if_index (router_new table_lib 7) = 7" by (simp add: router_new_def)
  have "net_prefix 0x08080808 24 = 0x08080800" "net_prefix 0x0A000000 24 = 0x0A000000" "net_prefix a 0 = 0" for a
    by (simp_all add: net_prefix_def)
  then have table: "all_routes ?rts = [(0, 0) \<mapsto> sample_route 0 0 (Some 0x0A000001) 100, (0x0A000000, 24) \<mapsto> sample_route 24 0x0A000000 None 0]"
    and no: "net_prefix 0x08080808 24 \<noteq> 0x0A000000"
    by (simp_all add: all_routes_def route_key_def sample_route_def)
  have match: "longest_match (all_routes ?rts) 0x08080808 = Some (sample_route 0 0 (Some 0x0A000001) 100)"
    by (rule longest_matchI [of 0]) (use no in \<open>auto simp: table net_prefix_def\<close>)
  have gw: "gateway (sample_route 0 0 (Some 0x0A000001) 100) = Some 0x0A000001" by (simp add: sample_route_def)
  have known: "resolved ?ns 0x0A000001 = Some \<lparr>ip_addr = 0x0A000001, mac_addr = Some [2, 0, 0, 0, 0, 1]\<rparr>"
    by (simp add: resolved_def collect_neighbors_def sample_neighbor_def)
  have "documented_hop ?rts ?ns 0x08080808 = Some \<lparr>ip_addr = 0x0A000001, mac_addr = Some [2, 0, 0, 0, 0, 1]\<rparr>"
    by (simp add: documented_hop_def match gw known)
  moreover have "\<forall>rt \<in> set ?rts. unat (dest_prefix rt) \<le> 32" by (simp add: sample_prefixes)
  ultimately show ?thesis
    using router_next_hop [OF table_lib_ok, of "sample_nl [1, 3, 2, 4, 5, 9]" "router_new table_lib 7" ?rts ?ns] sample_routes
    by (auto simp: if7 match gw known dest!: spec [of _ "0x08080808"])
qed

text \<open>
  A failed \<^verbatim>\<open>refresh\<close> leaves the cached tables as they were, whether a query failed or a route has a
  prefix length over 32; it fails with invalid data in that last case even when the route has no gateway.
\<close>

theorem refresh_failure_keeps_tables:
  assumes "net_lib_ok lib view key"
  shows "(snd (refresh lib env r) \<noteq> Ok () \<longrightarrow> fst (refresh lib env r) = r) \<and>
    (get_ipv4_routes env (Some (r_if_index r)) = Ok rts \<and> get_neighbors env (Some (r_if_index r)) = Ok ns \<and>
       (\<exists>rt \<in> set rts. 32 < unat (dest_prefix rt)) \<longrightarrow>
     refresh lib env r = (r, Err (InvalidDataError ''Invalid destination prefix'')))"
  using insert_routes_fails [OF assms, of rts "pm_new lib"]
  by (auto simp: refresh_def split: try_in_split)

theorem refresh_failure_keeps_tables_witness:
  "refresh table_lib ((sample_nl [])\<lparr>nl_socket := Err (OsError (Errno 13))\<rparr>) (router_new table_lib 7) =
     (router_new table_lib 7, Err (OsError (Errno 13)))"
proof -
  let ?env = "(sample_nl [])\<lparr>nl_socket := Err (OsError (Errno 13))\<rparr>"
  have "snd (refresh table_lib ?env (router_new table_lib 7)) = Err (OsError (Errno 13))"
    by (simp add: refresh_def get_ipv4_routes_def netlink_def)
  then show ?thesis
    using refresh_failure_keeps_tables [OF table_lib_ok, of ?env "router_new table_lib 7"]
    by (metis prod.collapse res.distinct(1))
qed

text \<open>
  C38. Routes without a gateway are dropped: when the only route with a gateway is the default route and
  its gateway is a known neighbour, every destination gets the gateway as its next hop, also one on the
  local network whose own hardware address is known.
\<close>

theorem on_link_goes_to_gateway:
  assumes "net_lib_ok lib view key"
    and "get_ipv4_routes env (Some (r_if_index r)) = Ok rts" "get_neighbors env (Some (r_if_index r)) = Ok ns"
    and "\<forall>rt \<in> set rts. unat (dest_prefix rt) \<le> 32"
    and "filter (\<lambda>rt. gateway rt \<noteq> None) rts = [d]" "dest_prefix d = 0" "gateway d = Some g"
    and "collect_neighbors ns g = Some n"
  shows "\<exists>r'. refresh lib env r = (r', Ok ()) \<and>
    (\<forall>ip. route lib r' ip = Some \<lparr>ip_addr = g, mac_addr = Some (n_mac n)\<rparr>)"
proof -
  have zero: "net_prefix a 0 = 0" for a by (simp add: net_prefix_def)
  have table: "route_table rts = [(0, 0) \<mapsto> d]"
    using assms(5,6) by (auto simp: route_table_def route_key_def zero)
  have "longest_match (route_table rts) ip = Some d" for ip
  proof (cases "longest_match (route_table rts) ip")
    case None
    then show ?thesis using longest_match_None [of "route_table rts" ip] zero table by fastforce
  next
    case (Some rt)
    then show ?thesis using longest_match_Some [OF Some] by (auto simp: table split: if_splits)
  qed
  then have "next_hop_spec rts ns ip = Some \<lparr>ip_addr = g, mac_addr = Some (n_mac n)\<rparr>" for ip
    using assms(7,8) by (simp add: next_hop_spec_def resolved_def)
  then show ?thesis using refresh_Ok [OF assms(1-4)] route_is_spec [OF assms(1)] by metis
qed

theorem on_link_goes_to_gateway_witness:
  "\<exists>r'. refresh table_lib (sample_nl [1, 3, 2, 4, 5, 9]) (router_new table_lib 7) = (r', Ok ()) \<and>
     route table_lib r' 0x0A000005 = Some \<lparr>ip_addr = 0x0A000001, mac_addr = Some [2, 0, 0, 0, 0, 1]\<rparr>"
proof -
  let ?rts = "[sample_route 0 0 (Some 0x0A000001) 100, sample_route 24 0x0A000000 None 0]"
  let ?ns = "[sample_neighbor 0x0A000001 1, sample_neighbor 0x0A000005 5]"
  have if7: "r_if_index (router_new table_lib 7) = 7" by (simp add: router_new_def)
  have "filter (\<lambda>rt. gateway rt \<noteq> None) ?rts = [sample_route 0 0 (Some 0x0A000001) 100]"
    by (simp add: sample_route_def)
  moreover have "collect_neighbors ?ns 0x0A000001 = Some (sample_neighbor 0x0A000001 1)"
    by (simp add: collect_neighbors_def sample_neighbor_def)
  moreover have "\<forall>rt \<in> set ?rts. unat (dest_prefix rt) \<le> 32" by (simp add: sample_prefixes)
  moreover have "dest_prefix (sample_route 0 0 (Some 0x0A000001) 100) = 0"
    "gateway (sample_route 0 0 (Some 0x0A000001) 100) = Some 0x0A000001"
    "n_mac (sample_neighbor 0x0A000001 1) = [2, 0, 0, 0, 0, 1]"
    by (simp_all add: sample_route_def sample_neighbor_def)
  ultimately show ?thesis
    using on_link_goes_to_gateway [OF table_lib_ok] sample_routes if7 by metis
qed

section \<open>Packet headers\<close>

text \<open>
  The header of a UDP packet is the first 42 bytes that the packet builder writes, in whatever pieces
  it writes them and however long the payload behind them is; fewer bytes leave zeros at the end.
\<close>

theorem udp_header_is_stream_prefix:
  assumes "build \<lparr>src_mac = sm, dst_mac = dm, src_addr = sa, dst_addr = da, ttl = 64, src_port = sp, dst_port = dp\<rparr> data
    = (pieces, Ok ())"
  shows "write_udp_header_for build data sa sm sp da dm dp =
      Ok (take 42 (concat pieces) @ replicate (42 - length (concat pieces)) 0)"
  by (rule header_is_prefix [of build, OF assms])

theorem udp_header_is_stream_prefix_witness:
  "write_udp_header_for (\<lambda>flow data. ([replicate 14 1, replicate 20 2, replicate 8 3, data], Ok ())) [7, 7, 7] 1 [] 2 3 [] 4 =
     Ok (replicate 14 1 @ replicate 20 2 @ replicate 8 3)"
  by (subst udp_header_is_stream_prefix [OF refl]) simp

section \<open>Programs and descriptors\<close>

text \<open>
  C39. Attaching a program leaks nothing: when it fails, at whatever step, the object and the link it took
  have been released; when it succeeds it owns a live object and a live link, and its destructor
  releases both, the link first.
\<close>

theorem attach_no_leak:
  assumes "xdp_attach_program bpf [] if_index code name = (tr, r)"
  shows "(\<forall>e. r = Err e \<longrightarrow> holds bpf_acq bpf_rel tr {#}) \<and>
    (\<forall>p. r = Ok p \<longrightarrow> bpf_obj p \<noteq> 0 \<and> bpf_link p \<noteq> 0 \<and> holds bpf_acq bpf_rel tr (prog_owns p) \<and>
       holds bpf_acq bpf_rel (owned_prog_drop bpf p tr) {#} \<and>
       map fst (owned_prog_drop bpf p tr) = map fst tr @ [BpfLinkDestroy (bpf_link p), BpfObjectClose (bpf_obj p)])"
proof -
  have "map fst (owned_prog_drop bpf p tr) = map fst tr @ [BpfLinkDestroy (bpf_link p), BpfObjectClose (bpf_obj p)]"
    if "bpf_link p \<noteq> 0" "bpf_obj p \<noteq> 0" for p
    using that by (simp add: owned_prog_drop_def bpf_call_eq Let_def)
  then show ?thesis
    using attach_outcome [OF assms] owned_prog_drop_releases [of tr _ "{#}" bpf] by (cases r) auto
qed

definition sample_bpf :: bpf where
  "sample_bpf tr c = \<lparr>b_ret = 0, b_ptr = (case c of BpfAttach p i \<Rightarrow> 0 | _ \<Rightarrow> 4096), b_flags = 0, b_errno = EBUSY\<rparr>"

theorem attach_no_leak_witness:
  "\<exists>tr e. xdp_attach_program sample_bpf [] 2 [1, 2, 3] ''xdp'' = (tr, Err e) \<and> holds bpf_acq bpf_rel tr {#} \<and> length tr = 5"
proof -
  obtain tr e where r: "xdp_attach_program sample_bpf [] 2 [1, 2, 3] ''xdp'' = (tr, Err e)" "length tr = 5"
    by (simp add: xdp_attach_program_def bpf_call_eq Let_def sample_bpf_def owned_prog_drop_def)
  then show ?thesis using attach_no_leak [OF r(1)] by blast
qed

text \<open>
  \<^verbatim>\<open>mac_by_ifindex\<close> closes its socket on every path, success and both failures, and opens no other.
  The error it reports after a failed query is the error number that is stored after the close.
\<close>

theorem mac_socket_closed:
  assumes "mac_by_ifindex sys [] if_index = (tr, r)"
  shows "holds mac_acq mac_rel tr {#} \<and>
    (\<forall>e. r = Err e \<longrightarrow> e = OsError (m_errno (snd (last tr)))) \<and>
    (\<forall>m. r = Ok m \<longrightarrow> length tr = 4 \<and> m = take 6 (ifru_hwaddr (m_req (snd (tr ! 2)))))"
  using assms mac_closed [OF assms] by (auto simp: mac_by_ifindex_def sys_call_def Let_def split: if_splits)

definition sample_mac_sys :: "mac_run \<Rightarrow> mac_call \<Rightarrow> mac_answer" where
  "sample_mac_sys tr c = \<lparr>m_ret = (case c of McSocket \<Rightarrow> 5 | McGetName fd q \<Rightarrow> - 1 | _ \<Rightarrow> 0),
     m_req = ifreq_zero, m_errno = Errno 19\<rparr>"

theorem mac_socket_closed_witness:
  "\<exists>tr. mac_by_ifindex sample_mac_sys [] 9 = (tr, Err (OsError (Errno 19))) \<and> holds mac_acq mac_rel tr {#} \<and> length tr = 3"
proof -
  obtain tr where r: "mac_by_ifindex sample_mac_sys [] 9 = (tr, Err (OsError (Errno 19)))" "length tr = 3"
    by (simp add: mac_by_ifindex_def sys_call_def Let_def sample_mac_sys_def)
  then show ?thesis using mac_socket_closed [OF r(1)] by blast
qed

end
