(* ===== verification/Socket_Types.thy ===== *)
theory Socket_Types
  imports Tx_Protocol Rx Sample
begin

unbundle bit_operations_syntax

text \<open>
  The type invariant of a socket and its soundness: a socket is well-typed when its rings are well-formed, its
  UMEM covers all frames and every descriptor and every address in its rings points to a whole frame. No call
  on a well-typed socket is undefined, and each leaves a well-typed socket, also when it fails or panics.
\<close>

section \<open>Well-typed sockets\<close>

definition addr_ok :: "u64 \<Rightarrow> bool" where
  "addr_ok a \<longleftrightarrow> unat a + 2048 \<le> 8388608"

definition slots_in :: "('a \<Rightarrow> bool) \<Rightarrow> 'a ring \<Rightarrow> bool" where
  "slots_in P r \<longleftrightarrow> (\<forall>i. P (slot_rd r i))"

abbreviation desc_ok :: "xdp_desc \<Rightarrow> bool" where
  "desc_ok d \<equiv> addr_ok (d_addr d)"

definition memory_typed :: "socket \<Rightarrow> bool" where
  "memory_typed s \<longleftrightarrow> umem_ok s \<and> slots_in desc_ok (x_ring s) \<and> slots_in addr_ok (u_ring s)"

definition tx_typed :: "socket \<Rightarrow> bool" where
  "tx_typed s \<longleftrightarrow> wf_tx s \<and> memory_typed s"

definition rx_typed :: "socket \<Rightarrow> bool" where
  "rx_typed s \<longleftrightarrow> wf_rx s \<and> memory_typed s"

text \<open>A call that keeps a type \<open>T\<close> of sockets and is not undefined.\<close>

definition call_typed :: "('s \<Rightarrow> bool) \<Rightarrow> 's \<times> ('e, 'a) res \<Rightarrow> bool" where
  "call_typed T p \<longleftrightarrow> T (fst p) \<and> snd p \<noteq> Undef"

lemma call_typed_and_then:
  assumes "call_typed T p" "\<And>a s. T s \<Longrightarrow> call_typed T (k a s)"
  shows "call_typed T (and_then p k)"
  using assms by (cases p; cases "snd p") (auto simp: call_typed_def)

lemma call_typed_try_in:
  "T s \<Longrightarrow> r \<noteq> Undef \<Longrightarrow> (\<And>a. r = Ok a \<Longrightarrow> call_typed T (k a)) \<Longrightarrow> call_typed T (try_in s r k)"
  by (cases r) (simp_all add: call_typed_def)

lemma slots_in_publish [simp]:
  "slots_in P (set_prod r h) = slots_in P r" "slots_in P (set_cons r h) = slots_in P r"
  by (simp_all add: slots_in_def)

lemma slots_in_wr:
  assumes "ring_ok r" "slots_in P r" "P v"
  shows "slots_in P (slot_wr r i v)"
  unfolding slots_in_def
proof
  fix j
  show "P (slot_rd (slot_wr r i v) j)"
    using assms rings.rd_wr_same [OF assms(1), of i j v] rings.rd_wr_other [OF assms(1), of i j v]
    by (cases "unat i mod ring_cap r = unat j mod ring_cap r") (simp_all add: slots_in_def)
qed

lemma slots_in_list:
  assumes "ring_ok r" "list_all P (desc_ix (the_cells r))"
  shows "slots_in P r"
  using assms slot_index_lt [OF assms(1)] by (simp add: slots_in_def slot_rd_def list_all_length ring_okD)

lemma slots_in_copy:
  "ring_ok u \<Longrightarrow> slots_in desc_ok x \<Longrightarrow> slots_in addr_ok u \<Longrightarrow> slots_in addr_ok (copy_slots k x c u p)"
proof (induction k x c u p rule: copy_slots.induct)
  case (2 k x c u p)
  have "desc_ok (slot_rd x c)" using 2(3) by (simp add: slots_in_def)
  then show ?case using 2 by (simp add: slots_in_wr)
qed simp

section \<open>Packet buffers\<close>

lemma peek_typed:
  fixes res :: "(ring_error, slice) res"
  assumes "safety_checks b" "ring_ok r" "slots_in desc_ok r" "8388608 \<le> n" "unat len < 2 ^ 63"
    and "mut_bytes_at b r (Some n) (i AND mod_mask r) len = (r', res)"
  shows "ring_ok r' \<and> slots_in desc_ok r' \<and> ring_cap r' = ring_cap r \<and> prod_ix r' = prod_ix r \<and> cons_ix r' = cons_ix r \<and> res \<noteq> Undef"
proof -
  have a: "desc_ok (slot_rd r i)" using assms(3) by (simp add: slots_in_def)
  then have "unat (d_addr (slot_rd r i)) + unat len < 2 ^ 64" using assms(5) by (simp add: addr_ok_def)
  then have "res \<noteq> Undef" using mut_bytes_at_in_bounds [OF assms(1,2,4), of i len, where ?'a = ring_error and ?'b = ring_error] assms(6) by auto
  moreover have "r' = r \<or> (\<exists>l. r' = slot_wr r i ((slot_rd r i)\<lparr>d_len := l\<rparr>))"
    using mut_bytes_at_effect [OF assms(2,6)] by blast
  moreover have "slots_in desc_ok (slot_wr r i ((slot_rd r i)\<lparr>d_len := l\<rparr>))" for l
    by (rule slots_in_wr [OF assms(2,3)]) (use a in simp)
  ultimately show ?thesis using assms(2,3) by auto
qed

lemma umem_okD:
  assumes "umem_ok s"
  obtains n where "frames s = Some n" "8388608 \<le> n"
  using assms by (auto simp: umem_ok_def split: option.splits)

lemma peek_tx_typed:
  assumes "tx_typed s" "safety_checks b"
  shows "call_typed tx_typed (peek_tx b s i len)"
proof -
  have x: "ring_ok (x_ring s)" "slots_in desc_ok (x_ring s)" and um: "umem_ok s"
    using assms(1) by (simp_all add: tx_typed_def memory_typed_def wf_tx_def)
  obtain n where n: "frames s = Some n" "8388608 \<le> n" using um by (rule umem_okD)
  let ?i = "producer s + ucast i"
  let ?x = "slot_wr (x_ring s) ?i ((slot_rd (x_ring s) ?i)\<lparr>d_len := ucast len\<rparr>)"
  obtain x' and r :: "(ring_error, slice) res"
    where m: "mut_bytes_at b ?x (Some n) (?i AND mod_mask ?x) len = (x', r)" by fastforce
  have "slots_in desc_ok ?x"
    using slots_in_wr [OF x, of "(slot_rd (x_ring s) ?i)\<lparr>d_len := ucast len\<rparr>"] x(2) by (simp add: slots_in_def)
  then have "call_typed tx_typed (s\<lparr>x_ring := x'\<rparr>, r)" if "unat len \<le> 2048"
    using peek_typed [OF assms(2) _ _ n(2) _ m] that assms(1) x(1)
    by (simp add: call_typed_def tx_typed_def memory_typed_def wf_tx_def umem_ok_def pending_def)
  moreover have "unat len \<le> 2048" if "\<not> frame_size (x_ring s) < len"
    using that by (simp add: frame_size_def word_less_nat_alt FRAME_SIZE_def)
  ultimately show ?thesis
    using assms x(1) m by (simp add: peek_tx_def mut_desc_at_ok n(1) Let_def call_typed_def)
qed

lemma peek_rx_typed:
  assumes "rx_typed s" "safety_checks b"
  shows "call_typed rx_typed (peek_rx b s i)"
proof -
  have x: "ring_ok (x_ring s)" "slots_in desc_ok (x_ring s)" and um: "umem_ok s"
    using assms(1) by (simp_all add: rx_typed_def memory_typed_def wf_rx_def rings_rx_def)
  obtain n where n: "frames s = Some n" "8388608 \<le> n" using um by (rule umem_okD)
  let ?i = "consumer s + ucast i"
  let ?len = "ucast (d_len (slot_rd (x_ring s) ?i)) :: usize"
  obtain x' and r :: "(ring_error, slice) res"
    where m: "mut_bytes_at b (x_ring s) (Some n) (?i AND mod_mask (x_ring s)) ?len = (x', r)" by fastforce
  have "unat ?len < 2 ^ 63" using unat_lt_u32 [of "d_len (slot_rd (x_ring s) ?i)"] by simp
  then have "call_typed rx_typed (s\<lparr>x_ring := x'\<rparr>, r)"
    using peek_typed [OF assms(2) x n(2) _ m] assms(1)
    by (simp add: call_typed_def rx_typed_def memory_typed_def wf_rx_def rings_rx_def umem_ok_def received_def)
  then show ?thesis
    using assms x(1) m by (simp add: peek_rx_def desc_at_ok n(1) Let_def call_typed_def)
qed

section \<open>Seeking and committing\<close>

lemma seek_tx_typed:
  assumes "tx_typed s"
  shows "call_typed tx_typed (seek_tx b s n)"
proof (cases "n \<le> ucast (available s) \<or> pending s = 0")
  case True
  then show ?thesis
    using assms seek_tx_hit [of n s b] seek_tx_empty [of s n b]
    by (cases "n \<le> ucast (available s)") (simp_all add: call_typed_def tx_typed_def)
next
  case False
  define k where "k = min (unat n - unat (available s)) (pending s)"
  have wf: "wf_tx s" and m: "memory_typed s" using assms by (simp_all add: tx_typed_def)
  have "desc_ok (xdp_desc_new (slot_rd (u_ring s) j) 0 0)" for j
    using m by (simp add: memory_typed_def slots_in_def xdp_desc_new_def)
  then have "memory_typed (reclaimed k s)"
    using m wf_txD(1) [OF wf] by (simp add: memory_typed_def reclaimed_def umem_ok_def slots_in_wr)
  moreover have "wf_tx (reclaimed k s)" using wf by (simp add: wf_tx_reclaimed k_def)
  ultimately show ?thesis
    using False seek_tx_reclaims [OF wf _ _ k_def, of b] by (simp add: call_typed_def tx_typed_def)
qed

lemma commit_tx_typed:
  assumes "tx_typed s" "safety_checks b"
  shows "call_typed tx_typed (commit_tx b s n)"
proof (cases "ucast n \<le> available s")
  case True
  then show ?thesis
    using assms wf_tx_commit [OF _ True] commit_tx_ok [OF _ True]
    by (simp add: call_typed_def tx_typed_def memory_typed_def umem_ok_def)
next
  case False
  then show ?thesis using assms tx.commit_refused [of b s n] by (simp add: call_typed_def not_le)
qed

lemma seek_rx_typed:
  assumes "rx_typed s"
  shows "call_typed rx_typed (seek_rx b s n)"
proof -
  have wf: "wf_rx s" using assms by (simp add: rx_typed_def)
  have "memory_typed (s\<lparr>available := a\<rparr>)" for a
    using assms by (simp add: rx_typed_def memory_typed_def umem_ok_def)
  moreover have "fst (seek_rx b s n) \<in> range (\<lambda>a. s\<lparr>available := a\<rparr>)"
  proof -
    have "s \<in> range (\<lambda>a. s\<lparr>available := a\<rparr>)" by (rule range_eqI [of _ _ "available s"]) simp
    moreover have "ring_ok (x_ring s)" using wf by (simp add: wf_rx_def rings_rx_def)
    ultimately show ?thesis
      using seek_rx_empty [of s n b] seek_rx_finds [of s n b] rx.seek_hit [of n s b]
      by (cases "n \<le> ucast (available s)"; cases "received s = 0") auto
  qed
  ultimately show ?thesis
    using rx.seek_preserves [OF wf, of b n] by (auto simp: call_typed_def rx_typed_def)
qed

lemma commit_rx_typed:
  assumes "rx_typed s" "safety_checks b"
  shows "call_typed rx_typed (commit_rx b s n)"
proof (cases "ucast n \<le> available s")
  case True
  have wf: "wf_rx s" and m: "memory_typed s" using assms(1) by (simp_all add: rx_typed_def)
  then have "ring_ok (u_ring s)" "rings_rx s" by (simp_all add: wf_rx_def rings_rx_def)
  then show ?thesis
    using commit_rx_ok [OF _ True, of b] wf_rx_released [OF wf True] m
    by (simp add: call_typed_def rx_typed_def) (simp add: memory_typed_def umem_ok_def released_def slots_in_copy)
next
  case False
  then show ?thesis using assms rx.commit_refused [of b s n] by (simp add: call_typed_def not_le)
qed


section \<open>Soundness\<close>

lemma kick_defined: "ring_ok (x_ring s) \<Longrightarrow> snd (kick env s) \<noteq> Undef"
  using kick_error_cases [of "snd (sys_sendto env (raw_fd s))"]
  by (auto simp: kick_def ring_okD Let_def split: prod.split)

text \<open>The state of a send is the socket with the bytes of the UMEM.\<close>

lemma send_typed:
  assumes "tx_typed s" "safety_checks b"
  shows "call_typed (\<lambda>w. tx_typed (fst w)) (send b (s, mem) data header)"
proof -
  obtain s1 r where peek: "peek_tx_0 b s (of_nat (length data) + of_nat (length (header_bytes header))) = (s1, r)"
    by fastforce
  then have p: "tx_typed s1" "r \<noteq> Undef"
    using peek_tx_typed [OF assms, of 0 "of_nat (length data) + of_nat (length (header_bytes header))"]
    by (simp_all add: call_typed_def peek_tx_0_def)
  have hdr: "(case header of None \<Rightarrow> 0 | Some h \<Rightarrow> length h) = length (header_bytes header)"
    by (simp add: header_bytes_def split: option.split)
  have copy: "copy_from_slice m sl i j bs \<noteq> Undef" for m sl i j bs
    by (simp add: copy_from_slice_def)
  obtain s2 r2 where commit: "socket_commit commit_tx b s1 = (s2, r2)" by fastforce
  then have "tx_typed s2" "r2 \<noteq> Undef"
    using commit_tx_typed [OF p(1) assms(2), of 1] by (auto simp: call_typed_def socket_commit_def)
  then have "call_typed (\<lambda>w. tx_typed (fst w)) ((s2, m), r2)" for m by (simp add: call_typed_def)
  moreover have "(case header of Some bs \<Rightarrow> copy_from_slice mem sl 0 (length (header_bytes header)) bs | None \<Rightarrow> Ok mem) \<noteq> Undef"
    for sl using copy by (simp split: option.split)
  ultimately show ?thesis
    unfolding send_def hdr Let_def prod.case
    by (intro call_typed_try_in) (use p assms(1) copy in \<open>auto simp: add_chk_def peek commit intro!: call_typed_try_in split: if_splits\<close>)
qed

text \<open>
  C19. No transmit call is undefined on a well-typed socket, whatever its arguments: the result is a value, an error or
  a panic, and the socket stays well-typed, so that this holds for every sequence of calls.
\<close>

theorem tx_calls_type_sound:
  assumes s: "tx_typed s" and b: "safety_checks b"
  shows "call_typed tx_typed (socket_seek_n seek_tx b s n) \<and>
    call_typed tx_typed (peek_at_tx b s i len) \<and>
    call_typed tx_typed (seek_and_peek_tx b s len) \<and>
    call_typed tx_typed (socket_commit_n commit_tx b s n) \<and>
    call_typed tx_typed (commit_and_kick commit_tx env b s n) \<and>
    call_typed (\<lambda>w. tx_typed (fst w)) (send b (s, mem) data header)"
proof -
  have "call_typed tx_typed (s', map_err Io (snd (kick env s')))" if "tx_typed s'" for s'
    using that kick_defined [of s' env] by (simp add: call_typed_def tx_typed_def wf_tx_def)
  then show ?thesis
    using seek_tx_typed [OF s] peek_tx_typed [OF _ b] commit_tx_typed [OF s b] send_typed [OF s b] s
    by (simp add: socket_seek_n_def peek_at_tx_def seek_and_peek_tx_def socket_commit_n_def commit_and_kick_def
        call_typed_and_then)
qed

lemma small_tx_typed: "tx_typed small_tx"
proof -
  have "slots_in desc_ok (x_ring small_tx)" "slots_in addr_ok (u_ring small_tx)"
    by (rule slots_in_list; simp add: small_tx_def addr_ok_def)+
  then show ?thesis
    by (simp add: tx_typed_def memory_typed_def) (simp add: small_tx_def umem_ok_def wf_tx_def pending_def)
qed

theorem tx_calls_type_sound_witness:
  "tx_typed (fst (socket_seek_n seek_tx sample_build small_tx 100)) \<and>
   snd (peek_at_tx sample_build small_tx 1 2048) \<noteq> Undef"
  using tx_calls_type_sound [OF small_tx_typed sample_build_simps(1), of 100 1 2048] by (simp add: call_typed_def)

text \<open>
  C20. The same for the receive side, where the lengths in the descriptors are those the kernel has written: no
  length reaches behind the UMEM.
\<close>

theorem rx_calls_type_sound:
  assumes s: "rx_typed s" and b: "safety_checks b"
  shows "call_typed rx_typed (socket_seek_n seek_rx b s n) \<and>
    call_typed rx_typed (peek_at_rx b s i) \<and>
    call_typed rx_typed (seek_and_peek_rx b s) \<and>
    call_typed rx_typed (socket_commit_n commit_rx b s n) \<and>
    call_typed rx_typed (commit_and_kick commit_rx env b s n)"
proof -
  have "call_typed rx_typed (s', map_err Io (snd (kick env s')))" if "rx_typed s'" for s'
    using that kick_defined [of s' env] by (simp add: call_typed_def rx_typed_def wf_rx_def rings_rx_def)
  then show ?thesis
    using seek_rx_typed [OF s] peek_rx_typed [OF _ b] commit_rx_typed [OF s b] s
    by (simp add: socket_seek_n_def peek_at_rx_def seek_and_peek_rx_def socket_commit_n_def commit_and_kick_def
        call_typed_and_then)
qed


lemma small_rx_typed: "rx_typed small_rx"
proof -
  have "slots_in desc_ok (x_ring small_rx)" "slots_in addr_ok (u_ring small_rx)"
    by (rule slots_in_list; simp add: small_rx_def addr_ok_def)+
  then show ?thesis
    by (simp add: rx_typed_def memory_typed_def) (simp add: small_rx_def umem_ok_def wf_rx_def rings_rx_def received_def)
qed

theorem rx_calls_type_sound_witness:
  "rx_typed (fst (socket_commit_n commit_rx sample_build small_rx 2)) \<and> snd (peek_at_rx sample_build small_rx 1) \<noteq> Undef"
  using rx_calls_type_sound [OF small_rx_typed sample_build_simps(1), of 2 1] by (simp add: call_typed_def)

end
