(* ===== verification/Std_Net.thy ===== *)
theory Std_Net
  imports Mmap Netlink
begin

text \<open>
  What the test programs use of \<^verbatim>\<open>std::net\<close>: the parsers of \<^verbatim>\<open>Ipv4Addr\<close> and \<^verbatim>\<open>SocketAddrV4\<close>, the dotted form
  of an address, and the validity of UTF-8 text.
\<close>

section \<open>Addresses\<close>

definition dec_value :: "string \<Rightarrow> nat" where
  "dec_value ds = foldl (\<lambda>n c. n * 10 + (of_char c - 48)) 0 ds"

text \<open>
  A number is read as far as the digits go: an octet has at most three of them and no leading zero, a port
  any number of them. \<open>None\<close> is a failed parse.
\<close>

definition read_octet :: "string \<Rightarrow> (nat \<times> string) option" where
  "read_octet s =
     (let ds = takeWhile is_digit s in
      if ds = [] \<or> 3 < length ds \<or> (hd ds = CHR ''0'' \<and> 1 < length ds) \<or> 255 < dec_value ds then None
      else Some (dec_value ds, dropWhile is_digit s))"

definition read_port :: "string \<Rightarrow> (nat \<times> string) option" where
  "read_port s =
     (let ds = takeWhile is_digit s in
      if ds = [] \<or> 65535 < dec_value ds then None else Some (dec_value ds, dropWhile is_digit s))"

fun read_char :: "char \<Rightarrow> string \<Rightarrow> string option" where
  "read_char c [] = None"
| "read_char c (x # xs) = (if x = c then Some xs else None)"

definition ipv4_new :: "nat \<Rightarrow> nat \<Rightarrow> nat \<Rightarrow> nat \<Rightarrow> ipv4" where
  "ipv4_new a b c d = of_nat (((a * 256 + b) * 256 + c) * 256 + d)"

definition read_ipv4 :: "string \<Rightarrow> (ipv4 \<times> string) option" where
  "read_ipv4 s =
     Option.bind (read_octet s) (\<lambda>(a, s).
     Option.bind (Option.bind (read_char CHR ''.'' s) read_octet) (\<lambda>(b, s).
     Option.bind (Option.bind (read_char CHR ''.'' s) read_octet) (\<lambda>(c, s).
     Option.bind (Option.bind (read_char CHR ''.'' s) read_octet) (\<lambda>(d, s).
     Some (ipv4_new a b c d, s)))))"

definition ipv4_from_str :: "string \<Rightarrow> ipv4 option" where
  "ipv4_from_str s = (case read_ipv4 s of Some (ip, []) \<Rightarrow> Some ip | _ \<Rightarrow> None)"

definition socket_addr_from_str :: "string \<Rightarrow> (ipv4 \<times> u16) option" where
  "socket_addr_from_str s =
     Option.bind (read_ipv4 s) (\<lambda>(ip, s).
     Option.bind (Option.bind (read_char CHR '':'' s) read_port) (\<lambda>(p, s).
     if s = [] then Some (ip, of_nat p) else None))"

text \<open>The printed form, and the address that is read back from it.\<close>

definition ipv4_octets :: "ipv4 \<Rightarrow> nat list" where
  "ipv4_octets ip = [unat ip div 16777216, unat ip div 65536 mod 256, unat ip div 256 mod 256, unat ip mod 256]"

definition show_ipv4 :: "ipv4 \<Rightarrow> string" where
  "show_ipv4 ip = (case ipv4_octets ip of [a, b, c, d] \<Rightarrow>
     dec_digits a @ ''.'' @ dec_digits b @ ''.'' @ dec_digits c @ ''.'' @ dec_digits d | _ \<Rightarrow> [])"

lemma dec_value_snoc: "dec_value (ds @ [c]) = dec_value ds * 10 + (of_char c - 48)"
  by (simp add: dec_value_def)

lemma dec_value_digits [simp]: "dec_value (dec_digits n) = n"
proof (induction n rule: dec_digits.induct)
  case (1 n)
  show ?case
  proof (cases "n < 10")
    case True
    then show ?thesis by (subst dec_digits.simps) (simp add: dec_value_def)
  next
    case False
    then show ?thesis using 1 by (subst dec_digits.simps) (simp add: dec_value_snoc)
  qed
qed

lemma dec_digits_small: "n < 10 \<Longrightarrow> dec_digits n = [char_of (48 + n)]"
  by (subst dec_digits.simps) simp

lemma dec_digits_snoc: "10 \<le> n \<Longrightarrow> dec_digits n = dec_digits (n div 10) @ [char_of (48 + n mod 10)]"
  by (subst dec_digits.simps) simp

lemma digit_not_zero:
  assumes "0 < m" "m < 10"
  shows "char_of (48 + m :: nat) \<noteq> CHR ''0''"
proof
  assume "char_of (48 + m) = CHR ''0''"
  then have "(of_char (char_of (48 + m)) :: nat) = of_char CHR ''0''" by simp
  then show False using assms by simp
qed

lemma octet_digits:
  assumes "n < 256"
  shows "length (dec_digits n) \<le> 3 \<and> (hd (dec_digits n) = CHR ''0'' \<longrightarrow> length (dec_digits n) = 1)"
proof -
  consider "n < 10" | "10 \<le> n" "n < 100" | "100 \<le> n" by linarith
  then show ?thesis
  proof cases
    case 1
    then show ?thesis by (simp add: dec_digits_small)
  next
    case 2
    have d: "n div 10 < 10" "0 < n div 10" using 2 by simp_all
    have "dec_digits n = [char_of (48 + n div 10), char_of (48 + n mod 10)]"
      using 2 by (simp only: dec_digits_snoc [of n] dec_digits_small [OF d(1)]) simp
    then show ?thesis using digit_not_zero [OF d(2,1)] by (simp only: list.sel list.size) simp
  next
    case 3
    have d: "n div 10 div 10 < 10" "0 < n div 10 div 10" "10 \<le> n div 10" using 3 assms by simp_all
    have "dec_digits n = [char_of (48 + n div 10 div 10), char_of (48 + n div 10 mod 10), char_of (48 + n mod 10)]"
      using 3 by (simp only: dec_digits_snoc [of n] dec_digits_snoc [OF d(3)] dec_digits_small [OF d(1)]) simp
    then show ?thesis using digit_not_zero [OF d(2,1)] by (simp only: list.sel list.size) simp
  qed
qed

lemma takeWhile_digits:
  assumes "rest = [] \<or> \<not> is_digit (hd rest)"
  shows "takeWhile is_digit (dec_digits n @ rest) = dec_digits n \<and> dropWhile is_digit (dec_digits n @ rest) = rest"
proof -
  have "\<forall>c \<in> set (dec_digits n). is_digit c" using digits_dec [of n] by auto
  then show ?thesis using assms by (cases rest) (auto simp: takeWhile_append dropWhile_append)
qed

lemma read_octet_digits:
  assumes "n < 256" "rest = [] \<or> \<not> is_digit (hd rest)"
  shows "read_octet (dec_digits n @ rest) = Some (n, rest)"
  using takeWhile_digits [OF assms(2), of n] octet_digits [OF assms(1)] digits_dec [of n] assms(1)
  by (auto simp: read_octet_def Let_def)

lemma read_ipv4_show:
  assumes "rest = [] \<or> \<not> is_digit (hd rest)"
  shows "read_ipv4 (show_ipv4 ip @ rest) = Some (ip, rest)"
proof -
  have lt: "unat ip < 2 ^ 32" by (rule unat_lt_u32)
  let ?n = "unat ip"
  have q: "?n div 65536 = ?n div 256 div 256" "?n div 16777216 = ?n div 256 div 256 div 256"
    by (simp_all only: div_mult2_eq [symmetric]) simp_all
  have "((?n div 16777216 * 256 + ?n div 65536 mod 256) * 256 + ?n div 256 mod 256) * 256 + ?n mod 256 = ?n"
    by (simp only: q div_mult_mod_eq)
  then have ip: "ipv4_new (?n div 16777216) (?n div 65536 mod 256) (?n div 256 mod 256) (?n mod 256) = ip"
    by (simp only: ipv4_new_def) simp
  have dot: "\<not> is_digit CHR ''.''" by (simp add: is_digit_def)
  have a: "?n div 16777216 < 256" using lt by (simp only: div_less_iff_less_mult) simp
  show ?thesis
    using assms a dot ip by (simp add: show_ipv4_def ipv4_octets_def read_ipv4_def read_octet_digits)
qed

lemma ipv4_from_str_show [simp]: "ipv4_from_str (show_ipv4 ip) = Some ip"
  using read_ipv4_show [of "[]" ip] by (simp add: ipv4_from_str_def)

lemma socket_addr_from_str_show:
  assumes "p < 65536"
  shows "socket_addr_from_str (show_ipv4 ip @ '':'' @ dec_digits p) = Some (ip, of_nat p)"
proof -
  have "\<not> is_digit CHR '':''" by (simp add: is_digit_def)
  moreover have tw: "takeWhile is_digit (dec_digits p) = dec_digits p" "dropWhile is_digit (dec_digits p) = []"
    using takeWhile_digits [of "[]" p] by (simp_all only: append_Nil2 simp_thms)
  have "dec_digits p \<noteq> []" using digits_dec [of p] by simp
  ultimately show ?thesis
    using assms by (simp add: socket_addr_from_str_def read_ipv4_show read_port_def Let_def tw)
qed

section \<open>UTF-8\<close>

text \<open>\<^verbatim>\<open>str::from_utf8\<close>: which byte sequences are text.\<close>

definition cont :: "u8 \<Rightarrow> bool" where
  "cont b \<longleftrightarrow> 0x80 \<le> b \<and> b \<le> 0xBF"

fun utf8_valid :: "u8 list \<Rightarrow> bool" where
  "utf8_valid [] = True"
| "utf8_valid (b # bs) =
     (if b < 0x80 then utf8_valid bs
      else if 0xC2 \<le> b \<and> b \<le> 0xDF then
        (case bs of c # r \<Rightarrow> cont c \<and> utf8_valid r | _ \<Rightarrow> False)
      else if 0xE0 \<le> b \<and> b \<le> 0xEF then
        (case bs of c # d # r \<Rightarrow>
           (if b = 0xE0 then 0xA0 \<le> c \<and> c \<le> 0xBF else if b = 0xED then 0x80 \<le> c \<and> c \<le> 0x9F else cont c) \<and>
           cont d \<and> utf8_valid r | _ \<Rightarrow> False)
      else if 0xF0 \<le> b \<and> b \<le> 0xF4 then
        (case bs of c # d # e # r \<Rightarrow>
           (if b = 0xF0 then 0x90 \<le> c \<and> c \<le> 0xBF else if b = 0xF4 then 0x80 \<le> c \<and> c \<le> 0x8F else cont c) \<and>
           cont d \<and> cont e \<and> utf8_valid r | _ \<Rightarrow> False)
      else False)"

end
