(* ===== verification/Harness.thy ===== *)
theory Harness
  imports Std_Net
begin

text \<open>
  The test harness of \<^verbatim>\<open>xdp-tests\<close>: privileged commands and the restart with capabilities
  (\<^verbatim>\<open>nettest/suite/command.rs\<close>), the pair of virtual interfaces (\<^verbatim>\<open>vethpair.rs\<close>), the runner of a test on that
  pair (\<^verbatim>\<open>runner.rs\<close>), the build script (\<^verbatim>\<open>build.rs\<close>) and the tests that list what netlink reports
  (\<^verbatim>\<open>try_netlink.rs\<close>).

  External programs are arguments: a run is the list of the commands started so far with their outcomes,
  as in the theory \<open>Os\<close>.
\<close>

section \<open>External programs\<close>

text \<open>
  A command is a program with its arguments. \<open>pr_error\<close> is set when it could not be started; otherwise it
  has an exit status, with its text, and what it wrote to its error stream.
\<close>

datatype proc_call = Proc string "string list"

record proc_answer =
  pr_error :: "io_error option"
  pr_success :: bool
  pr_status :: string
  pr_stderr :: string

type_synonym proc_run = "(proc_call, proc_answer) run"
type_synonym proc_sys = "proc_run \<Rightarrow> proc_call \<Rightarrow> proc_answer"

definition execute_sudo_command :: "proc_sys \<Rightarrow> proc_run \<Rightarrow> string \<Rightarrow> proc_run \<times> (io_error, unit) res" where
  "execute_sudo_command sys tr command =
     (let (tr, output) = sys_call sys tr (Proc ''sudo'' [''sh'', ''-c'', command])
      in case pr_error output of
           Some e \<Rightarrow> (tr, Err e)
         | None \<Rightarrow>
             if \<not> pr_success output
             then (tr, Err (OtherError (''Command failed with status '' @ pr_status output @ '': '' @ pr_stderr output)))
             else (tr, Ok ()))"

section \<open>Capabilities\<close>

text \<open>
  The crates \<^verbatim>\<open>caps\<close> and \<^verbatim>\<open>exec\<close> are not part of the repository: \<open>ce_permitted\<close> and \<open>ce_effective\<close> are the
  capability sets of the process, \<open>ce_exe\<close> the path of its program, when it is text, and \<open>ce_exec\<close> the error
  of a failed \<^verbatim>\<open>execvp\<close>; with \<open>None\<close> the process is replaced.
\<close>

record 'c caps_env =
  ce_permitted :: "(string, 'c list) res"
  ce_effective :: "(string, 'c list) res"
  ce_show :: "'c \<Rightarrow> string"
  ce_exe :: "(io_error, string option) res"
  ce_exec :: "string option"

fun join :: "string \<Rightarrow> string list \<Rightarrow> string" where
  "join sep [] = []"
| "join sep [x] = x"
| "join sep (x # y # xs) = x @ sep @ join sep (y # xs)"

text \<open>
  The state is the run and the value of the variable \<^verbatim>\<open>RESTARTED\<close>. The result \<open>None\<close> is a function that
  does not return because the process was replaced.
\<close>

definition restart_with_caps ::
  "'c caps_env \<Rightarrow> proc_sys \<Rightarrow> proc_run \<times> string option \<Rightarrow> 'c list \<Rightarrow>
    (proc_run \<times> string option) \<times> (io_error, unit) res option"
where
  "restart_with_caps ce sys w my_caps =
     (let (tr, var) = w in
      case map_err OtherError (ce_permitted ce) of
        Ok perm_caps \<Rightarrow>
          (case map_err OtherError (ce_effective ce) of
             Ok effect_caps \<Rightarrow>
               if var = Some ''1'' then (w, Some (Ok ()))
               else
                 let w = (tr, Some ''1'')
                 in if list_ex (\<lambda>c. c \<notin> set perm_caps) my_caps then
                      let caps_string = join '','' (map (ce_show ce) my_caps)
                      in case ce_exe ce of
                           Ok (Some path) \<Rightarrow>
                             (case execute_sudo_command sys tr (''setcap '' @ caps_string @ ''+eip '' @ path) of
                                (tr, Ok _) \<Rightarrow> ((tr, snd w), map_option (\<lambda>e. Err (OtherError e)) (ce_exec ce))
                              | (tr, r) \<Rightarrow> ((tr, snd w), Some r))
                         | Ok None \<Rightarrow> (w, Some (Err (OtherError ''Failed to get current executable path'')))
                         | Err e \<Rightarrow> (w, Some (Err e))
                         | Panic \<Rightarrow> (w, Some Panic)
                         | Undef \<Rightarrow> (w, Some Undef)
                    else (w, Some (Ok ()))
           | Err e \<Rightarrow> (w, Some (Err e)) | Panic \<Rightarrow> (w, Some Panic) | Undef \<Rightarrow> (w, Some Undef))
      | Err e \<Rightarrow> (w, Some (Err e)) | Panic \<Rightarrow> (w, Some Panic) | Undef \<Rightarrow> (w, Some Undef))"

definition suite_setup ::
  "'c caps_env \<Rightarrow> proc_sys \<Rightarrow> proc_run \<times> string option \<Rightarrow> 'c list \<Rightarrow>
    (proc_run \<times> string option) \<times> (io_error, unit) res option"
where
  "suite_setup ce sys w my_caps = (if my_caps \<noteq> [] then restart_with_caps ce sys w my_caps else (w, Some (Ok ())))"

section \<open>The pair of interfaces\<close>

definition up_if_dev :: "proc_sys \<Rightarrow> proc_run \<Rightarrow> string \<Rightarrow> proc_run \<times> (io_error, unit) res" where
  "up_if_dev sys tr dev = execute_sudo_command sys tr (''ip link set '' @ dev @ '' up'')"

definition set_ipv4_addr :: "proc_sys \<Rightarrow> proc_run \<Rightarrow> string \<Rightarrow> string \<Rightarrow> proc_run \<times> (io_error, unit) res" where
  "set_ipv4_addr sys tr dev addr =
     execute_sudo_command sys tr (''ip addr add '' @ addr @ ''/24 dev '' @ dev)"

definition set_promisc_mode :: "proc_sys \<Rightarrow> proc_run \<Rightarrow> string \<Rightarrow> bool \<Rightarrow> proc_run \<times> (io_error, unit) res" where
  "set_promisc_mode sys tr dev enable =
     (let mode = (if enable then ''on'' else ''off'')
      in execute_sudo_command sys tr (''ip link set '' @ dev @ '' promisc '' @ mode))"

definition up_pair :: "proc_sys \<Rightarrow> proc_run \<Rightarrow> string \<Rightarrow> string \<Rightarrow> proc_run \<times> (io_error, unit) res" where
  "up_pair sys tr dev_prefix ip_prefix =
     (let dev = dev_prefix @ ''0'' in
      and_then (set_ipv4_addr sys tr dev (ip_prefix @ ''100'')) (\<lambda>_ tr.
      and_then (set_promisc_mode sys tr dev True) (\<lambda>_ tr.
      and_then (up_if_dev sys tr dev) (\<lambda>_ tr.
      let dev = dev_prefix @ ''1'' in
      and_then (set_ipv4_addr sys tr dev (ip_prefix @ ''101'')) (\<lambda>_ tr.
      and_then (set_promisc_mode sys tr dev True) (\<lambda>_ tr.
      up_if_dev sys tr dev))))))"

definition setup_pair :: "proc_sys \<Rightarrow> proc_run \<Rightarrow> string \<Rightarrow> string \<Rightarrow> proc_run \<times> (io_error, unit) res" where
  "setup_pair sys tr dev_prefix ip_prefix =
     and_then (execute_sudo_command sys tr
       (''ip link add '' @ dev_prefix @ ''0 type veth peer '' @ dev_prefix @ ''1'')) (\<lambda>_ tr.
     up_pair sys tr dev_prefix ip_prefix)"

definition teardown_pair :: "proc_sys \<Rightarrow> proc_run \<Rightarrow> string \<Rightarrow> proc_run \<times> (io_error, unit) res" where
  "teardown_pair sys tr prefix = execute_sudo_command sys tr (''ip link del '' @ prefix @ ''0'')"

definition check_pair :: "proc_sys \<Rightarrow> proc_run \<Rightarrow> string \<Rightarrow> proc_run \<times> (io_error, unit) res" where
  "check_pair sys tr prefix =
     (let (tr, output) = sys_call sys tr (Proc ''ip'' [''link'', ''show'', prefix @ ''0''])
      in case pr_error output of
           Some e \<Rightarrow> (tr, Err e)
         | None \<Rightarrow>
             if pr_success output then (tr, Ok ())
             else (tr, Err (NotFoundError (''Pair '' @ prefix @ ''0 does not exist''))))"

section \<open>The runner\<close>

definition DEV_PREFIX :: string where "DEV_PREFIX = ''xdpVeth''"
definition IP_PREFIX :: string where "IP_PREFIX = ''192.168.77.''"

record host =
  h_if_dev :: string
  h_ip_str :: string
  h_ip_addr :: ipv4
  h_if_index :: u32

definition host_default :: host where
  "host_default = \<lparr>h_if_dev = [], h_ip_str = [], h_ip_addr = 0, h_if_index = 0\<rparr>"

definition display_host :: "host \<Rightarrow> string" where
  "display_host h = ''Host { ip: '' @ h_ip_str h @ '', if_dev: '' @ h_if_dev h @
     '', if_index: '' @ dec_digits (unat (h_if_index h)) @ '' }''"

text \<open>\<^verbatim>\<open>expect\<close> and \<^verbatim>\<open>unwrap\<close> on a value or an error.\<close>

fun unwrap :: "('e, 'a) res \<Rightarrow> ('f, 'a) res" where
  "unwrap (Ok a) = Ok a"
| "unwrap (Err e) = Panic"
| "unwrap Panic = Panic"
| "unwrap Undef = Undef"

definition unwrap_some :: "'a option \<Rightarrow> ('f, 'a) res" where
  "unwrap_some x = (case x of Some a \<Rightarrow> Ok a | None \<Rightarrow> Panic)"

definition host_new :: "nl_env \<Rightarrow> string \<Rightarrow> string \<Rightarrow> (io_error, host) res" where
  "host_new env if_dev ip_str =
     res_then (unwrap_some (ipv4_from_str ip_str)) (\<lambda>ip.
     res_then (unwrap (get_ipv4_address env None)) (\<lambda>addrs.
     res_then (unwrap_some (find (\<lambda>(addr, _). addr = ip) addrs)) (\<lambda>(_, if_index).
     Ok \<lparr>h_if_dev = if_dev, h_ip_str = ip_str, h_ip_addr = ip, h_if_index = if_index\<rparr>)))"

record host_pair =
  host0 :: host
  host1 :: host

definition host_pair_new :: "host \<Rightarrow> host \<Rightarrow> host_pair" where
  "host_pair_new h0 h1 = \<lparr>host0 = h0, host1 = h1\<rparr>"

definition from_prefixes :: "nl_env \<Rightarrow> string \<Rightarrow> string \<Rightarrow> (io_error, host_pair) res" where
  "from_prefixes env dev_prefix ip_prefix =
     res_then (host_new env (dev_prefix @ ''0'') (ip_prefix @ ''100'')) (\<lambda>h0.
     res_then (host_new env (dev_prefix @ ''1'') (ip_prefix @ ''101'')) (\<lambda>h1.
     Ok (host_pair_new h0 h1)))"

text \<open>
  What netlink reports depends on the commands that were run: \<open>nl\<close> is the netlink peer after a run. A test that
  never returns has the result \<open>None\<close>.
\<close>

definition run_test_with_pair ::
  "proc_sys \<Rightarrow> (proc_run \<Rightarrow> nl_env) \<Rightarrow> (host_pair \<Rightarrow> proc_run \<Rightarrow> (proc_run \<times> (io_error, unit) res) option) \<Rightarrow>
    proc_run \<Rightarrow> (proc_run \<times> (io_error, unit) res) option"
where
  "run_test_with_pair sys nl test tr =
     (case and_then
         (case check_pair sys tr DEV_PREFIX of
            (tr, Err e) \<Rightarrow>
              if kind_of e = NotFoundKind then setup_pair sys tr DEV_PREFIX IP_PREFIX else (tr, Err e)
          | p \<Rightarrow> p) (\<lambda>_ tr.
         (tr, from_prefixes (nl tr) DEV_PREFIX IP_PREFIX)) of
        (tr, Ok pair) \<Rightarrow>
          map_option (\<lambda>p. and_then p (\<lambda>_ tr. teardown_pair sys tr DEV_PREFIX)) (test pair tr)
      | (tr, Err e) \<Rightarrow> Some (tr, Err e)
      | (tr, Panic) \<Rightarrow> Some (tr, Panic)
      | (tr, Undef) \<Rightarrow> Some (tr, Undef))"


section \<open>The build script and the netlink listings\<close>

text \<open>\<^verbatim>\<open>Path::join\<close>. The state of the script is the run and the lines it has printed.\<close>

definition path_join :: "string \<Rightarrow> string \<Rightarrow> string" where
  "path_join a b =
     (if b \<noteq> [] \<and> hd b = CHR ''/'' then b else if a = [] \<or> last a = CHR ''/'' then a @ b else a @ ''/'' @ b)"

definition build_ebpf ::
  "proc_sys \<Rightarrow> string option \<Rightarrow> proc_run \<times> string list \<Rightarrow> string \<Rightarrow>
    (proc_run \<times> string list) \<times> (io_error, unit) res"
where
  "build_ebpf sys out_dir w name =
     try_in w (unwrap_some out_dir) (\<lambda>out_dir.
     let dest_path = path_join out_dir (name @ ''.o'');
         src_path = path_join ''src/xdp'' (name @ ''.c'');
         (tr, lines) = w;
         (tr, status) = sys_call sys tr (Proc ''clang''
           [''-O2'', ''-target'', ''bpf'', ''-c'', ''src/xdp/'' @ name @ ''.c'', ''-o'', dest_path])
     in if pr_error status \<noteq> None \<or> \<not> pr_success status then ((tr, lines), Panic)
        else ((tr, lines @ [''cargo:rerun-if-changed='' @ src_path, ''cargo:rerun-if-changed='' @ dest_path]), Ok ()))"

definition build_main ::
  "proc_sys \<Rightarrow> string option \<Rightarrow> proc_run \<times> string list \<Rightarrow> (proc_run \<times> string list) \<times> (io_error, unit) res"
where
  "build_main sys out_dir w = build_ebpf sys out_dir w ''xdp_pass''"

text \<open>The tests print what they get; they fail where they unwrap an error.\<close>

definition test_list_routes :: "nl_env \<Rightarrow> (io_error, gateway_rec \<times> ipv4_route list) res" where
  "test_list_routes env =
     res_then (unwrap (get_ipv4_routes env None)) (\<lambda>all_routes.
     res_then (unwrap_some (find_default_gateway all_routes)) (\<lambda>gw.
     res_then (unwrap (get_ipv4_routes env (Some (g_if_index gw)))) (\<lambda>routes.
     Ok (gw, routes))))"

definition list_neighbors :: "nl_env \<Rightarrow> (io_error, neighbor list) res" where
  "list_neighbors env =
     res_then (unwrap (get_ipv4_routes env None)) (\<lambda>all_routes.
     res_then (unwrap_some (find_default_gateway all_routes)) (\<lambda>gw.
     unwrap (get_neighbors env (Some (g_if_index gw)))))"

definition test_list_addresses :: "nl_env \<Rightarrow> (io_error, (ipv4 \<times> u32) list) res" where
  "test_list_addresses env = unwrap (get_ipv4_address env None)"

definition test_list_links :: "nl_env \<Rightarrow> (io_error, link list) res" where
  "test_list_links env = unwrap (get_links env)"

section \<open>Facts\<close>

definition sudo :: "string \<Rightarrow> proc_call" where
  "sudo c = Proc ''sudo'' [''sh'', ''-c'', c]"

definition cmd_ok :: "proc_answer \<Rightarrow> bool" where
  "cmd_ok a \<longleftrightarrow> pr_error a = None \<and> pr_success a"

definition cmd_result :: "proc_answer \<Rightarrow> (io_error, unit) res" where
  "cmd_result a = (case pr_error a of
     Some e \<Rightarrow> Err e
   | None \<Rightarrow> if \<not> pr_success a
       then Err (OtherError (''Command failed with status '' @ pr_status a @ '': '' @ pr_stderr a)) else Ok ())"

lemma execute_eq:
  "execute_sudo_command sys tr c = (tr @ [(sudo c, sys tr (sudo c))], cmd_result (sys tr (sudo c)))"
  by (simp add: execute_sudo_command_def sys_call_def Let_def sudo_def cmd_result_def split: option.split)

lemma cmd_result_cases:
  "(cmd_ok a \<and> cmd_result a = Ok ()) \<or> (\<not> cmd_ok a \<and> (\<exists>e. cmd_result a = Err e))"
  by (simp add: cmd_ok_def cmd_result_def split: option.split)

lemma cmd_result_Ok: "cmd_result a = Ok () \<longleftrightarrow> cmd_ok a"
  using cmd_result_cases [of a] by auto

definition check_cmd :: proc_call where
  "check_cmd = Proc ''ip'' [''link'', ''show'', ''xdpVeth0'']"

definition add_cmd :: proc_call where
  "add_cmd = sudo ''ip link add xdpVeth0 type veth peer xdpVeth1''"

definition del_cmd :: proc_call where
  "del_cmd = sudo ''ip link del xdpVeth0''"

lemma check_pair_eq:
  "\<exists>r. check_pair sys tr DEV_PREFIX = (tr @ [(check_cmd, sys tr check_cmd)], r) \<and>
     (r = Ok () \<and> cmd_ok (sys tr check_cmd) \<or> \<not> cmd_ok (sys tr check_cmd) \<and> (\<exists>e. r = Err e))"
  by (simp add: check_pair_def sys_call_def Let_def check_cmd_def DEV_PREFIX_def cmd_ok_def split: option.split)

text \<open>Whether the pair exists after a run, when \<open>b\<close> says whether it did before.\<close>

fun pair_step :: "bool \<Rightarrow> proc_call \<times> proc_answer \<Rightarrow> bool" where
  "pair_step b (c, a) =
     (if c = add_cmd \<and> cmd_ok a then True else if c = del_cmd \<and> cmd_ok a then False else b)"

definition pair_exists :: "bool \<Rightarrow> proc_run \<Rightarrow> bool" where
  "pair_exists b tr = foldl pair_step b tr"

text \<open>A step that neither creates nor deletes the pair.\<close>

definition quiet :: "proc_run \<Rightarrow> proc_run \<times> 'r \<Rightarrow> bool" where
  "quiet tr p \<longleftrightarrow> (\<exists>ext. fst p = tr @ ext \<and> add_cmd \<notin> fst ` set ext \<and> del_cmd \<notin> fst ` set ext)"

lemma quiet_same [simp]: "quiet tr (tr, r)"
  by (simp add: quiet_def)

lemma quiet_trans: "quiet tr (tr1, r1) \<Longrightarrow> quiet tr1 p \<Longrightarrow> quiet tr p"
  unfolding quiet_def by (elim exE, rule_tac x = "ext @ exta" in exI) auto

lemma quiet_and_then:
  assumes "quiet tr p" "\<And>a tr. quiet tr (k a tr)"
  shows "quiet tr (and_then p k)"
proof -
  obtain tr1 r where p: "p = (tr1, r)" by fastforce
  then have "quiet tr (tr1, r')" for r' :: "('a, 'c) res" using assms(1) by (simp add: quiet_def)
  then show ?thesis using quiet_trans [OF assms(1) [unfolded p] assms(2)] by (cases r) (simp_all add: p)
qed

lemma quiet_command: "sudo c \<noteq> add_cmd \<Longrightarrow> sudo c \<noteq> del_cmd \<Longrightarrow> quiet tr (execute_sudo_command sys tr c)"
  by (auto simp: quiet_def execute_eq)

lemma quiet_up_pair: "quiet tr (up_pair sys tr DEV_PREFIX IP_PREFIX)"
  unfolding up_pair_def Let_def set_ipv4_addr_def set_promisc_mode_def up_if_dev_def
  by (intro quiet_and_then quiet_command)
    (simp_all add: sudo_def add_cmd_def del_cmd_def DEV_PREFIX_def IP_PREFIX_def)

lemma quiet_pair_exists:
  assumes "add_cmd \<notin> fst ` set ext" "del_cmd \<notin> fst ` set ext"
  shows "pair_exists b (tr @ ext) = pair_exists b tr"
  using assms by (induction ext rule: rev_induct) (auto simp: pair_exists_def)

end
