(* ===== verification/Harness_Properties.thy ===== *)
theory Harness_Properties
  imports Harness
begin

text \<open>
  Properties of the test harness: which runs leave the pair of interfaces behind, what a later run does
  with it, and that a process is restarted at most once.
\<close>

section \<open>The pair of interfaces\<close>

text \<open>Every failed run has left the pair as it was, or has made it.\<close>

definition pair_added :: "proc_run \<Rightarrow> bool" where
  "pair_added tr \<longleftrightarrow> (\<exists>a. (add_cmd, a) \<in> set tr \<and> cmd_ok a)"

definition undeleted :: "bool \<Rightarrow> proc_run \<Rightarrow> bool" where
  "undeleted b tr \<longleftrightarrow> pair_exists b tr = (b \<or> pair_added tr)"

lemma check_not_pair [simp]: "check_cmd \<noteq> add_cmd" "check_cmd \<noteq> del_cmd" "add_cmd \<noteq> del_cmd" "del_cmd \<noteq> add_cmd"
  by (simp_all add: check_cmd_def add_cmd_def del_cmd_def sudo_def)

lemma undeleted_quiet:
  assumes "quiet tr p" "undeleted b tr"
  shows "undeleted b (fst p)"
proof -
  obtain ext where ext: "fst p = tr @ ext" "add_cmd \<notin> fst ` set ext" "del_cmd \<notin> fst ` set ext"
    using assms(1) by (auto simp: quiet_def)
  then have "pair_added (fst p) = pair_added tr" by (force simp: pair_added_def)
  then show ?thesis using assms(2) quiet_pair_exists [OF ext(2,3), of b tr] by (simp add: undeleted_def ext(1))
qed

lemma undeleted_other: "c \<noteq> del_cmd \<Longrightarrow> undeleted b tr \<Longrightarrow> undeleted b (tr @ [(c, a)])"
  by (auto simp: undeleted_def pair_exists_def pair_added_def)

lemma undeleted_refused: "\<not> cmd_ok a \<Longrightarrow> undeleted b tr \<Longrightarrow> undeleted b (tr @ [(c, a)])"
  by (auto simp: undeleted_def pair_exists_def pair_added_def)

lemma setup_pair_undeleted:
  assumes "undeleted b tr"
  shows "undeleted b (fst (setup_pair sys tr DEV_PREFIX IP_PREFIX))"
proof -
  have c: "''ip link add '' @ DEV_PREFIX @ ''0 type veth peer '' @ DEV_PREFIX @ ''1'' =
      ''ip link add xdpVeth0 type veth peer xdpVeth1''"
    by (simp add: DEV_PREFIX_def)
  have t: "undeleted b (tr @ [(add_cmd, sys tr add_cmd)])" using assms by (simp add: undeleted_other)
  then show ?thesis
    using cmd_result_cases [of "sys tr add_cmd"] undeleted_quiet [OF quiet_up_pair t, of sys]
    unfolding setup_pair_def c by (auto simp: execute_eq add_cmd_def [symmetric])
qed

lemma and_then_final:
  assumes "and_then p k = (s', r)"
  obtains "s' = fst p" "\<And>v. r \<noteq> Ok v" | s a where "p = (s, Ok a)" "k a s = (s', r)"
  using assms by (cases p; cases "snd p") auto

lemma teardown_pair_eq:
  "teardown_pair sys tr DEV_PREFIX = (tr @ [(del_cmd, sys tr del_cmd)], cmd_result (sys tr del_cmd))"
  by (simp add: teardown_pair_def execute_eq del_cmd_def DEV_PREFIX_def)

lemma teardown_after_test:
  assumes "undeleted b (fst p)" "and_then p (\<lambda>_ tr. teardown_pair sys tr DEV_PREFIX) = (tr', r)"
  shows "(r = Ok () \<longrightarrow> \<not> pair_exists b tr') \<and> (r \<noteq> Ok () \<longrightarrow> undeleted b tr')"
  using assms(2)
proof (rule and_then_final)
  fix tr1 v
  assume "p = (tr1, Ok v)" "teardown_pair sys tr1 DEV_PREFIX = (tr', r)"
  then show ?thesis
    using undeleted_refused [of "sys tr1 del_cmd" b tr1 del_cmd] assms(1)
    by (cases "cmd_ok (sys tr1 del_cmd)") (auto simp: teardown_pair_eq pair_exists_def cmd_result_Ok)
qed (use assms(1) in auto)

lemma pair_start_undeleted:
  "undeleted b (fst (and_then
     (case check_pair sys [] DEV_PREFIX of
        (tr, Err e) \<Rightarrow> if kind_of e = NotFoundKind then setup_pair sys tr DEV_PREFIX IP_PREFIX else (tr, Err e)
      | p \<Rightarrow> p) (\<lambda>_ tr. (tr, q tr))))" (is "undeleted b (fst (and_then ?start _))")
proof -
  let ?a = "sys [] check_cmd"
  have nil: "undeleted b [(check_cmd, ?a)]"
    using undeleted_other [of check_cmd b "[]"] by (simp add: undeleted_def pair_exists_def pair_added_def)
  have "undeleted b (fst ?start)"
    using check_pair_eq [of sys "[]"] setup_pair_undeleted [OF nil] nil by (auto split: if_splits)
  then show ?thesis by (cases ?start; cases "snd ?start") auto
qed

text \<open>
  C35. The harness deletes the pair exactly when the test passed: after a run that returns \<open>Ok\<close> the pair does not
  exist, and after every other run that ends, a panic of the test included, it exists if it did before or if the
  run has created it.
\<close>

theorem runner_deletes_only_passed:
  assumes "\<And>h tr p. test h tr = Some p \<Longrightarrow> quiet tr p" "run_test_with_pair sys nl test [] = Some (tr, r)"
  shows "(r = Ok () \<longrightarrow> \<not> pair_exists b tr) \<and> (r \<noteq> Ok () \<longrightarrow> pair_exists b tr = (b \<or> pair_added tr))"
proof -
  let ?q = "\<lambda>tr. from_prefixes (nl tr) DEV_PREFIX IP_PREFIX"
  obtain tr1 u where start: "and_then
     (case check_pair sys [] DEV_PREFIX of
        (tr, Err e) \<Rightarrow> if kind_of e = NotFoundKind then setup_pair sys tr DEV_PREFIX IP_PREFIX else (tr, Err e)
      | p \<Rightarrow> p) (\<lambda>_ tr. (tr, ?q tr)) = (tr1, u)" by fastforce
  then have t1: "undeleted b tr1" using pair_start_undeleted [of b sys ?q] by simp
  note run = assms(2) [unfolded run_test_with_pair_def start prod.case]
  have "(r = Ok () \<longrightarrow> \<not> pair_exists b tr) \<and> (r \<noteq> Ok () \<longrightarrow> undeleted b tr)"
  proof (cases u)
    case (Ok pair)
    then obtain p where p: "test pair tr1 = Some p" "and_then p (\<lambda>_ tr. teardown_pair sys tr DEV_PREFIX) = (tr, r)"
      using run by auto
    show ?thesis by (rule teardown_after_test [OF undeleted_quiet [OF assms(1) [OF p(1)] t1] p(2)])
  qed (use run t1 in auto)
  then show ?thesis by (simp only: undeleted_def)
qed


text \<open>On the sample system every command succeeds but \<^verbatim>\<open>ip link show\<close>, and the addresses are those of the pair.\<close>

definition sample_proc :: proc_sys where
  "sample_proc tr c = \<lparr>pr_error = None, pr_success = (c \<noteq> check_cmd), pr_status = ''exit status: 1'', pr_stderr = []\<rparr>"

definition addr_msg :: "u8 \<Rightarrow> nl_message" where
  "addr_msg c = \<lparr>nl_length = 4, nl_payload =
     (if c = 1 then NewAddress 7 [AddrAddressV4 (ipv4_new 192 168 77 100)]
      else NewAddress 8 [AddrAddressV4 (ipv4_new 192 168 77 101)])\<rparr>"

definition sample_addrs :: nl_env where
  "sample_addrs = \<lparr>nl_socket = Ok (), nl_bind = Ok (), nl_serialize = (\<lambda>q. [1]), nl_send = (\<lambda>bs. Ok (length bs)),
     nl_recv = (\<lambda>q. Ok [1, 0, 0, 0, 2, 0, 0, 0]), nl_deserialize = (\<lambda>bs. Ok (addr_msg (hd bs)))\<rparr>"

lemma sample_addresses:
  "get_ipv4_address sample_addrs None = Ok [(ipv4_new 192 168 77 100, 7), (ipv4_new 192 168 77 101, 8)]"
  by (simp add: get_ipv4_address_def netlink_def sample_addrs_def Let_def netlink_loop.simps addr_msg_def
      address_msg_def filtered_out_def)

lemma host_addresses:
  "ipv4_from_str (IP_PREFIX @ ''100'') = Some (ipv4_new 192 168 77 100)"
  "ipv4_from_str (IP_PREFIX @ ''101'') = Some (ipv4_new 192 168 77 101)"
  by (simp_all add: IP_PREFIX_def ipv4_from_str_def read_ipv4_def read_octet_def is_digit_def dec_value_def Let_def)

lemma sample_hosts:
  "from_prefixes sample_addrs DEV_PREFIX IP_PREFIX = Ok (host_pair_new
     \<lparr>h_if_dev = DEV_PREFIX @ ''0'', h_ip_str = IP_PREFIX @ ''100'', h_ip_addr = ipv4_new 192 168 77 100, h_if_index = 7\<rparr>
     \<lparr>h_if_dev = DEV_PREFIX @ ''1'', h_ip_str = IP_PREFIX @ ''101'', h_ip_addr = ipv4_new 192 168 77 101, h_if_index = 8\<rparr>)"
proof -
  have "ipv4_new 192 168 77 100 \<noteq> ipv4_new 192 168 77 101" by (simp add: ipv4_new_def)
  then show ?thesis
    by (simp add: from_prefixes_def host_new_def host_addresses sample_addresses unwrap_some_def)
qed

lemma sample_proc_ok [simp]: "cmd_ok (sample_proc tr c) \<longleftrightarrow> c \<noteq> check_cmd"
  by (simp add: cmd_ok_def sample_proc_def)

lemma sudo_not_check [simp]: "sudo c \<noteq> check_cmd"
  by (simp add: sudo_def check_cmd_def)

lemma sample_command: "execute_sudo_command sample_proc tr c = (tr @ [(sudo c, sample_proc tr (sudo c))], Ok ())"
  using cmd_result_Ok [of "sample_proc tr (sudo c)"] by (simp add: execute_eq)

lemma sample_setup:
  "\<exists>tr'. setup_pair sample_proc tr DEV_PREFIX IP_PREFIX = (tr', Ok ()) \<and> (add_cmd, sample_proc tr add_cmd) \<in> set tr'"
  by (simp add: setup_pair_def up_pair_def set_ipv4_addr_def set_promisc_mode_def up_if_dev_def sample_command Let_def)
    (simp add: add_cmd_def DEV_PREFIX_def)

text \<open>A test that fails, on a system without the pair.\<close>

lemma sample_failed_run:
  "\<exists>tr. run_test_with_pair sample_proc (\<lambda>_. sample_addrs) (\<lambda>h tr. Some (tr, Err (OtherError ''lost''))) [] =
     Some (tr, Err (OtherError ''lost'')) \<and> pair_added tr"
proof -
  have check: "check_pair sample_proc [] DEV_PREFIX =
      ([(check_cmd, sample_proc [] check_cmd)], Err (NotFoundError ''Pair xdpVeth0 does not exist''))"
    by (simp add: check_pair_def sys_call_def sample_proc_def Let_def check_cmd_def DEV_PREFIX_def)
  obtain tr' where tr': "setup_pair sample_proc [(check_cmd, sample_proc [] check_cmd)] DEV_PREFIX IP_PREFIX = (tr', Ok ())"
    "(add_cmd, sample_proc [(check_cmd, sample_proc [] check_cmd)] add_cmd) \<in> set tr'"
    using sample_setup [of "[(check_cmd, sample_proc [] check_cmd)]"] by blast
  have "cmd_ok (sample_proc [(check_cmd, sample_proc [] check_cmd)] add_cmd)" by (simp add: add_cmd_def)
  then have "pair_added tr'" using tr'(2) unfolding pair_added_def by blast
  with tr'(1) show ?thesis by (simp add: run_test_with_pair_def check sample_hosts)
qed

theorem runner_deletes_only_passed_witness:
  "\<exists>tr. run_test_with_pair sample_proc (\<lambda>_. sample_addrs) (\<lambda>h tr. Some (tr, Err (OtherError ''lost''))) [] =
     Some (tr, Err (OtherError ''lost'')) \<and> pair_exists False tr"
proof -
  let ?test = "\<lambda>(h :: host_pair) tr :: proc_run. Some (tr, Err (OtherError ''lost'') :: (io_error, unit) res)"
  obtain tr where tr: "run_test_with_pair sample_proc (\<lambda>_. sample_addrs) ?test [] = Some (tr, Err (OtherError ''lost''))"
    "pair_added tr"
    using sample_failed_run by blast
  have "quiet t p" if "?test h t = Some p" for h t p using that by auto
  from runner_deletes_only_passed [OF this tr(1), of False] show ?thesis using tr by auto
qed

text \<open>
  A pair that a failed run has left without its addresses makes every later run panic: the harness finds the
  pair, does not set it up, and does not find the address of its host.
\<close>

lemma stale_pair_panics:
  assumes "cmd_ok (sys [] check_cmd)"
    and "get_ipv4_address (nl [(check_cmd, sys [] check_cmd)]) None = Ok addrs"
    and "ipv4_new 192 168 77 100 \<notin> fst ` set addrs"
  shows "run_test_with_pair sys nl test [] = Some ([(check_cmd, sys [] check_cmd)], Panic)"
proof -
  have check: "check_pair sys [] DEV_PREFIX = ([(check_cmd, sys [] check_cmd)], Ok ())"
    using check_pair_eq [of sys "[]"] assms(1) by auto
  have "find (\<lambda>(addr, _). addr = ipv4_new 192 168 77 100) addrs = None"
    using assms(3) by (force simp: find_None_iff)
  then show ?thesis
    using assms(2) by (simp add: run_test_with_pair_def check from_prefixes_def host_new_def host_addresses unwrap_some_def)
qed

section \<open>The restart\<close>

text \<open>
  A process is replaced at most once: it is replaced only when it lacks a capability, has not been replaced
  before, and the capabilities asked for were granted to the program; then the variable is set, and the new process
  goes on without running a command, whatever capabilities it has got.
\<close>

theorem restarts_at_most_once:
  assumes "suite_setup ce sys (tr, var) my_caps = ((tr', var'), None)"
  shows "var \<noteq> Some ''1'' \<and> var' = Some ''1'' \<and>
    (\<exists>c \<in> set my_caps. \<exists>perm. ce_permitted ce = Ok perm \<and> c \<notin> set perm) \<and>
    (\<exists>path c. ce_exe ce = Ok (Some path) \<and>
       c = sudo (''setcap '' @ join '','' (map (ce_show ce) my_caps) @ ''+eip '' @ path) \<and>
       tr' = tr @ [(c, sys tr c)] \<and> cmd_ok (sys tr c)) \<and>
    (\<forall>ce' perm eff. ce_permitted ce' = Ok perm \<longrightarrow> ce_effective ce' = Ok eff \<longrightarrow>
       suite_setup ce' sys (tr', var') my_caps = ((tr', var'), Some (Ok ())))"
proof -
  obtain perm eff path where p: "ce_permitted ce = Ok perm" "ce_effective ce = Ok eff" "var \<noteq> Some ''1''"
      "list_ex (\<lambda>c. c \<notin> set perm) my_caps" "ce_exe ce = Ok (Some path)" "my_caps \<noteq> []"
    using assms
    by (auto simp: suite_setup_def restart_with_caps_def Let_def execute_eq
        split: res.splits option.splits if_splits prod.splits)
  let ?c = "sudo (''setcap '' @ join '','' (map (ce_show ce) my_caps) @ ''+eip '' @ path)"
  have "cmd_ok (sys tr ?c) \<and> tr' = tr @ [(?c, sys tr ?c)] \<and> var' = Some ''1''"
    using assms p cmd_result_cases [of "sys tr ?c"]
    by (auto simp: suite_setup_def restart_with_caps_def Let_def execute_eq)
  moreover have "suite_setup ce' sys (tr', Some ''1'') my_caps = ((tr', Some ''1''), Some (Ok ()))"
    if "ce_permitted ce' = Ok perm'" "ce_effective ce' = Ok eff'" for ce' perm' eff'
    using that p(6) by (simp add: suite_setup_def restart_with_caps_def)
  ultimately show ?thesis using p by (auto simp: list_ex_iff)
qed

definition sample_caps :: "nat caps_env" where
  "sample_caps = \<lparr>ce_permitted = Ok [1], ce_effective = Ok [1], ce_show = (\<lambda>c. ''cap''),
     ce_exe = Ok (Some ''/bin/test''), ce_exec = None\<rparr>"

theorem restarts_at_most_once_witness:
  "\<exists>w. suite_setup sample_caps sample_proc ([], None) [1, 2] = (w, None) \<and>
     suite_setup sample_caps sample_proc w [1, 2] = (w, Some (Ok ()))"
proof -
  obtain tr' where w: "suite_setup sample_caps sample_proc ([], None) [1, 2] = ((tr', Some ''1''), None)"
    by (simp add: suite_setup_def restart_with_caps_def sample_caps_def sample_command Let_def)
  have "ce_permitted sample_caps = Ok [1]" "ce_effective sample_caps = Ok [1]" by (simp_all add: sample_caps_def)
  then show ?thesis using restarts_at_most_once [OF w] w by blast
qed

end
