(* ===== verification/Udp_Tools.thy ===== *)
theory Udp_Tools
  imports Std_Net Search_Loop
begin

text \<open>
  The UDP peers of the tests: the pinger and the ponger of \<^verbatim>\<open>nettest/tool/udp_pingpong.rs\<close> and the echo server
  \<^verbatim>\<open>ponger.rs\<close> of \<^verbatim>\<open>xdp-tests\<close>. The sockets are those of the standard library and of \<^verbatim>\<open>tokio\<close>; what they
  answer is an argument. A datagram longer than the buffer is cut to its 1024 bytes.
\<close>

section \<open>Sockets\<close>

text \<open>
  \<open>ud_recv_from n\<close> is the outcome of receive number \<open>n\<close>, a datagram with its sender. The calls that send
  give the number of bytes, which the code does not look at.
\<close>

record 'a udp_env =
  ud_bind :: "string \<Rightarrow> (io_error, unit) res"
  ud_local_addr :: "(io_error, string) res"
  ud_connect :: "string \<Rightarrow> (io_error, unit) res"
  ud_set_timeout :: "nat \<Rightarrow> (io_error, unit) res"
  ud_send :: "u8 list \<Rightarrow> (io_error, nat) res"
  ud_recv :: "(io_error, u8 list) res"
  ud_recv_from :: "nat \<Rightarrow> (io_error, u8 list \<times> 'a) res"
  ud_send_to :: "u8 list \<Rightarrow> 'a \<Rightarrow> (io_error, nat) res"

section \<open>Pinger and ponger\<close>

text \<open>The first component is the datagrams that were sent.\<close>

definition udp_pinger :: "'a udp_env \<Rightarrow> string \<Rightarrow> string \<Rightarrow> u8 list list \<times> (io_error, unit) res" where
  "udp_pinger env local_addr remote_addr =
     try_in [] (ud_bind env local_addr) (\<lambda>_.
     try_in [] (ud_connect env remote_addr) (\<lambda>_.
     try_in [] (ud_set_timeout env 5) (\<lambda>_.
     let ping_message = text_bytes ''PING'' in
     try_in [] (ud_send env ping_message) (\<lambda>_.
     case ud_recv env of
       Ok datagram \<Rightarrow>
         let message = take 1024 datagram
         in if message = text_bytes ''PONG'' then ([ping_message], Ok ()) else ([ping_message], Ok ())
     | Err e \<Rightarrow>
         if kind_of e = WouldBlockKind \<or> kind_of e = TimedOutKind then ([ping_message], Err e)
         else ([ping_message], Err e)
     | Panic \<Rightarrow> ([ping_message], Panic)
     | Undef \<Rightarrow> ([ping_message], Undef)))))"

text \<open>The body of the loop for a receive that does not make it wait again.\<close>

definition waits :: "(io_error, 'b) res \<Rightarrow> bool" where
  "waits r = (case r of Err e \<Rightarrow> kind_of e = WouldBlockKind \<or> kind_of e = TimedOutKind | _ \<Rightarrow> False)"

definition ponger_reply ::
  "'a udp_env \<Rightarrow> (io_error, u8 list \<times> 'a) res \<Rightarrow> (u8 list \<times> 'a) list \<times> (io_error, unit) res"
where
  "ponger_reply env r =
     (case r of
        Ok (datagram, src_addr) \<Rightarrow>
          let message = take 1024 datagram
          in if message = text_bytes ''PING''
             then try_in [] (ud_send_to env (text_bytes ''PONG'') src_addr)
                    (\<lambda>_. ([(text_bytes ''PONG'', src_addr)], Ok ()))
             else ([], Ok ())
      | Err _ \<Rightarrow> ([], Ok ())
      | Panic \<Rightarrow> ([], Panic)
      | Undef \<Rightarrow> ([], Undef))"

partial_function (option) ponger_loop ::
  "'a udp_env \<Rightarrow> nat \<Rightarrow> ((u8 list \<times> 'a) list \<times> (io_error, unit) res) option"
where
  "ponger_loop env i =
     (if waits (ud_recv_from env i) then ponger_loop env (Suc i)
      else Some (ponger_reply env (ud_recv_from env i)))"

text \<open>\<open>None\<close>: the function waits for ever. Its cancellation token is not used.\<close>

definition run_ponger ::
  "'a udp_env \<Rightarrow> string \<Rightarrow> ((u8 list \<times> 'a) list \<times> (io_error, unit) res) option"
where
  "run_ponger env local_addr =
     (case ud_bind env local_addr of
        Ok _ \<Rightarrow> ponger_loop env 0
      | Err e \<Rightarrow> Some ([], Err e)
      | Panic \<Rightarrow> Some ([], Panic)
      | Undef \<Rightarrow> Some ([], Undef))"

lemma ponger_loop_sound:
  assumes "ponger_loop env i = Some v"
  shows "\<exists>n \<ge> i. \<not> waits (ud_recv_from env n)"
proof (rule ponger_loop.raw_induct [where P = "\<lambda>e i v. \<exists>n \<ge> i. \<not> waits (ud_recv_from e n)", OF _ assms])
  fix f and e :: "'a udp_env" and i v
  assume IH: "\<And>e i v. f e i = Some v \<Longrightarrow> \<exists>n \<ge> i. \<not> waits (ud_recv_from e n)"
    and eq: "(if waits (ud_recv_from e i) then f e (Suc i) else Some (ponger_reply e (ud_recv_from e i))) = Some v"
  show "\<exists>n \<ge> i. \<not> waits (ud_recv_from e n)"
    using eq IH [of e "Suc i" v] by (cases "waits (ud_recv_from e i)") (auto dest: Suc_leD)
qed

interpretation ponger: search_loop "ponger_loop env" "\<lambda>i. \<not> waits (ud_recv_from env i)"
    "\<lambda>i. ponger_reply env (ud_recv_from env i)" for env
  by unfold_locales (simp add: ponger_loop.simps, rule ponger_loop_sound)

section \<open>The echo server\<close>

text \<open>
  The endless loop of \<^verbatim>\<open>main\<close> over the receives that have happened so far: the replies it has sent, and the
  error that has ended it, \<open>None\<close> while it waits for the next datagram.
\<close>

fun echo_loop ::
  "'a udp_env \<Rightarrow> (io_error, u8 list \<times> 'a) res list \<Rightarrow> (u8 list \<times> 'a) list \<Rightarrow>
    (u8 list \<times> 'a) list \<times> (io_error, unit) res option"
where
  "echo_loop env [] sent = (sent, None)"
| "echo_loop env (Ok (datagram, peer) # rs) sent =
     (let buf = take 1024 datagram in
      if \<not> utf8_valid buf then echo_loop env rs sent
      else case ud_send_to env buf peer of
             Ok _ \<Rightarrow> echo_loop env rs (sent @ [(buf, peer)])
           | Err e \<Rightarrow> (sent, Some (Err e))
           | Panic \<Rightarrow> (sent, Some Panic)
           | Undef \<Rightarrow> (sent, Some Undef))"
| "echo_loop env (Err e # rs) sent = (sent, Some (Err e))"
| "echo_loop env (Panic # rs) sent = (sent, Some Panic)"
| "echo_loop env (Undef # rs) sent = (sent, Some Undef)"

definition ponger_main ::
  "'a udp_env \<Rightarrow> string list \<Rightarrow> nat \<Rightarrow> (u8 list \<times> 'a) list \<times> (io_error, unit) res option"
where
  "ponger_main env args n =
     (if length args \<noteq> 2
      then ([], Some (if args = [] then Panic else Err (OtherError ''Invalid number of arguments'')))
      else case res_then (ud_bind env (args ! 1)) (\<lambda>_. ud_local_addr env) of
             Ok _ \<Rightarrow> echo_loop env (map (ud_recv_from env) [0..<n]) []
           | Err e \<Rightarrow> ([], Some (Err e))
           | Panic \<Rightarrow> ([], Some Panic)
           | Undef \<Rightarrow> ([], Some Undef))"

text \<open>The datagrams that are answered, as they are answered.\<close>

definition echoed :: "(io_error, u8 list \<times> 'a) res list \<Rightarrow> (u8 list \<times> 'a) list" where
  "echoed rs = List.map_filter
     (\<lambda>r. case r of Ok (d, peer) \<Rightarrow> if utf8_valid (take 1024 d) then Some (take 1024 d, peer) else None | _ \<Rightarrow> None) rs"

lemma echoed_simps [simp]:
  "echoed [] = []"
  "echoed (Ok (d, peer) # rs) = (if utf8_valid (take 1024 d) then [(take 1024 d, peer)] else []) @ echoed rs"
  by (simp_all add: echoed_def List.map_filter_def)

lemma echo_loop_replies:
  assumes "\<forall>r \<in> set rs. \<exists>d. r = Ok d" "\<forall>bs peer. \<exists>k. ud_send_to env bs peer = Ok k"
  shows "echo_loop env rs sent = (sent @ echoed rs, None)"
  using assms(1)
proof (induction rs arbitrary: sent)
  case (Cons r rs)
  then obtain d peer where r: "r = Ok (d, peer)" by fastforce
  obtain k where "ud_send_to env (take 1024 d) peer = Ok k" using assms(2) by blast
  then show ?case using Cons by (simp add: r Let_def)
qed simp

text \<open>It stops at the first receive that fails.\<close>

lemma echo_loop_append:
  assumes "echo_loop env rs sent = (sent', None)"
  shows "echo_loop env (rs @ rs') sent = echo_loop env rs' sent'"
  using assms
  by (induction env rs sent rule: echo_loop.induct) (auto simp: Let_def split: res.splits if_splits)

end
