(* ===== verification/Udp_Properties.thy ===== *)
theory Udp_Properties
  imports Udp_Tools
begin

text \<open>
  What the UDP peers of the tests answer: the ponger and the echo server.
\<close>

definition sample_udp :: "(nat \<Rightarrow> (io_error, u8 list \<times> nat) res) \<Rightarrow> nat udp_env" where
  "sample_udp recv = \<lparr>ud_bind = (\<lambda>a. Ok ()), ud_local_addr = Ok ''127.0.0.1:9001'', ud_connect = (\<lambda>a. Ok ()),
     ud_set_timeout = (\<lambda>n. Ok ()), ud_send = (\<lambda>bs. Ok (length bs)), ud_recv = Err (OsError EAGAIN),
     ud_recv_from = recv, ud_send_to = (\<lambda>bs peer. Ok (length bs))\<rparr>"

lemma sample_udp_simps [simp]:
  "ud_bind (sample_udp f) a = Ok ()" "ud_local_addr (sample_udp f) = Ok ''127.0.0.1:9001''"
  "ud_recv_from (sample_udp f) = f" "ud_send_to (sample_udp f) bs p = Ok (length bs)"
  by (simp_all add: sample_udp_def)

text \<open>
  The ponger waits through time-outs, for ever if nothing else happens; the first other outcome ends it. A
  datagram that is \<^verbatim>\<open>PING\<close> is answered once, with \<^verbatim>\<open>PONG\<close> to its sender, and only a failure of that answer
  is an error; any other datagram, and a network error, end it with \<open>Ok\<close> and no answer.
\<close>

theorem ponger_ends_at_first_event:
  assumes "ud_bind env addr = Ok ()"
  shows "((\<forall>n. waits (ud_recv_from env n)) \<longrightarrow> run_ponger env addr = None) \<and>
    (\<forall>n. (\<forall>m < n. waits (ud_recv_from env m)) \<longrightarrow>
      (\<forall>d src. ud_recv_from env n = Ok (d, src) \<longrightarrow> take 1024 d = text_bytes ''PING'' \<longrightarrow>
         (\<forall>k. ud_send_to env (text_bytes ''PONG'') src = Ok k \<longrightarrow>
           run_ponger env addr = Some ([(text_bytes ''PONG'', src)], Ok ())) \<and>
         (\<forall>e. ud_send_to env (text_bytes ''PONG'') src = Err e \<longrightarrow> run_ponger env addr = Some ([], Err e))) \<and>
      (\<forall>d src. ud_recv_from env n = Ok (d, src) \<longrightarrow> take 1024 d \<noteq> text_bytes ''PING'' \<longrightarrow>
         run_ponger env addr = Some ([], Ok ())) \<and>
      (\<forall>e. ud_recv_from env n = Err e \<longrightarrow> \<not> waits (ud_recv_from env n) \<longrightarrow>
         run_ponger env addr = Some ([], Ok ())))"
proof -
  have loop: "run_ponger env addr = ponger_loop env 0" using assms by (simp add: run_ponger_def)
  have first: "ponger_loop env 0 = Some (ponger_reply env (ud_recv_from env n))"
    if "\<forall>m < n. waits (ud_recv_from env m)" "\<not> waits (ud_recv_from env n)" for n
    using that ponger.finds_first [of env n] by simp
  have "ponger_loop env 0 = Some (ponger_reply env (Ok (d, src)))"
    if "\<forall>m < n. waits (ud_recv_from env m)" "ud_recv_from env n = Ok (d, src)" for n d src
    using first [OF that(1)] that(2) by (simp add: waits_def)
  moreover have "ponger_loop env 0 = Some ([], Ok ())"
    if "\<forall>m < n. waits (ud_recv_from env m)" "ud_recv_from env n = Err e" "\<not> waits (ud_recv_from env n)" for n e
    using first [OF that(1,3)] that(2) by (simp add: ponger_reply_def)
  ultimately show ?thesis
    using ponger.diverges [of env] by (intro conjI allI impI) (simp_all add: loop ponger_reply_def)
qed

theorem ponger_ends_at_first_event_witness:
  "run_ponger (sample_udp (\<lambda>n. if n < 3 then Err (OsError EAGAIN) else Ok (text_bytes ''PING'', 7))) ''a:1'' =
     Some ([(text_bytes ''PONG'', 7)], Ok ())"
proof -
  let ?env = "sample_udp (\<lambda>n. if n < 3 then Err (OsError EAGAIN) else Ok (text_bytes ''PING'', 7))"
  have "\<forall>m < 3. waits (ud_recv_from ?env m)" by (simp add: waits_def)
  moreover have "ud_recv_from ?env 3 = Ok (text_bytes ''PING'', 7)" by simp
  moreover have "take 1024 (text_bytes ''PING'') = text_bytes ''PING''" by (simp add: text_bytes_def)
  moreover have "ud_send_to ?env (text_bytes ''PONG'') 7 = Ok 4" by (simp add: text_bytes_def)
  ultimately show ?thesis
    using ponger_ends_at_first_event [of ?env "''a:1''"] sample_udp_simps(1) by blast
qed

text \<open>
  The echo server answers every datagram that is text with its own bytes, in order and to its sender, leaves
  out the others, and waits for the next one; it does so after any number of datagrams, as long as no
  call fails.
\<close>

theorem ponger_main_echoes:
  assumes "length args = 2" "ud_bind env (args ! 1) = Ok ()" "ud_local_addr env = Ok a"
    and "\<forall>i < n. \<exists>d. ud_recv_from env i = Ok d" "\<forall>bs peer. \<exists>k. ud_send_to env bs peer = Ok k"
  shows "ponger_main env args n = (echoed (map (ud_recv_from env) [0..<n]), None)"
  using assms echo_loop_replies [of "map (ud_recv_from env) [0..<n]" env "[]"]
  by (simp add: ponger_main_def)

theorem ponger_main_echoes_witness:
  "ponger_main (sample_udp (\<lambda>n. if n = 0 then Ok (text_bytes ''HELLO'', 7) else if n = 1 then Ok ([0xC0, 0x41], 8)
       else Ok (text_bytes '' PING '', 9))) [''ponger'', ''127.0.0.1:9001''] 3 =
     ([(text_bytes ''HELLO'', 7), (text_bytes '' PING '', 9)], None)"
proof -
  let ?f = "\<lambda>n. if n = 0 then Ok (text_bytes ''HELLO'', 7) else if n = 1 then Ok ([0xC0, 0x41], 8)
       else Ok (text_bytes '' PING '', 9) :: (io_error, u8 list \<times> nat) res"
  have d: "\<forall>i < 3. \<exists>d. ud_recv_from (sample_udp ?f) i = Ok d" by simp
  have "ponger_main (sample_udp ?f) [''ponger'', ''127.0.0.1:9001''] 3 =
      (echoed (map (ud_recv_from (sample_udp ?f)) [0..<3]), None)"
    by (rule ponger_main_echoes [OF _ _ sample_udp_simps(2) d]) simp_all
  also have "map (ud_recv_from (sample_udp ?f)) [0..<3] =
      [Ok (text_bytes ''HELLO'', 7), Ok ([0xC0, 0x41], 8), Ok (text_bytes '' PING '', 9)]"
    by (simp add: upt_rec)
  also have "echoed \<dots> = [(text_bytes ''HELLO'', 7), (text_bytes '' PING '', 9)]"
    by (simp add: text_bytes_def)
  finally show ?thesis .
qed

end
