(* ===== verification/Apps.thy ===== *)
theory Apps
  imports Harness Send Create_Facts Router Packet Xdp_Prog Udp_Tools
begin

text \<open>
  The programs of \<^verbatim>\<open>xdp-tests\<close> that send packets through a transmit socket: the loader of the pass program
  (\<^verbatim>\<open>xdp/xdp_pass.rs\<close>), the sender (\<^verbatim>\<open>examples/xdp_sender.rs\<close>) and the pinger (\<^verbatim>\<open>toolkit/xdp_pinger.rs\<close>).
  They compose the helpers, the creation of a socket and the calls on it.
\<close>

section \<open>The pass program\<close>

definition XDP_PASS_PROG :: string where "XDP_PASS_PROG = ''xdp_pass''"

text \<open>The compiled program is a file of the build, an argument here.\<close>

definition attach_pass_program ::
  "u8 list \<Rightarrow> bpf \<Rightarrow> bpf_run \<Rightarrow> u32 \<Rightarrow> bpf_run \<times> (io_error, owned_xdp_prog) res" where
  "attach_pass_program code bpf tr if_index = xdp_attach_program bpf tr if_index code XDP_PASS_PROG"

section \<open>Building a packet in place\<close>

text \<open>
  \<^verbatim>\<open>write_all\<close> on a \<^verbatim>\<open>&mut [u8]\<close>, which becomes the part behind what was written; when the bytes do not fit,
  those that do are written. The second function is the packet builder with such a writer: it stops at the first
  write that fails.
\<close>

definition slice_write_all :: "u8 list \<Rightarrow> slice \<Rightarrow> u8 list \<Rightarrow> (u8 list \<times> slice) \<times> (io_error, unit) res" where
  "slice_write_all mem sl bs =
     (let k = min (length bs) (sl_len sl)
      in ((write_bytes mem (sl_off sl) (take k bs), \<lparr>sl_off = sl_off sl + k, sl_len = sl_len sl - k\<rparr>),
          if k < length bs then Err (WriteZeroError ''failed to write whole buffer'') else Ok ()))"

fun write_pieces :: "u8 list list \<Rightarrow> u8 list \<times> slice \<Rightarrow> (u8 list \<times> slice) \<times> (io_error, unit) res" where
  "write_pieces [] w = (w, Ok ())"
| "write_pieces (p # ps) (mem, sl) = and_then (slice_write_all mem sl p) (\<lambda>_ w. write_pieces ps w)"

type_synonym packet_builder = "udp_flow \<Rightarrow> u8 list \<Rightarrow> u8 list list \<times> (string, unit) res"

definition build_into ::
  "packet_builder \<Rightarrow> (io_error \<Rightarrow> string) \<Rightarrow> udp_flow \<Rightarrow> u8 list \<Rightarrow> u8 list \<Rightarrow> slice \<Rightarrow>
    u8 list \<times> (string, unit) res"
where
  "build_into bld shw flow bytes mem bf =
     (let (pieces, r) = bld flow bytes
      in case write_pieces pieces (mem, bf) of
           ((mem, _), w) \<Rightarrow> (mem, res_then (map_err shw w) (\<lambda>_. r)))"

section \<open>The sender\<close>

text \<open>The state of the loop: the socket, the bytes of the UMEM and the descriptors the kernel was woken on.\<close>

type_synonym send_state = "socket \<times> u8 list \<times> int list"

definition sender_round ::
  "packet_builder \<Rightarrow> (io_error \<Rightarrow> string) \<Rightarrow> libc_env \<Rightarrow> build \<Rightarrow> next_hop \<Rightarrow> (mac \<Rightarrow> udp_flow) \<Rightarrow> u8 list \<Rightarrow>
    send_state \<Rightarrow> send_state \<times> (io_error, unit) res"
where
  "sender_round bld shw env b hop flow bytes st =
     (case st of (s, mem, ks) \<Rightarrow>
      case seek_and_peek_tx b s (of_nat (42 + length bytes)) of (s1, r) \<Rightarrow>
      try_in (s1, mem, ks)
        (map_err (\<lambda>e. OtherError (''Failed to seek and peek: '' @ display_ring_error shw e)) r) (\<lambda>bf.
      try_in (s1, mem, ks) (unwrap_some (mac_addr hop)) (\<lambda>dst_mac.
      case build_into bld shw (flow dst_mac) bytes mem bf of (mem1, w) \<Rightarrow>
      try_in (s1, mem1, ks) (map_err (\<lambda>e. OtherError (''Error writing packet header: '' @ e)) w) (\<lambda>_.
      case socket_commit commit_tx b s1 of (s2, c) \<Rightarrow>
      try_in (s2, mem1, ks)
        (map_err (\<lambda>e. OtherError (''Failed to commit buffer in RX ring: '' @ display_ring_error shw e)) c) (\<lambda>_.
      case kick env s2 of (fds, k) \<Rightarrow> ((s2, mem1, ks @ fds), k))))))"

text \<open>
  \<open>sleep i\<close> is what the kernel does to the socket while the program sleeps after round \<open>i\<close>; \<open>n\<close> rounds are left.
\<close>

fun sender_loop ::
  "(send_state \<Rightarrow> send_state \<times> (io_error, unit) res) \<Rightarrow> (nat \<Rightarrow> socket \<Rightarrow> socket) \<Rightarrow> nat \<Rightarrow> nat \<Rightarrow>
    send_state \<Rightarrow> send_state \<times> (io_error, unit) res"
where
  "sender_loop rnd sleep i 0 st = (st, Ok ())"
| "sender_loop rnd sleep i (Suc n) st =
     and_then (rnd st) (\<lambda>_ (s, mem, ks). sender_loop rnd sleep (Suc i) n (sleep i s, mem, ks))"

record sender_args =
  arg_src :: string
  arg_dst :: string
  arg_text :: string
  arg_delay :: "string option"
  arg_count :: u8

text \<open>
  What the program uses that is not in the repository, with the parsed command line: \<open>se_args\<close> is the result of \<^verbatim>\<open>clap\<close>,
  \<open>se_duration\<close> the parser of \<^verbatim>\<open>humantime\<close>, \<open>se_needed\<close> the three capabilities, \<open>se_umem\<close> the first bytes of the UMEM.
\<close>

record ('c, 'n, 'm) sender_env =
  se_caps :: "'c caps_env"
  se_needed :: "'c list"
  se_proc :: proc_sys
  se_args :: sender_args
  se_duration :: "string \<Rightarrow> nat option"
  se_nl :: nl_env
  se_lib :: "('n, 'm) net_lib"
  se_bpf :: bpf
  se_pass_code :: "u8 list"
  se_mac :: "mac_run \<Rightarrow> mac_call \<Rightarrow> mac_answer"
  se_os :: os
  se_umem :: "u8 list"
  se_libc :: libc_env
  se_packets :: packet_builder
  se_sleep :: "nat \<Rightarrow> socket \<Rightarrow> socket"

text \<open>The runs of the program against the systems it uses, and the last state of its loop.\<close>

record sender_world =
  sw_proc :: "proc_run \<times> string option"
  sw_bpf :: bpf_run
  sw_os :: os_run
  sw_mac :: mac_run
  sw_sent :: "send_state option"

abbreviation fail_other :: "string \<Rightarrow> 'a option \<Rightarrow> (io_error, 'a) res" where
  "fail_other msg x \<equiv> ok_or_else x msg"

text \<open>The part of \<^verbatim>\<open>main\<close> that has a socket; the socket is dropped when it ends.\<close>

definition sender_with_socket ::
  "('c, 'n, 'm) sender_env \<Rightarrow> build \<Rightarrow> u32 \<Rightarrow> ipv4 \<times> u16 \<Rightarrow> ipv4 \<times> u16 \<Rightarrow> next_hop \<Rightarrow> socket \<Rightarrow>
    sender_world \<Rightarrow> sender_world \<times> (io_error, unit) res"
where
  "sender_with_socket E b if_index src dst hop sok w =
     (let bytes = text_bytes (arg_text (se_args E));
          (mtr, m) = mac_by_ifindex (se_mac E) (sw_mac w) if_index;
          w = w\<lparr>sw_mac := mtr\<rparr>;
          (w, r) = try_in w m (\<lambda>src_mac.
            let flow = (\<lambda>dst_mac. \<lparr>src_mac = src_mac, dst_mac = dst_mac, src_addr = fst src, dst_addr = fst dst,
                  ttl = 64, src_port = snd src, dst_port = snd dst\<rparr>);
                rnd = sender_round (se_packets E) (os_show (se_os E)) (se_libc E) b hop flow bytes;
                (st, r) = sender_loop rnd (se_sleep E) 0 (unat (arg_count (se_args E))) (sok, se_umem E, [])
            in (w\<lparr>sw_sent := Some st\<rparr>, r))
      in (w\<lparr>sw_os := drop_all (os_drop (se_os E)) (pair_values (Some sok, None)) (sw_os w)\<rparr>, r))"

text \<open>The part that has the attached program; the program is dropped when it ends.\<close>

definition sender_attached ::
  "('c, 'n, 'm) sender_env \<Rightarrow> build \<Rightarrow> u32 \<Rightarrow> ipv4 \<times> u16 \<Rightarrow> ipv4 \<times> u16 \<Rightarrow> owned_xdp_prog \<Rightarrow>
    sender_world \<Rightarrow> sender_world \<times> (io_error, unit) res"
where
  "sender_attached E b if_index src dst prog w =
     (let (router, rr) = refresh (se_lib E) (se_nl E) (router_new (se_lib E) if_index);
          (w, r) =
            try_in w rr (\<lambda>_.
            try_in w (fail_other (''No route to destination IP '' @ show_ipv4 (fst dst)) (route (se_lib E) router (fst dst))) (\<lambda>hop.
            case create_tx_socket (se_os E) b if_index 0 None of (otr, c) \<Rightarrow>
            and_then (w\<lparr>sw_os := otr\<rparr>,
                map_err (\<lambda>e. OtherError (''Failed to create XDP socket: '' @ os_show (se_os E) e)) c)
              (\<lambda>sok w. sender_with_socket E b if_index src dst hop sok w)))
      in (w\<lparr>sw_bpf := owned_prog_drop (se_bpf E) prog (sw_bpf w)\<rparr>, r))"

text \<open>\<^verbatim>\<open>main\<close>; the result is \<open>None\<close> when the process was replaced to get its capabilities.\<close>

definition sender_main ::
  "('c, 'n, 'm) sender_env \<Rightarrow> build \<Rightarrow> string option \<Rightarrow> sender_world \<times> (io_error, unit) res option"
where
  "sender_main E b restarted =
     (case suite_setup (se_caps E) (se_proc E) ([], restarted) (se_needed E) of
        (p, r) \<Rightarrow>
      let w = \<lparr>sw_proc = p, sw_bpf = [], sw_os = [], sw_mac = [], sw_sent = None\<rparr>;
          args = se_args E
      in case r of
           None \<Rightarrow> (w, None)
         | Some r \<Rightarrow> apsnd Some (
             try_in w r (\<lambda>_.
             try_in w (case arg_delay args of
                 None \<Rightarrow> Ok 1000 | Some x \<Rightarrow> fail_other ''Invalid delay format'' (se_duration E x)) (\<lambda>delay.
             try_in w (fail_other ''Invalid source address format'' (socket_addr_from_str (arg_src args))) (\<lambda>src.
             try_in w (fail_other ''Invalid source address format'' (socket_addr_from_str (arg_dst args))) (\<lambda>dst.
             try_in w (get_ipv4_address (se_nl E) None) (\<lambda>addrs.
             try_in w (fail_other (''Source IP '' @ show_ipv4 (fst src) @ '' not found'')
                 (find (\<lambda>(addr, _). addr = fst src) addrs)) (\<lambda>(_, if_index).
             case attach_pass_program (se_pass_code E) (se_bpf E) [] if_index of (btr, p) \<Rightarrow>
             and_then (w\<lparr>sw_bpf := btr\<rparr>, p) (\<lambda>prog w.
             sender_attached E b if_index src dst prog w)))))))))"


section \<open>The pinger\<close>

text \<open>
  The endless loop: it has a result only when a send fails, and none, \<open>None\<close>, when a send never returns or when
  all succeed. \<open>envs i\<close> answers the system calls of round \<open>i\<close>.
\<close>

partial_function (option) pinger_loop ::
  "(nat \<Rightarrow> libc_env) \<Rightarrow> (io_error \<Rightarrow> string) \<Rightarrow> build \<Rightarrow> (nat \<Rightarrow> socket \<Rightarrow> socket) \<Rightarrow> u8 list \<Rightarrow> u8 list \<Rightarrow>
    nat \<Rightarrow> socket \<times> u8 list \<Rightarrow> ((socket \<times> u8 list) \<times> (io_error, unit) res) option"
where
  "pinger_loop envs shw b sleep data hdr i w =
     (case send_blocking (envs i) b w data (Some hdr) of
        None \<Rightarrow> None
      | Some p \<Rightarrow>
          (case snd p of
             Ok _ \<Rightarrow> pinger_loop envs shw b sleep data hdr (Suc i) (sleep i (fst (fst p)), snd (fst p))
           | Err e \<Rightarrow> Some (fst p, Err (OtherError (''Failed to write header: '' @ display_ring_error shw e)))
           | Panic \<Rightarrow> Some (fst p, Panic)
           | Undef \<Rightarrow> Some (fst p, Undef)))"

record ('n, 'm) pinger_env =
  pe_nl :: nl_env
  pe_lib :: "('n, 'm) net_lib"
  pe_os :: os
  pe_umem :: "u8 list"
  pe_libc :: "nat \<Rightarrow> libc_env"
  pe_packets :: packet_builder
  pe_mac_parse :: "string \<Rightarrow> (string, mac) res"
  pe_sleep :: "nat \<Rightarrow> socket \<Rightarrow> socket"

definition parse_ip :: "string \<Rightarrow> (io_error, ipv4) res" where
  "parse_ip s = fail_other ''invalid IP address: invalid IPv4 address syntax'' (ipv4_from_str s)"

definition parse_mac :: "('n, 'm) pinger_env \<Rightarrow> string \<Rightarrow> (io_error, mac) res" where
  "parse_mac E s = map_err (\<lambda>e. OtherError (''invalid MAC address: '' @ e)) (pe_mac_parse E s)"

text \<open>The router and the header of the packets.\<close>

definition pinger_header ::
  "('n, 'm) pinger_env \<Rightarrow> u32 \<Rightarrow> ipv4 \<Rightarrow> mac \<Rightarrow> u16 \<Rightarrow> ipv4 \<Rightarrow> mac \<Rightarrow> u16 \<Rightarrow> string \<Rightarrow> (io_error, u8 list) res"
where
  "pinger_header E if_index sa sm sp da dm dp dst_ip =
     (let (router, rr) = refresh (pe_lib E) (pe_nl E) (router_new (pe_lib E) if_index)
      in res_then (map_err (\<lambda>e. OtherError (''Failed to refresh router: '' @ os_show (pe_os E) e)) rr) (\<lambda>_.
         let router = router\<lparr>r_neighbors := (r_neighbors router)
               (da \<mapsto> \<lparr>n_ip = da, n_mac = dm, n_if_index = if_index\<rparr>)\<rparr>
         in res_then (fail_other (''No route to destination IP '' @ dst_ip) (route (pe_lib E) router da)) (\<lambda>hop.
            res_then (unwrap_some (mac_addr hop)) (\<lambda>m.
            write_udp_header_for (pe_packets E) (text_bytes ''PING'') sa sm sp da m dp))))"

definition pinger_prepare ::
  "('n, 'm) pinger_env \<Rightarrow> build \<Rightarrow> string \<Rightarrow> u16 \<Rightarrow> string \<Rightarrow> u16 \<Rightarrow> os_run \<times> (io_error, socket \<times> u8 list) res"
where
  "pinger_prepare E b src_ip sp dst_ip dp =
     try_in [] (parse_ip src_ip) (\<lambda>sa.
     try_in [] (parse_ip dst_ip) (\<lambda>da.
     try_in [] (map_err (\<lambda>e. OtherError (''Failed to get IP address: '' @ os_show (pe_os E) e))
       (get_ipv4_address (pe_nl E) None)) (\<lambda>_.
     try_in [] (get_ipv4_address (pe_nl E) None) (\<lambda>addrs.
     try_in [] (fail_other (''Source IP '' @ src_ip @ '' not found'') (find (\<lambda>(addr, _). addr = sa) addrs))
       (\<lambda>(_, if_index).
     try_in [] (parse_mac E ''fa:95:2c:e3:0e:a5'') (\<lambda>sm.
     try_in [] (parse_mac E ''aa:79:ea:34:4b:b8'') (\<lambda>dm.
     case create_tx_socket (pe_os E) b if_index 0 None of (tr, c) \<Rightarrow>
     and_then (tr, map_err (\<lambda>e. OtherError (''Failed to create XDP socket: '' @ os_show (pe_os E) e)) c) (\<lambda>sok tr.
     scoped (pe_os E) (pair_values (Some sok, None))
       (tr, pinger_header E if_index sa sm sp da dm dp dst_ip) (\<lambda>hdr tr.
     (tr, Ok (sok, hdr)))))))))))"

text \<open>The last component is the state when the loop was left, if it was reached.\<close>

definition run_pinger ::
  "('n, 'm) pinger_env \<Rightarrow> build \<Rightarrow> string \<Rightarrow> u16 \<Rightarrow> string \<Rightarrow> u16 \<Rightarrow>
    (os_run \<times> (io_error, unit) res \<times> (socket \<times> u8 list) option) option"
where
  "run_pinger E b src_ip sp dst_ip dp =
     (case pinger_prepare E b src_ip sp dst_ip dp of
        (tr, Ok (sok, hdr)) \<Rightarrow>
          map_option (\<lambda>(w, r). (drop_all (os_drop (pe_os E)) (pair_values (Some sok, None)) tr, r, Some w))
            (pinger_loop (pe_libc E) (os_show (pe_os E)) b (pe_sleep E) (text_bytes ''PING'') hdr 0 (sok, pe_umem E))
      | (tr, Err e) \<Rightarrow> Some (tr, Err e, None)
      | (tr, Panic) \<Rightarrow> Some (tr, Panic, None)
      | (tr, Undef) \<Rightarrow> Some (tr, Undef, None))"

end
