(* ===== verification/Apps_Facts.thy ===== *)
theory Apps_Facts
  imports Apps Sample
begin

unbundle bit_operations_syntax

text \<open>
  What the sending programs do with a socket: one round of each, and the invariant of their loops, which says
  which packets are in the TX ring and in the UMEM after any number of rounds.
\<close>

section \<open>Packets in the UMEM\<close>

lemma segment_write_same:
  "off + length bs \<le> length mem \<Longrightarrow> take (length bs) (drop off (write_bytes mem off bs)) = bs"
  by (simp add: write_bytes_def)

lemma segment_write_other:
  assumes "off + length bs \<le> length mem" "a + n \<le> off \<or> off + length bs \<le> a"
  shows "take n (drop a (write_bytes mem off bs)) = take n (drop a mem)"
proof (rule nth_equalityI)
  fix i assume "i < length (take n (drop a (write_bytes mem off bs)))"
  then have i: "i < n" "a + i < length mem" using assms(1) by (simp_all add: less_diff_conv add.commute)
  then show "take n (drop a (write_bytes mem off bs)) ! i = take n (drop a mem) ! i"
    using write_bytes_nth_outside [OF assms(1), of "a + i"] assms by auto
qed (use assms(1) in simp)

lemma write_pieces_fit:
  "length (concat ps) \<le> sl_len sl \<Longrightarrow> sl_off sl + length (concat ps) \<le> length mem \<Longrightarrow>
    write_pieces ps (mem, sl) =
      ((write_bytes mem (sl_off sl) (concat ps),
        \<lparr>sl_off = sl_off sl + length (concat ps), sl_len = sl_len sl - length (concat ps)\<rparr>), Ok ())"
proof (induction ps arbitrary: mem sl)
  case Nil
  then show ?case by (simp add: write_bytes_def)
next
  case (Cons p ps)
  let ?sl = "\<lparr>sl_off = sl_off sl + length p, sl_len = sl_len sl - length p\<rparr>"
  have "slice_write_all mem sl p = ((write_bytes mem (sl_off sl) p, ?sl), Ok ())"
    using Cons.prems by (simp add: slice_write_all_def Let_def)
  moreover have "write_bytes (write_bytes mem (sl_off sl) p) (sl_off sl + length p) (concat ps) =
      write_bytes mem (sl_off sl) (p @ concat ps)"
    using Cons.prems(2) by (intro write_bytes_append) simp
  ultimately show ?case
    using Cons.IH [of ?sl "write_bytes mem (sl_off sl) p"] Cons.prems by simp
qed

text \<open>A packet that does not fit ends with the error of the writer.\<close>

lemma write_pieces_overflow:
  "sl_len sl < length (concat ps) \<Longrightarrow>
    snd (write_pieces ps (mem, sl)) = Err (WriteZeroError ''failed to write whole buffer'')"
proof (induction ps arbitrary: mem sl)
  case (Cons p ps)
  then show ?case
    by (cases "sl_len sl < length p") (auto simp: slice_write_all_def Let_def min_def)
qed simp

section \<open>One round\<close>

text \<open>The frame behind the first available descriptor, and its place in the UMEM.\<close>

definition head_addr :: "socket \<Rightarrow> nat" where
  "head_addr s = unat (d_addr (tx_desc s 0))"

definition can_send :: "nat \<Rightarrow> socket \<times> u8 list \<Rightarrow> bool" where
  "can_send n w \<longleftrightarrow> wf_tx (fst w) \<and> umem_ok (fst w) \<and> 0 < available (fst w) \<and> n < 2048 \<and>
     head_addr (fst w) + 2048 \<le> 8388608 \<and> 8388608 \<le> length (snd w)"

lemma send_round:
  assumes "can_send (length hdr + length data) (s, mem)"
  shows "send b (s, mem) data (Some hdr) =
    ((sent (length hdr + length data) s, write_bytes mem (head_addr s) (hdr @ data)), Ok ())"
  using assms send_ok [of s "Some hdr" data mem b]
  by (simp add: can_send_def head_addr_def header_bytes_def)

lemma sender_round_ok:
  assumes "can_send (42 + length bytes) (s, mem)" "mac_addr hop = Some m"
    and "bld (flow m) bytes = (ps, Ok ())" "length (concat ps) = 42 + length bytes"
  shows "sender_round bld shw env b hop flow bytes (s, mem, ks) =
    (case kick env (sent (42 + length bytes) s) of
       (fds, k) \<Rightarrow> ((sent (42 + length bytes) s, write_bytes mem (head_addr s) (concat ps), ks @ fds), k))"
proof -
  let ?n = "42 + length bytes"
  let ?sl = "\<lparr>sl_off = head_addr s, sl_len = ?n\<rparr>"
  have s: "wf_tx s" "umem_ok s" "0 < available s" "?n < 2048" "head_addr s + 2048 \<le> 8388608" "8388608 \<le> length mem"
    using assms(1) by (simp_all add: can_send_def)
  have l: "unat (of_nat ?n :: usize) = ?n" using s(4) by (intro unat_of_nat_u64) simp
  have "(1 :: usize) \<le> ucast (available s)" using s(3) by (simp add: word_le_nat_alt word_less_nat_alt)
  then have "seek_and_peek_tx b s (of_nat ?n) = (peeked ?n s, Ok ?sl)"
    using peek_head_ok [OF s(1-3) l s(4) s(5) [unfolded head_addr_def], of b]
    by (simp add: seek_and_peek_tx_def seek_tx_hit head_addr_def)
  moreover have "write_pieces ps (mem, ?sl) =
      ((write_bytes mem (head_addr s) (concat ps), \<lparr>sl_off = head_addr s + ?n, sl_len = 0\<rparr>), Ok ())"
    using write_pieces_fit [of ps ?sl mem] assms(4) s(4-6) by simp
  then have "build_into bld shw (flow m) bytes mem ?sl = (write_bytes mem (head_addr s) (concat ps), Ok ())"
    by (simp add: build_into_def assms(3))
  ultimately show ?thesis
    unfolding sender_round_def
    by (simp add: unwrap_some_def assms(2) commit_peeked [OF s(1,3)] del: of_nat_add split: prod.split)
qed

section \<open>The invariant of the loops\<close>

text \<open>What the kernel may do to a transmit socket between two rounds.\<close>

definition kernel_quiet :: "socket \<Rightarrow> socket \<Rightarrow> bool" where
  "kernel_quiet s s' \<longleftrightarrow> wf_tx s' \<and> available s' = available s \<and> producer s' = producer s \<and>
     consumer s' = consumer s \<and> frames s' = frames s \<and> ring_cap (x_ring s') = ring_cap (x_ring s) \<and>
     slot_rd (x_ring s') = slot_rd (x_ring s) \<and> prod_ix (x_ring s') = prod_ix (x_ring s)"

definition start_slot :: "socket \<Rightarrow> socket \<Rightarrow> nat \<Rightarrow> xdp_desc" where
  "start_slot s0 s j = slot_rd (x_ring s) (producer s0 + of_nat j)"

definition start_addr :: "socket \<Rightarrow> nat \<Rightarrow> nat" where
  "start_addr s0 j = unat (d_addr (start_slot s0 s0 j))"

text \<open>The available frames lie in the UMEM and do not overlap.\<close>

definition frames_apart :: "socket \<Rightarrow> bool" where
  "frames_apart s0 \<longleftrightarrow> (\<forall>i < unat (available s0). start_addr s0 i + 2048 \<le> 8388608 \<and>
     (\<forall>j < unat (available s0). i < j \<longrightarrow>
       start_addr s0 i + 2048 \<le> start_addr s0 j \<or> start_addr s0 j + 2048 \<le> start_addr s0 i))"

text \<open>After \<open>k\<close> rounds the first \<open>k\<close> frames that were available at the start are queued, each with the packet.\<close>

definition packets_sent :: "socket \<Rightarrow> u8 list \<Rightarrow> nat \<Rightarrow> socket \<Rightarrow> u8 list \<Rightarrow> bool" where
  "packets_sent s0 pkt k s mem \<longleftrightarrow> wf_tx s \<and> umem_ok s \<and> ring_cap (x_ring s) = ring_cap (x_ring s0) \<and>
     producer s = producer s0 + of_nat k \<and> prod_ix (x_ring s) = producer s \<and> consumer s = consumer s0 \<and>
     unat (available s) + k = unat (available s0) \<and> 8388608 \<le> length mem \<and>
     (\<forall>j < unat (available s0). d_addr (start_slot s0 s j) = d_addr (start_slot s0 s0 j)) \<and>
     (\<forall>j < k. d_len (start_slot s0 s j) = of_nat (length pkt) \<and> take (length pkt) (drop (start_addr s0 j) mem) = pkt)"

lemma packets_sent_start:
  assumes "wf_tx s" "umem_ok s" "prod_ix (x_ring s) = producer s" "8388608 \<le> length mem"
  shows "packets_sent s pkt 0 s mem"
  using assms by (simp add: packets_sent_def)

lemma packets_sent_quiet:
  assumes "packets_sent s0 pkt k s mem" "kernel_quiet s s'"
  shows "packets_sent s0 pkt k s' mem"
  using assms by (simp add: packets_sent_def kernel_quiet_def umem_ok_def start_slot_def)

lemma packets_sent_head:
  assumes "packets_sent s0 pkt k s mem" "k < unat (available s0)"
  shows "head_addr s = start_addr s0 k"
  using assms by (simp add: packets_sent_def head_addr_def start_addr_def tx_desc_def start_slot_def)

lemma packets_sent_ready:
  assumes "packets_sent s0 pkt k s mem" "k < unat (available s0)" "frames_apart s0" "length pkt < 2048"
  shows "can_send (length pkt) (s, mem)"
proof -
  have "0 < available s" using assms(1,2) by (simp add: packets_sent_def word_less_nat_alt)
  then show ?thesis
    using assms packets_sent_head [OF assms(1,2)] by (simp add: can_send_def packets_sent_def frames_apart_def)
qed

lemma packets_sent_step:
  assumes inv: "packets_sent s0 pkt k s mem" and k: "k < unat (available s0)" and wf0: "wf_tx s0"
    and apart: "frames_apart s0" and len: "length pkt < 2048"
  shows "packets_sent s0 pkt (Suc k) (sent (length pkt) s) (write_bytes mem (head_addr s) pkt)"
proof -
  let ?s = "sent (length pkt) s" and ?N = "unat (available s0)" and ?m = "write_bytes mem (head_addr s) pkt"
  have wf: "wf_tx s" and p: "producer s = producer s0 + of_nat k" and a: "unat (available s) + k = ?N"
    and mem: "8388608 \<le> length mem" and cap: "ring_cap (x_ring s) = ring_cap (x_ring s0)"
    using inv by (simp_all add: packets_sent_def)
  have x: "ring_ok (x_ring s)" using wf by (rule wf_txD)
  have N: "?N \<le> ring_cap (x_ring s)" using wf_txD(4) [OF wf0] cap by simp
  have av: "1 \<le> available s" using a k by (simp add: word_le_nat_alt)
  then have a': "unat (available s - 1) + Suc k = ?N" using a k by (simp add: unat_sub)
  have h: "head_addr s = start_addr s0 k" using packets_sent_head [OF inv k] .
  have "slot_rd (slot_wr (x_ring s) (producer s0 + of_nat k) v) (producer s0 + of_nat j) =
      (if j = k then v else slot_rd (x_ring s) (producer s0 + of_nat j))" if "j < ?N" for j v
    by (rule rings.rd_wr_offset [OF x]) (use that k N in simp_all)
  then have slot: "start_slot s0 ?s j =
      (if j = k then (start_slot s0 s k)\<lparr>d_len := of_nat (length pkt)\<rparr> else start_slot s0 s j)" if "j < ?N" for j
    using that by (simp add: start_slot_def sent_def tx_desc_def p)
  have "start_addr s0 k + 2048 \<le> 8388608" using apart k by (simp add: frames_apart_def)
  then have ends: "head_addr s + length pkt \<le> length mem" using len mem by (simp add: h)
  have "take (length pkt) (drop (start_addr s0 j) ?m) = pkt" if "j < Suc k" for j
  proof (cases "j = k")
    case True
    then show ?thesis using segment_write_same [OF ends] by (simp add: h)
  next
    case False
    then have j: "j < k" using that by simp
    then have "start_addr s0 j + 2048 \<le> start_addr s0 k \<or> start_addr s0 k + 2048 \<le> start_addr s0 j"
      using apart k by (simp add: frames_apart_def)
    then have "start_addr s0 j + length pkt \<le> head_addr s \<or> head_addr s + length pkt \<le> start_addr s0 j"
      using len by (auto simp: h)
    then show ?thesis using segment_write_other [OF ends] j inv by (simp add: packets_sent_def)
  qed
  moreover have "wf_tx ?s"
    using wf_tx_commit [of "peeked (length pkt) s" 1 "producer s + 1" "producer s + 1"] wf av
    by (simp add: sent_def peeked_def wf_tx_def pending_def)
  moreover have "umem_ok ?s" "ring_cap (x_ring ?s) = ring_cap (x_ring s0)" "producer ?s = producer s0 + of_nat (Suc k)"
    "prod_ix (x_ring ?s) = producer ?s" "consumer ?s = consumer s0" "available ?s = available s - 1"
    using inv by (simp_all add: packets_sent_def sent_def umem_ok_def)
  ultimately show ?thesis
    using inv a' mem ends k by (simp add: packets_sent_def slot less_Suc_eq)
qed


section \<open>The loop of the sender\<close>

text \<open>A system in which waking the kernel does not fail, and a kernel that keeps to its part between the rounds.\<close>

definition wakes :: "libc_env \<Rightarrow> bool" where
  "wakes env \<longleftrightarrow> (\<forall>fd. 0 \<le> fst (sys_sendto env fd))"

definition sleeps_quietly :: "(nat \<Rightarrow> socket \<Rightarrow> socket) \<Rightarrow> bool" where
  "sleeps_quietly sleep \<longleftrightarrow> (\<forall>i s. wf_tx s \<longrightarrow> kernel_quiet s (sleep i s))"

lemma kick_wakes:
  assumes "wakes env" "ring_ok (x_ring s)"
  shows "snd (kick env s) = Ok ()"
  using assms by (simp add: kick_def wakes_def ring_okD Let_def not_less split: prod.split) (metis fst_conv not_less)

lemma sender_loop_sends:
  assumes "packets_sent s0 (concat ps) k s mem" "k + n \<le> unat (available s0)" "wf_tx s0" "frames_apart s0"
    and "mac_addr hop = Some m" "bld (flow m) bytes = (ps, Ok ())" "length (concat ps) = 42 + length bytes"
    and "42 + length bytes < 2048" "wakes env" "sleeps_quietly sleep"
  shows "\<exists>s' mem' ks'. sender_loop (sender_round bld shw env b hop flow bytes) sleep i n (s, mem, ks) =
      ((s', mem', ks'), Ok ()) \<and> packets_sent s0 (concat ps) (k + n) s' mem'"
  using assms(1,2)
proof (induction n arbitrary: k s mem ks i)
  case 0
  then show ?case by simp
next
  case (Suc n)
  let ?n = "42 + length bytes"
  let ?s = "sent ?n s" and ?mem = "write_bytes mem (head_addr s) (concat ps)"
  have k: "k < unat (available s0)" using Suc.prems(2) by simp
  have len: "length (concat ps) < 2048" using assms(7,8) by simp
  have ready: "can_send ?n (s, mem)"
    using packets_sent_ready [OF Suc.prems(1) k assms(4) len] by (simp only: assms(7))
  have inv: "packets_sent s0 (concat ps) (Suc k) ?s ?mem"
    using packets_sent_step [OF Suc.prems(1) k assms(3,4) len] by (simp only: assms(7))
  then have wf: "wf_tx ?s" by (simp add: packets_sent_def)
  obtain fds where kick: "kick env ?s = (fds, Ok ())"
    using kick_wakes [OF assms(9) wf_txD(1) [OF wf]] by (cases "kick env ?s") simp
  have "packets_sent s0 (concat ps) (Suc k) (sleep i ?s) ?mem"
    using packets_sent_quiet [OF inv] wf assms(10) by (simp add: sleeps_quietly_def)
  from Suc.IH [OF this, of "Suc i" "ks @ fds"] show ?case
    using Suc.prems(2) sender_round_ok [where bld = bld and flow = flow, OF ready assms(5,6,7), of shw env b ks]
    by (simp add: kick)
qed

section \<open>The loop of the pinger\<close>

definition always_ready :: "libc_env \<Rightarrow> bool" where
  "always_ready env \<longleftrightarrow> wakes env \<and> (\<exists>i. poll_ready (sys_poll env) (pollout env) i)"

lemma send_blocking_round:
  assumes "can_send (length hdr + length data) (s, mem)" "always_ready env"
  shows "send_blocking env b (s, mem) data (Some hdr) =
    Some ((sent (length hdr + length data) s, write_bytes mem (head_addr s) (hdr @ data)), Ok ())"
proof -
  let ?s = "sent (length hdr + length data) s"
  have "ring_ok (x_ring ?s)" using assms(1) by (simp add: can_send_def wf_tx_def sent_def)
  then have "snd (kick env ?s) = Ok ()" using assms(2) kick_wakes by (simp add: always_ready_def)
  then have "poll_wait env True ?s None = Some (Ok ())"
    using assms(2) poll.returns_iff [of "sys_poll env" "pollout env"] by (auto simp: always_ready_def poll_wait_def)
  then show ?thesis by (simp add: send_blocking_def send_round [OF assms(1)])
qed

lemma send_exhausted:
  assumes "safety_checks b" "available s = 0" "length hdr + length data < 2048"
  shows "send_blocking env b (s, mem) data (Some hdr) = Some ((s, mem), Err InvalidIndex)"
proof -
  have "add_chk b (of_nat (length data)) (of_nat (length hdr)) =
      (Ok (of_nat (length data) + of_nat (length hdr)) :: (ring_error, usize) res)"
    using assms(3) by (intro add_chk_Ok) (simp add: unat_of_nat_u64)
  then show ?thesis
    using assms(1,2) by (simp add: send_blocking_def send_def peek_tx_0_def peek_tx_def Let_def)
qed

lemma pinger_loop_runs_out:
  assumes "packets_sent s0 (hdr @ data) k s mem" "wf_tx s0" "frames_apart s0" "safety_checks b"
    and "length hdr + length data < 2048" "\<forall>i. always_ready (envs i)" "sleeps_quietly sleep"
  shows "\<exists>s' mem'. pinger_loop envs shw b sleep data hdr i (s, mem) =
      Some ((s', mem'), Err (OtherError ''Failed to write header: Invalid index for ring access'')) \<and>
    packets_sent s0 (hdr @ data) (unat (available s0)) s' mem'"
  using assms(1)
proof (induction "unat (available s)" arbitrary: k s mem i)
  case 0
  then have "available s = 0" "k = unat (available s0)" by (simp_all add: packets_sent_def unat_eq_0)
  then show ?case
    using 0 send_exhausted [OF assms(4) _ assms(5)] by (subst pinger_loop.simps) simp
next
  case (Suc a)
  let ?n = "length hdr + length data"
  let ?s = "sent ?n s" and ?mem = "write_bytes mem (head_addr s) (hdr @ data)"
  have k: "k < unat (available s0)" using Suc.hyps(2) Suc.prems by (simp add: packets_sent_def)
  have ready: "can_send ?n (s, mem)"
    using packets_sent_ready [OF Suc.prems k assms(3)] assms(5) by simp
  have inv: "packets_sent s0 (hdr @ data) (Suc k) ?s ?mem"
    using packets_sent_step [OF Suc.prems k assms(2,3)] assms(5) by simp
  then have wf: "wf_tx ?s" by (simp add: packets_sent_def)
  then have quiet: "kernel_quiet ?s (sleep i ?s)" using assms(7) by (simp add: sleeps_quietly_def)
  have "a = unat (available (sleep i ?s))"
    using Suc.hyps(2) Suc.prems inv quiet by (simp add: packets_sent_def kernel_quiet_def)
  from Suc.hyps(1) [OF this packets_sent_quiet [OF inv quiet], of "Suc i"] show ?case
    using send_blocking_round [OF ready, of "envs i" b] assms(6) by (subst pinger_loop.simps) simp
qed

end
