(* ===== verification/Apps_Properties.thy ===== *)
theory Apps_Properties
  imports Apps_Facts Create_Properties Util_Properties Harness_Properties Tx_Properties
begin

unbundle bit_operations_syntax

text \<open>
  Properties of the programs that send packets: what the sender puts on the wire, that the two ways of
  building a packet agree, when the pinger stops, and that nothing is left behind.
\<close>

section \<open>A socket made for sending\<close>

text \<open>A system that follows its documentation.\<close>

definition system_ok :: "os \<Rightarrow> bool" where
  "system_ok os \<longleftrightarrow> os_ok os \<and> page_ok os \<and> zero_indices os"

lemma sample_system_ok: "system_ok sample_os"
  using sample_os_ok by (simp add: system_ok_def)

lemma created_tx:
  assumes "system_ok os" "create_tx_socket os b if_index if_queue config = (tr, Ok s)"
  shows "wf_tx s" "umem_ok s" "prod_ix (x_ring s) = producer s" "producer s = 0" "consumer s = 0"
    "unat (available s) = 4096" "frames_apart s" "\<And>j. j < 4096 \<Longrightarrow> start_addr s j = j * 2048"
proof -
  have os: "os_ok os" "page_ok os" "zero_indices os" using assms(1) by (simp_all add: system_ok_def)
  have made: "create_socket os b if_index if_queue DirTx config = (tr, Ok (Some s, None))"
    using create_wrappers [OF os(1,2)] assms(2) by blast
  have n: "ring_sizes DirTx = (0, FRAME_COUNT)" by (simp add: ring_sizes_def)
  have cnt: "unat FRAME_COUNT = 4096" "ring_size (unat FRAME_COUNT)"
    using ring_size_pow2 [of 12] by (simp_all add: FRAME_COUNT_def)
  obtain io where io: "umem_covers io" "made_tx os FRAME_COUNT io s"
    using create_socket_Ok [OF os(1,2) n made] by auto
  obtain c t0 t where s: "s = socket_new (Some io) t c"
    and t0: "as_mapped os os_desc XDP_PGOFF_TX_RING FRAME_COUNT t0" and t: "filled_with frame_desc 0 t0 t"
    using io(2) unfolding made_tx_def by blast
  have inv: "tx_inv (frame_pool 0 (unat FRAME_COUNT)) \<lparr>w_sock = s, w_mem = [], w_held = {#}\<rparr>" "frames s = umem_frames (umem io)"
    using made_tx_inv [OF io(2) os(3) cnt(2), of "[]"] by auto
  show "wf_tx s" using tx_inv_wf [OF inv(1)] by simp
  have cap: "ring_cap (x_ring s) = 4096" using inv(1) cnt(1) by (simp add: tx_inv_def frame_pool_def)
  show "umem_ok s" using io(1) inv(2) cap by (simp add: umem_ok_def umem_covers_def umem_frames_def)
  show "prod_ix (x_ring s) = producer s" "producer s = 0" "consumer s = 0"
    using inv(1) by (simp_all add: tx_inv_def tx_shape_def) (simp_all add: s)
  have frames: "app_frames s = frame_pool 0 4096" using made_tx_frames [OF io(2) os(3) cnt(2)] by (simp only: cnt)
  then have "length (app_frames s) = 4096" by (simp add: frame_pool_def)
  then show av: "unat (available s) = 4096" by simp
  show addr: "start_addr s j = j * 2048" if "j < 4096" for j
  proof -
    have "d_addr (start_slot s s j) = app_frames s ! j" using that av by (simp add: app_frames_desc start_slot_def)
    then have "d_addr (start_slot s s j) = frame_addr j" using that by (simp add: frames frame_pool_def)
    then show ?thesis using that by (simp add: start_addr_def unat_frame_addr)
  qed
  show "frames_apart s" unfolding frames_apart_def av by (auto simp: addr)
qed


section \<open>Samples\<close>

definition sample_packets :: packet_builder where
  "sample_packets flow data = ([replicate 14 1, replicate 20 2, replicate 8 3, data], Ok ())"

definition sample_libc :: libc_env where
  "sample_libc = \<lparr>xdp_ring_need_wakeup = 1, pollin = 1, pollout = 4, sys_sendto = (\<lambda>fd. (0, None)), sys_poll = (\<lambda>i. (1, 4))\<rparr>"

text \<open>A kernel that takes all queued descriptors.\<close>

definition drain :: "nat \<Rightarrow> socket \<Rightarrow> socket" where
  "drain i s = s\<lparr>x_ring := set_cons (x_ring s) (prod_ix (x_ring s))\<rparr>"

definition sample_hop :: next_hop where
  "sample_hop = \<lparr>ip_addr = 0x0A000001, mac_addr = Some [2, 0, 0, 0, 0, 1]\<rparr>"

definition sample_flow :: "mac \<Rightarrow> udp_flow" where
  "sample_flow m = \<lparr>src_mac = [2, 0, 0, 0, 0, 9], dst_mac = m, src_addr = 0x0A000009, dst_addr = 0x0A000001,
     ttl = 64, src_port = 9000, dst_port = 9001\<rparr>"

lemma sample_apps [simp]:
  "wakes sample_libc" "always_ready sample_libc" "sleeps_quietly drain"
  "mac_addr sample_hop = Some [2, 0, 0, 0, 0, 1]"
  "sample_packets flow bytes = ([replicate 14 1, replicate 20 2, replicate 8 3, bytes], Ok ())"
  by (simp_all add: wakes_def always_ready_def poll_ready_def sample_libc_def sleeps_quietly_def kernel_quiet_def
      drain_def wf_tx_def pending_def sample_hop_def sample_packets_def)

lemma sample_creates_sender: "\<exists>tr s. create_tx_socket sample_os sample_build if_index 0 None = (tr, Ok s)"
proof -
  obtain tr s rx where c: "create_socket sample_os sample_build if_index 0 DirTx None = (tr, Ok (Some s, rx))"
    using sample_creates_tx [of DirTx] by blast
  then have "rx = None" using create_socket_Ok [OF sample_os_ok(1,2) _ c] by (auto simp: ring_sizes_def)
  then show ?thesis
    using c create_wrappers [OF sample_os_ok(1,2), of sample_build if_index 0 None tr s] by blast
qed

section \<open>What the sender transmits\<close>

text \<open>
  C17. The sender, from \<^verbatim>\<open>create_tx_socket\<close> on: with a packet that fits, a kernel that can be woken and that keeps to its part
  while the program sleeps, the loop sends every packet. After it, the \<open>count\<close> first descriptors are
  published; descriptor \<open>j\<close> points to frame \<open>j\<close>, has the length of the packet, and the frame holds the
  packet as the builder wrote it.
\<close>

theorem sender_transmits:
  assumes "system_ok os" "create_tx_socket os b if_index if_queue config = (tr, Ok s)" "8388608 \<le> length mem"
    and "mac_addr hop = Some m" "bld (flow m) bytes = (ps, Ok ())" "length (concat ps) = 42 + length bytes"
    and "42 + length bytes < 2048" "wakes env" "sleeps_quietly sleep"
  shows "\<exists>s' mem' ks. sender_loop (sender_round bld shw env b hop flow bytes) sleep 0 (unat (rounds :: u8)) (s, mem, []) =
      ((s', mem', ks), Ok ()) \<and> prod_ix (x_ring s') = ucast rounds \<and>
    (\<forall>j < unat rounds. unat (d_addr (slot_rd (x_ring s') (of_nat j))) = j * 2048 \<and>
       d_len (slot_rd (x_ring s') (of_nat j)) = of_nat (42 + length bytes) \<and>
       take (42 + length bytes) (drop (j * 2048) mem') = concat ps)"
proof -
  note made = created_tx [OF assms(1,2)]
  have "unat rounds < 2 ^ 8" using unsigned_less [of rounds, where ?'a = nat] by simp
  then have c: "unat rounds \<le> 255" by simp
  have start: "packets_sent s (concat ps) 0 s mem" by (rule packets_sent_start [OF made(1-3) assms(3)])
  have n: "0 + unat rounds \<le> unat (available s)" using c made(6) by simp
  obtain s' mem' ks where run:
      "sender_loop (sender_round bld shw env b hop flow bytes) sleep 0 (unat rounds) (s, mem, []) = ((s', mem', ks), Ok ())"
    and sent: "packets_sent s (concat ps) (0 + unat rounds) s' mem'"
    using sender_loop_sends [where flow = flow and bld = bld, OF start n made(1,7) assms(4-9)] by blast
  have "prod_ix (x_ring s') = ucast rounds" using sent made(4) by (simp add: packets_sent_def)
  moreover have "unat (d_addr (slot_rd (x_ring s') (of_nat j))) = j * 2048 \<and>
       d_len (slot_rd (x_ring s') (of_nat j)) = of_nat (42 + length bytes) \<and>
       take (42 + length bytes) (drop (j * 2048) mem') = concat ps" if j: "j < unat rounds" for j
  proof -
    have "j < 4096" using j c by simp
    then have "start_addr s j = j * 2048" by (rule made(8))
    moreover have "d_addr (start_slot s s' j) = d_addr (start_slot s s j)"
      using sent j c made(6) by (simp add: packets_sent_def)
    moreover have "d_len (start_slot s s' j) = of_nat (42 + length bytes)"
      "take (42 + length bytes) (drop (start_addr s j) mem') = concat ps"
      using sent j assms(6) by (simp_all add: packets_sent_def del: of_nat_add)
    ultimately show ?thesis using made(4) by (simp add: start_slot_def start_addr_def)
  qed
  ultimately show ?thesis using run by blast
qed

theorem sender_transmits_witness:
  "\<exists>tr s s' mem' ks. create_tx_socket sample_os sample_build 2 0 None = (tr, Ok s) \<and>
     sender_loop (sender_round sample_packets (\<lambda>e. []) sample_libc sample_build sample_hop sample_flow [80, 73, 78, 71])
       drain 0 (unat (3 :: u8)) (s, replicate 8388608 0, []) = ((s', mem', ks), Ok ()) \<and>
     prod_ix (x_ring s') = 3 \<and> take 46 (drop 4096 mem') = replicate 14 1 @ replicate 20 2 @ replicate 8 3 @ [80, 73, 78, 71]"
proof -
  obtain tr s where c: "create_tx_socket sample_os sample_build 2 0 None = (tr, Ok s)"
    using sample_creates_sender by blast
  let ?ps = "[replicate 14 1, replicate 20 2, replicate 8 3, [80, 73, 78, 71 :: u8]]"
  have mem: "8388608 \<le> length (replicate 8388608 (0 :: u8))" by (simp only: length_replicate)
  have len: "length (concat ?ps) = 42 + length [80, 73, 78, 71 :: u8]" "42 + length [80, 73, 78, 71 :: u8] < 2048" by simp_all
  obtain s' mem' ks where r: "sender_loop (sender_round sample_packets (\<lambda>e. []) sample_libc sample_build sample_hop sample_flow [80, 73, 78, 71])
       drain 0 (unat (3 :: u8)) (s, replicate 8388608 0, []) = ((s', mem', ks), Ok ())"
    "prod_ix (x_ring s') = ucast (3 :: u8)"
    "\<forall>j < unat (3 :: u8). unat (d_addr (slot_rd (x_ring s') (of_nat j))) = j * 2048 \<and>
       d_len (slot_rd (x_ring s') (of_nat j)) = of_nat (42 + length [80, 73, 78, 71 :: u8]) \<and>
       take (42 + length [80, 73, 78, 71 :: u8]) (drop (j * 2048) mem') = concat ?ps"
    using sender_transmits [where flow = sample_flow and bld = sample_packets, OF sample_system_ok c mem sample_apps(4,5) len sample_apps(1,3), of "\<lambda>e. []" 3]
    by blast
  have "prod_ix (x_ring s') = 3" using r(2) by simp
  moreover have "take 46 (drop 4096 mem') = replicate 14 1 @ replicate 20 2 @ replicate 8 3 @ [80, 73, 78, 71]"
    using r(3) [rule_format, of 2] by simp
  ultimately show ?thesis using c r(1) by blast
qed


section \<open>When the pinger stops\<close>

text \<open>
  C32. The pinger never seeks. On a system where every send succeeds and is waited for, its endless loop therefore ends:
  after exactly 4096 packets, one in every frame, the next send is refused with the error of a bad index. It has
  reclaimed no frame, however many the kernel has completed.
\<close>

theorem pinger_runs_out_of_frames:
  assumes "system_ok os" "create_tx_socket os b if_index if_queue config = (tr, Ok s)" "8388608 \<le> length mem"
    and "safety_checks b" "length hdr + length data < 2048" "\<forall>i. always_ready (envs i)" "sleeps_quietly sleep"
  shows "\<exists>s' mem'. pinger_loop envs shw b sleep data hdr 0 (s, mem) =
      Some ((s', mem'), Err (OtherError ''Failed to write header: Invalid index for ring access'')) \<and>
    unat (prod_ix (x_ring s')) = 4096 \<and> consumer s' = 0 \<and>
    (\<forall>j < 4096. take (length hdr + length data) (drop (j * 2048) mem') = hdr @ data)"
proof -
  note made = created_tx [OF assms(1,2)]
  have start: "packets_sent s (hdr @ data) 0 s mem" by (rule packets_sent_start [OF made(1-3) assms(3)])
  obtain s' mem' where run: "pinger_loop envs shw b sleep data hdr 0 (s, mem) =
      Some ((s', mem'), Err (OtherError ''Failed to write header: Invalid index for ring access''))"
    and sent: "packets_sent s (hdr @ data) (unat (available s)) s' mem'"
    using pinger_loop_runs_out [OF start made(1,7) assms(4-7)] by blast
  have "take (length hdr + length data) (drop (j * 2048) mem') = hdr @ data" if "j < 4096" for j
  proof -
    have "take (length (hdr @ data)) (drop (start_addr s j) mem') = hdr @ data"
      using sent that unfolding packets_sent_def made(6) by blast
    then show ?thesis by (simp add: made(8) [OF that])
  qed
  moreover have "unat (prod_ix (x_ring s')) = 4096" "consumer s' = 0"
    using sent made(4,5) made(6) by (simp_all add: packets_sent_def del: word_of_nat_eq_0_iff)
  ultimately show ?thesis using run by blast
qed

theorem pinger_runs_out_of_frames_witness:
  "\<exists>tr s s' mem'. create_tx_socket sample_os sample_build 2 0 None = (tr, Ok s) \<and>
     pinger_loop (\<lambda>i. sample_libc) (\<lambda>e. []) sample_build drain [80, 73, 78, 71] (replicate 42 7) 0 (s, replicate 8388608 0) =
       Some ((s', mem'), Err (OtherError ''Failed to write header: Invalid index for ring access'')) \<and>
     unat (prod_ix (x_ring s')) = 4096"
proof -
  obtain tr s where c: "create_tx_socket sample_os sample_build 2 0 None = (tr, Ok s)"
    using sample_creates_sender by blast
  have mem: "8388608 \<le> length (replicate 8388608 (0 :: u8))" by (simp only: length_replicate)
  have len: "length (replicate 42 7 :: u8 list) + length [80, 73, 78, 71 :: u8] < 2048" by simp
  have ready: "\<forall>i. always_ready ((\<lambda>i :: nat. sample_libc) i)" by simp
  show ?thesis
    using pinger_runs_out_of_frames [OF sample_system_ok c mem sample_build_simps(1) len ready sample_apps(3), of "\<lambda>e. []"] c
    by blast
qed

section \<open>Two ways to build a packet\<close>

text \<open>
  C31. Building the packet in the frame, as the sender does, and sending the payload behind a header made with
  \<^verbatim>\<open>write_udp_header_for\<close>, as the pinger does, are the same: when the builder writes a header of 42 bytes and then the
  payload, both leave the same socket and the same bytes in the UMEM, and the sender then wakes the
  kernel for that socket.
\<close>

theorem packet_paths_agree:
  assumes "can_send (42 + length bytes) (s, mem)" "mac_addr hop = Some dm"
    and "flow dm = \<lparr>src_mac = sm, dst_mac = dm, src_addr = sa, dst_addr = da, ttl = 64, src_port = sp, dst_port = dp\<rparr>"
    and "bld (flow dm) bytes = (ps, Ok ())" "concat ps = h @ bytes" "length h = 42"
  shows "\<exists>hdr s' mem' fds k. write_udp_header_for bld bytes sa sm sp da dm dp = Ok hdr \<and>
    send b (s, mem) bytes (Some hdr) = ((s', mem'), Ok ()) \<and> kick env s' = (fds, k) \<and>
    sender_round bld shw env b hop flow bytes (s, mem, ks) = ((s', mem', ks @ fds), k)"
proof -
  have "length (concat ps) = 42 + length bytes" using assms(5,6) by simp
  from sender_round_ok [where bld = bld and flow = flow, OF assms(1,2,4) this, of shw env b ks]
  have "sender_round bld shw env b hop flow bytes (s, mem, ks) =
      (case kick env (sent (42 + length bytes) s) of
         (fds, k) \<Rightarrow> ((sent (42 + length bytes) s, write_bytes mem (head_addr s) (h @ bytes), ks @ fds), k))"
    by (simp only: assms(5))
  moreover have "write_udp_header_for bld bytes sa sm sp da dm dp = Ok h"
    using header_is_prefix [of bld sm dm sa da sp dp bytes ps] assms(3-6) by simp
  moreover have "send b (s, mem) bytes (Some h) =
      ((sent (42 + length bytes) s, write_bytes mem (head_addr s) (h @ bytes)), Ok ())"
    using send_round [of h bytes s mem b] assms(1,6) by simp
  ultimately show ?thesis by (cases "kick env (sent (42 + length bytes) s)") simp
qed

theorem packet_paths_agree_witness:
  "\<exists>s mem hdr s' mem' ks. write_udp_header_for sample_packets [80, 73] 0x0A000009 [2, 0, 0, 0, 0, 9] 9000 0x0A000001
       [2, 0, 0, 0, 0, 1] 9001 = Ok hdr \<and>
     send sample_build (s, mem) [80, 73] (Some hdr) = ((s', mem'), Ok ()) \<and>
     fst (sender_round sample_packets (\<lambda>e. []) sample_libc sample_build sample_hop sample_flow [80, 73] (s, mem, [])) =
       (s', mem', ks)"
proof -
  obtain tr s where c: "create_tx_socket sample_os sample_build 2 0 None = (tr, Ok s)"
    using sample_creates_sender by blast
  note made = created_tx [OF sample_system_ok c]
  let ?mem = "replicate 8388608 (0 :: u8)" and ?ps = "[replicate 14 1, replicate 20 2, replicate 8 3, [80, 73 :: u8]]"
  have "packets_sent s (replicate 44 0) 0 s ?mem" by (rule packets_sent_start [OF made(1-3)]) (simp only: length_replicate)
  then have ready: "can_send (42 + length [80, 73 :: u8]) (s, ?mem)"
    using packets_sent_ready [of s "replicate 44 0" 0 s ?mem] made(6,7) by simp
  have bld: "sample_packets (sample_flow [2, 0, 0, 0, 0, 1]) [80, 73] = (?ps, Ok ())"
    "concat ?ps = (replicate 14 1 @ replicate 20 2 @ replicate 8 3) @ [80, 73]"
    "length (replicate 14 1 @ replicate 20 2 @ replicate 8 (3 :: u8)) = 42" by simp_all
  obtain hdr s' mem' fds k where r: "write_udp_header_for sample_packets [80, 73] 0x0A000009 [2, 0, 0, 0, 0, 9] 9000 0x0A000001
       [2, 0, 0, 0, 0, 1] 9001 = Ok hdr" "send sample_build (s, ?mem) [80, 73] (Some hdr) = ((s', mem'), Ok ())"
      "kick sample_libc s' = (fds, k)"
      "sender_round sample_packets (\<lambda>e. []) sample_libc sample_build sample_hop sample_flow [80, 73] (s, ?mem, []) = ((s', mem', [] @ fds), k)"
    using packet_paths_agree [where flow = sample_flow and bld = sample_packets, OF ready sample_apps(4) sample_flow_def bld,
        of sample_build sample_libc "\<lambda>e. []" "[]"] by blast
  show ?thesis using r(1,2) by (intro exI [of _ s] exI [of _ ?mem] exI [of _ hdr] exI [of _ s'] exI [of _ mem'] exI [of _ "[] @ fds"])
    (simp only: r(4) fst_conv simp_thms)
qed


section \<open>Nothing is left behind\<close>

lemma create_tx_settled:
  assumes "os_ok os" "page_ok os"
  shows "settled os {#} (\<lambda>s. pair_values (Some s, None)) (create_tx_socket os b if_index if_queue config)"
proof -
  obtain tr r where c: "create_socket os b if_index if_queue DirTx config = (tr, r)" by fastforce
  have settled: "settled os {#} pair_values (tr, r)"
    using create_socket_settled [OF assms(1), of b if_index if_queue DirTx config] by (simp only: c)
  show ?thesis
  proof (cases r)
    case (Ok p)
    obtain txo rxo where p: "p = (txo, rxo)" by fastforce
    have n: "ring_sizes DirTx = (0, FRAME_COUNT)" by (simp add: ring_sizes_def)
    obtain s where "txo = Some s" "rxo = None"
      using create_socket_Ok [OF assms n c [unfolded Ok p]] by auto
    then show ?thesis using settled by (simp add: create_tx_socket_def c Ok p ok_or_else_def)
  qed (use settled in \<open>simp_all add: create_tx_socket_def c\<close>)
qed

lemma try_in_keeps:
  "P s \<Longrightarrow> (\<And>a. P (fst (k a))) \<Longrightarrow> P (fst (try_in s r k))"
  by (cases r) simp_all

lemma sender_with_socket_clean:
  assumes "sender_with_socket E b if_index src dst hop sok w = (w', r)"
    and "os_holds (se_os E) (sw_os w) (owned_all (se_os E) (pair_values (Some sok, None)))" "sw_mac w = []"
  shows "os_holds (se_os E) (sw_os w') {#} \<and> holds mac_acq mac_rel (sw_mac w') {#} \<and> sw_bpf w' = sw_bpf w"
proof -
  obtain mtr m where mac: "mac_by_ifindex (se_mac E) [] if_index = (mtr, m)" by fastforce
  have "os_holds (se_os E) (drop_all (os_drop (se_os E)) (pair_values (Some sok, None)) (sw_os w)) {#}"
    using drop_all_holds [of "se_os E" "sw_os w" _ "{#}"] assms(2) by simp
  moreover have "holds mac_acq mac_rel mtr {#}" using mac by (rule mac_closed)
  moreover have "sw_os w' = drop_all (os_drop (se_os E)) (pair_values (Some sok, None)) (sw_os w) \<and>
      sw_mac w' = mtr \<and> sw_bpf w' = sw_bpf w"
    using assms(1,3) by (cases m) (auto simp: sender_with_socket_def mac Let_def split: prod.splits)
  ultimately show ?thesis by simp
qed

lemma sender_attached_clean:
  assumes "sender_attached E b if_index src dst prog w = (w', r)" "os_ok (se_os E)" "page_ok (se_os E)"
    and "holds bpf_acq bpf_rel (sw_bpf w) (prog_owns prog)" "sw_os w = []" "sw_mac w = []"
  shows "os_holds (se_os E) (sw_os w') {#} \<and> holds mac_acq mac_rel (sw_mac w') {#} \<and>
    holds bpf_acq bpf_rel (sw_bpf w') {#}"
proof -
  define p where "p = (let (router, rr) = refresh (se_lib E) (se_nl E) (router_new (se_lib E) if_index)
      in try_in w rr (\<lambda>_.
         try_in w (fail_other (''No route to destination IP '' @ show_ipv4 (fst dst)) (route (se_lib E) router (fst dst))) (\<lambda>hop.
         case create_tx_socket (se_os E) b if_index 0 None of (otr, c) \<Rightarrow>
         and_then (w\<lparr>sw_os := otr\<rparr>,
             map_err (\<lambda>e. OtherError (''Failed to create XDP socket: '' @ os_show (se_os E) e)) c)
           (\<lambda>sok w. sender_with_socket E b if_index src dst hop sok w))))"
  have w': "w' = (fst p)\<lparr>sw_bpf := owned_prog_drop (se_bpf E) prog (sw_bpf (fst p))\<rparr>"
    using assms(1) by (auto simp: sender_attached_def p_def Let_def split: prod.splits)
  have nothing: "os_holds (se_os E) [] {#}" "holds mac_acq mac_rel [] {#}" by (simp_all add: os_holds_def)
  let ?clean = "\<lambda>v. os_holds (se_os E) (sw_os v) {#} \<and> holds mac_acq mac_rel (sw_mac v) {#} \<and> sw_bpf v = sw_bpf w"
  have socket: "?clean (fst (case create_tx_socket (se_os E) b if_index 0 None of (otr, c) \<Rightarrow>
      and_then (w\<lparr>sw_os := otr\<rparr>, map_err f c) (\<lambda>sok w. sender_with_socket E b if_index src dst hop sok w)))" for hop f
  proof -
    obtain otr c where c: "create_tx_socket (se_os E) b if_index 0 None = (otr, c)" by fastforce
    have settled: "settled (se_os E) {#} (\<lambda>s. pair_values (Some s, None)) (otr, c)"
      using create_tx_settled [OF assms(2,3), of b if_index 0 None] by (simp only: c)
    show ?thesis
    proof (cases c)
      case (Ok sok)
      obtain v r where "sender_with_socket E b if_index src dst hop sok (w\<lparr>sw_os := otr\<rparr>) = (v, r)" by fastforce
      then show ?thesis
        using sender_with_socket_clean [of E b if_index src dst hop sok "w\<lparr>sw_os := otr\<rparr>" v r] settled assms(6)
        by (simp add: c Ok)
    qed (use settled nothing assms(6) in \<open>simp_all add: c\<close>)
  qed
  obtain router rr where r: "refresh (se_lib E) (se_nl E) (router_new (se_lib E) if_index) = (router, rr)" by fastforce
  have start: "?clean w" using assms(5,6) by (simp add: os_holds_def)
  have "?clean (fst p)"
    unfolding p_def r Let_def prod.case by (intro try_in_keeps [where P = ?clean] start) (rule socket)
  then show ?thesis using owned_prog_drop_releases [of "sw_bpf w" prog "{#}" "se_bpf E"] assms(4) by (simp add: w')
qed

text \<open>
  C18. The sender leaves nothing behind. Whatever fails, from the capabilities to the last packet, and also when it panics or
  succeeds: when \<^verbatim>\<open>main\<close> has ended, every descriptor and mapping of the socket, the BPF object with its link, and the
  descriptor used to find the hardware address have been released.
\<close>

theorem sender_leaves_nothing:
  assumes "sender_main E b restarted = (w, r)" "os_ok (se_os E)" "page_ok (se_os E)"
  shows "os_holds (se_os E) (sw_os w) {#} \<and> holds bpf_acq bpf_rel (sw_bpf w) {#} \<and> holds mac_acq mac_rel (sw_mac w) {#}"
proof -
  let ?clean = "\<lambda>w. os_holds (se_os E) (sw_os w) {#} \<and> holds bpf_acq bpf_rel (sw_bpf w) {#} \<and> holds mac_acq mac_rel (sw_mac w) {#}"
  have none: "?clean \<lparr>sw_proc = p, sw_bpf = [], sw_os = [], sw_mac = [], sw_sent = None\<rparr>" for p
    by (simp add: os_holds_def)
  have attached: "?clean (fst (case attach_pass_program (se_pass_code E) (se_bpf E) [] if_index of (btr, q) \<Rightarrow>
      and_then (\<lparr>sw_proc = p, sw_bpf = [], sw_os = [], sw_mac = [], sw_sent = None\<rparr>\<lparr>sw_bpf := btr\<rparr>, q)
        (\<lambda>prog w. sender_attached E b if_index src dst prog w)))" for p if_index src dst
  proof -
    obtain btr q where a: "xdp_attach_program (se_bpf E) [] if_index (se_pass_code E) XDP_PASS_PROG = (btr, q)" by fastforce
    note out = attach_outcome [OF a]
    show ?thesis
    proof (cases q)
      case (Ok prog)
      let ?w = "\<lparr>sw_proc = p, sw_bpf = btr, sw_os = [], sw_mac = [], sw_sent = None\<rparr>"
      obtain v u where "sender_attached E b if_index src dst prog ?w = (v, u)" by fastforce
      then show ?thesis
        using sender_attached_clean [of E b if_index src dst prog ?w v u] assms(2,3) out
        by (simp add: attach_pass_program_def a Ok)
    qed (use out in \<open>simp_all add: attach_pass_program_def a os_holds_def\<close>)
  qed
  obtain p q where start: "suite_setup (se_caps E) (se_proc E) ([], restarted) (se_needed E) = (p, q)" by fastforce
  let ?w = "\<lparr>sw_proc = p, sw_bpf = [], sw_os = [], sw_mac = [], sw_sent = None\<rparr>"
  show ?thesis
  proof (cases q)
    case None
    then show ?thesis using assms(1) none by (auto simp: sender_main_def start Let_def)
  next
    case (Some u)
    have "?clean (fst (sender_main E b restarted))"
      unfolding sender_main_def start Some Let_def prod.case option.case fst_apsnd
      by (intro try_in_keeps [where P = ?clean] none) (simp only: split_paired_all prod.case attached)
    then show ?thesis by (simp only: assms(1) fst_conv)
  qed
qed


text \<open>A run in which the program cannot be attached.\<close>

definition sample_sender :: "(nat, ipv4 \<times> nat, ipv4 \<times> nat \<Rightarrow> ipv4_route option) sender_env" where
  "sample_sender = \<lparr>se_caps = sample_caps, se_needed = [], se_proc = sample_proc,
     se_args = \<lparr>arg_src = ''192.168.77.100:9000'', arg_dst = ''192.168.77.101:9001'', arg_text = ''PING'',
       arg_delay = None, arg_count = 3\<rparr>,
     se_duration = (\<lambda>s. None), se_nl = sample_addrs, se_lib = table_lib, se_bpf = sample_bpf, se_pass_code = [1, 2, 3],
     se_mac = sample_mac_sys, se_os = sample_os, se_umem = [], se_libc = sample_libc, se_packets = sample_packets,
     se_sleep = drain\<rparr>"

lemma sample_sockets:
  "socket_addr_from_str ''192.168.77.100:9000'' = Some (ipv4_new 192 168 77 100, 9000)"
  "socket_addr_from_str ''192.168.77.101:9001'' = Some (ipv4_new 192 168 77 101, 9001)"
  by (simp_all add: socket_addr_from_str_def read_ipv4_def read_octet_def read_port_def is_digit_def dec_value_def Let_def)

theorem sender_leaves_nothing_witness:
  "\<exists>w e. sender_main sample_sender sample_build None = (w, Some (Err e)) \<and> length (sw_bpf w) = 5 \<and>
     holds bpf_acq bpf_rel (sw_bpf w) {#}"
proof -
  obtain btr e where a: "xdp_attach_program sample_bpf [] 7 [1, 2, 3] XDP_PASS_PROG = (btr, Err e)" "length btr = 5"
    by (simp add: xdp_attach_program_def bpf_call_eq Let_def sample_bpf_def owned_prog_drop_def XDP_PASS_PROG_def)
  have "\<exists>w. sender_main sample_sender sample_build None = (w, Some (Err e)) \<and> sw_bpf w = btr"
    by (simp add: sender_main_def sample_sender_def suite_setup_def Let_def ok_or_else_def sample_sockets
        sample_addresses attach_pass_program_def a)
  then obtain w where w: "sender_main sample_sender sample_build None = (w, Some (Err e))" "sw_bpf w = btr" by blast
  have "os_ok (se_os sample_sender)" "page_ok (se_os sample_sender)"
    using sample_os_ok by (simp_all add: sample_sender_def)
  then show ?thesis using sender_leaves_nothing [OF w(1)] w a(2) by blast
qed

end
