(* ===== verification/Pingpong.thy ===== *)
theory Pingpong
  imports Apps
begin

text \<open>
  The integration test of \<^verbatim>\<open>xdp-tests/src/pingpong_test.rs\<close>: the harness makes the pair of interfaces, the pass
  program is attached on one of them, and a ponger and a pinger run as blocking tasks of \<^verbatim>\<open>tokio\<close> until the test
  has awaited both.

  What the tasks see of each other and of the network is in their environments, which are arguments; so are the order in
  which they run and the pause between their starts, which act on them only through the network.
\<close>

section \<open>Tasks and awaits\<close>

text \<open>
  The closure of a task logs the error of what it runs and drops it; only a panic reaches the one who awaits it,
  as an error with a text of \<^verbatim>\<open>tokio\<close>.
\<close>

definition join_result :: "string \<Rightarrow> (io_error, unit) res \<Rightarrow> (io_error, unit) res" where
  "join_result je r = (case r of Ok _ \<Rightarrow> Ok () | Err _ \<Rightarrow> Ok () | Panic \<Rightarrow> Err (OtherError je) | Undef \<Rightarrow> Undef)"

lemma join_result_simps [simp]:
  "join_result je (Ok ()) = Ok ()" "join_result je (Err e) = Ok ()"
  "join_result je Panic = Err (OtherError je)" "join_result je Undef = Undef"
  by (simp_all add: join_result_def)

text \<open>
  The test awaits the pinger and then, unless the await gives an error, the ponger. \<open>pi\<close> and \<open>po\<close> are what the two
  functions return, \<open>None\<close> for one that never returns; a task that is not awaited does not change the result.
\<close>

definition await_tasks ::
  "string \<Rightarrow> (io_error, unit) res option \<Rightarrow> (io_error, unit) res option \<Rightarrow> (io_error, unit) res option"
where
  "await_tasks je pi po =
     Option.bind pi (\<lambda>r. if join_result je r = Ok () then map_option (join_result je) po else Some (join_result je r))"

section \<open>The test\<close>

record ('c, 'n, 'm, 'a) pingpong_env =
  pp_caps :: "'c caps_env"
  pp_needed :: "'c list"
  pp_proc :: proc_sys
  pp_nl :: "proc_run \<Rightarrow> nl_env"
  pp_bpf :: bpf
  pp_pass_code :: "u8 list"
  pp_ping :: "('n, 'm) pinger_env"
  pp_pong :: "'a udp_env"
  pp_join_error :: string

definition pinger_task :: "('c, 'n, 'm, 'a) pingpong_env \<Rightarrow> build \<Rightarrow> host_pair \<Rightarrow> (io_error, unit) res option" where
  "pinger_task E b pair =
     map_option (\<lambda>(_, r, _). r) (run_pinger (pp_ping E) b (h_ip_str (host0 pair)) 9000 (h_ip_str (host1 pair)) 9001)"

definition ponger_task :: "('c, 'n, 'm, 'a) pingpong_env \<Rightarrow> host_pair \<Rightarrow> (io_error, unit) res option" where
  "ponger_task E pair = map_option snd (run_ponger (pp_pong E) (h_ip_str (host1 pair) @ '':9001''))"

text \<open>
  The closure given to the runner; the attached program is dropped when it returns. \<open>None\<close>: it never returns.
\<close>

definition pingpong_test ::
  "('c, 'n, 'm, 'a) pingpong_env \<Rightarrow> build \<Rightarrow> host_pair \<Rightarrow> (bpf_run \<times> (io_error, unit) res) option"
where
  "pingpong_test E b pair =
     (case attach_pass_program (pp_pass_code E) (pp_bpf E) [] (h_if_index (host1 pair)) of
        (tr, Ok prog) \<Rightarrow>
          map_option (\<lambda>r. (owned_prog_drop (pp_bpf E) prog tr, r))
            (await_tasks (pp_join_error E) (pinger_task E b pair) (ponger_task E pair))
      | (tr, Err e) \<Rightarrow> Some (tr, Err e)
      | (tr, Panic) \<Rightarrow> Some (tr, Panic)
      | (tr, Undef) \<Rightarrow> Some (tr, Undef))"

datatype main_outcome = Replaced | NeverReturns | Exits "(io_error, unit) res"

definition pingpong_main ::
  "('c, 'n, 'm, 'a) pingpong_env \<Rightarrow> build \<Rightarrow> string option \<Rightarrow> (proc_run \<times> string option) \<times> main_outcome"
where
  "pingpong_main E b restarted =
     (case suite_setup (pp_caps E) (pp_proc E) ([], restarted) (pp_needed E) of
        (w, None) \<Rightarrow> (w, Replaced)
      | (w, Some (Ok _)) \<Rightarrow>
          (case run_test_with_pair (pp_proc E) (pp_nl E)
                  (\<lambda>pair tr. map_option (\<lambda>(_, r). (tr, r)) (pingpong_test E b pair)) (fst w) of
             None \<Rightarrow> (w, NeverReturns)
           | Some (tr, r) \<Rightarrow> ((tr, snd w), Exits r))
      | (w, Some r) \<Rightarrow> (w, Exits r))"

end
