(* ===== verification/Pingpong_Properties.thy ===== *)
theory Pingpong_Properties
  imports Pingpong Apps_Properties Udp_Properties
begin

text \<open>
  What the integration test shows: it does not fail when the ping is not answered.
\<close>

section \<open>What the test shows\<close>

lemma pinger_prepare_Ok:
  assumes "pinger_prepare E b src_ip sp dst_ip dp = (tr, Ok (s, hdr))"
  shows "\<exists>i tr'. create_tx_socket (pe_os E) b i 0 None = (tr', Ok s)" "length hdr = 42"
proof -
  obtain i sa sm da dm where c: "snd (create_tx_socket (pe_os E) b i 0 None) = Ok s"
    and h: "pinger_header E i sa sm sp da dm dp dst_ip = Ok hdr"
    using assms
    by (auto simp: pinger_prepare_def try_in_Ok_iff and_then_Ok_iff scoped_Ok_iff case_prod_beta)
  show "\<exists>i tr'. create_tx_socket (pe_os E) b i 0 None = (tr', Ok s)"
    using c by (metis prod.collapse)
  show "length hdr = 42"
    using h by (auto simp: pinger_header_def res_then_Ok_iff Let_def header_length split: prod.splits)
qed

text \<open>A prepared pinger on a system where every send succeeds.\<close>

lemma prepared_pinger_ends:
  assumes "pinger_prepare E b src_ip sp dst_ip dp = (tr, Ok (s, hdr))"
    and "system_ok (pe_os E)" "safety_checks b" "8388608 \<le> length (pe_umem E)"
    and "\<forall>i. always_ready (pe_libc E i)" "sleeps_quietly (pe_sleep E)"
  shows "\<exists>tr' w. run_pinger E b src_ip sp dst_ip dp =
    Some (tr', Err (OtherError ''Failed to write header: Invalid index for ring access''), Some w)"
proof -
  obtain i tr' where c: "create_tx_socket (pe_os E) b i 0 None = (tr', Ok s)" and h: "length hdr = 42"
    using pinger_prepare_Ok [OF assms(1)] by blast
  note made = created_tx [OF assms(2) c]
  have n: "length hdr + length (text_bytes ''PING'') < 2048" by (simp add: h text_bytes_def)
  have "packets_sent s (hdr @ text_bytes ''PING'') 0 s (pe_umem E)"
    by (rule packets_sent_start [OF made(1-3) assms(4)])
  from pinger_loop_runs_out [OF this made(1,7) assms(3) n assms(5,6), of "os_show (pe_os E)" 0]
  show ?thesis using assms(1) by (auto simp: run_pinger_def)
qed

text \<open>Calls of the UDP socket that do not panic, and when the ponger returns.\<close>

definition udp_ok :: "'a udp_env \<Rightarrow> bool" where
  "udp_ok env \<longleftrightarrow> (\<forall>a. returns (ud_bind env a)) \<and> (\<forall>n. returns (ud_recv_from env n)) \<and>
     (\<forall>bs peer. returns (ud_send_to env bs peer))"

lemma returns_cases: "returns r \<Longrightarrow> (\<exists>a. r = Ok a) \<or> (\<exists>e. r = Err e)"
  by (cases r) simp_all

lemma ponger_result:
  assumes "udp_ok env"
  shows "case map_option snd (run_ponger env addr) of
      None \<Rightarrow> ud_bind env addr = Ok () \<and> (\<forall>n. waits (ud_recv_from env n))
    | Some r \<Rightarrow> returns r \<and> ((\<exists>e. ud_bind env addr = Err e) \<or> (\<exists>n. \<not> waits (ud_recv_from env n)))"
proof (cases "ponger_loop env 0")
  case None
  then show ?thesis
    using ponger.returns_iff [of env] assms
    by (auto simp: run_ponger_def udp_ok_def dest: spec [of _ addr] split: res.split)
next
  case (Some v)
  then obtain n where n: "\<not> waits (ud_recv_from env n)" "\<forall>m < n. waits (ud_recv_from env m)"
    using ponger.returns_iff [of env] exists_least_iff [of "\<lambda>n. \<not> waits (ud_recv_from env n)"] by auto
  then have v: "v = ponger_reply env (ud_recv_from env n)" using Some ponger.finds_first [of env n] by simp
  have sends: "returns (snd (try_in [] (ud_send_to env bs p) (\<lambda>_. (l, Ok ()))))" for bs p and l :: "(u8 list \<times> 'a) list"
  proof -
    have "returns (ud_send_to env bs p)" using assms by (simp add: udp_ok_def)
    then show ?thesis by (cases "ud_send_to env bs p") simp_all
  qed
  have "returns (ud_recv_from env n)" "returns (ud_bind env addr)"
    using assms by (simp_all add: udp_ok_def)
  then have "returns (snd v)" using sends by (auto simp: v ponger_reply_def Let_def split: res.splits)
  then show ?thesis
    using n(1) Some returns_cases [OF \<open>returns (ud_bind env addr)\<close>] by (auto simp: run_ponger_def)
qed

text \<open>
  C33. The test cannot fail once its parts are in place. When the program is attached, the pinger is prepared and its
  sends succeed, the pinger always ends with an error, after 4096 packets; the test then passes as soon as the
  ponger has ended, with an answer, after a wrong datagram, after a network error, and also when it could not
  even bind its address; when nothing arrives the test never returns. A test that returns has released the program.
\<close>

theorem pingpong_never_fails:
  assumes "attach_pass_program (pp_pass_code E) (pp_bpf E) [] (h_if_index (host1 pair)) = (btr, Ok prog)"
    and "pinger_prepare (pp_ping E) b (h_ip_str (host0 pair)) 9000 (h_ip_str (host1 pair)) 9001 = (otr, Ok (s, hdr))"
    and "system_ok (pe_os (pp_ping E))" "safety_checks b" "8388608 \<le> length (pe_umem (pp_ping E))"
    and "\<forall>i. always_ready (pe_libc (pp_ping E) i)" "sleeps_quietly (pe_sleep (pp_ping E))" "udp_ok (pp_pong E)"
  shows "pinger_task E b pair = Some (Err (OtherError ''Failed to write header: Invalid index for ring access'')) \<and>
    (if (\<exists>e. ud_bind (pp_pong E) (h_ip_str (host1 pair) @ '':9001'') = Err e) \<or> (\<exists>n. \<not> waits (ud_recv_from (pp_pong E) n))
     then \<exists>tr. pingpong_test E b pair = Some (tr, Ok ()) \<and> holds bpf_acq bpf_rel tr {#}
     else pingpong_test E b pair = None)"
proof -
  have pinger: "pinger_task E b pair = Some (Err (OtherError ''Failed to write header: Invalid index for ring access''))"
    using prepared_pinger_ends [OF assms(2-7)] by (auto simp: pinger_task_def)
  have "holds bpf_acq bpf_rel btr (prog_owns prog + {#})"
    using attach_outcome assms(1) unfolding attach_pass_program_def by fastforce
  then have "holds bpf_acq bpf_rel (owned_prog_drop (pp_bpf E) prog btr) {#}" by (rule owned_prog_drop_releases)
  moreover have "join_result je r = Ok ()" if "returns r" for je and r :: "(io_error, unit) res"
    using that by (cases r) simp_all
  ultimately show ?thesis
    using ponger_result [OF assms(8), of "h_ip_str (host1 pair) @ '':9001''"] pinger
    by (auto simp: pingpong_test_def assms(1) await_tasks_def ponger_task_def split: option.splits)
qed


text \<open>A test whose pinger can send everything, and whose ponger cannot bind its address.\<close>

definition sample_pinger :: "(ipv4 \<times> nat, ipv4 \<times> nat \<Rightarrow> ipv4_route option) pinger_env" where
  "sample_pinger = \<lparr>pe_nl = sample_addrs, pe_lib = table_lib, pe_os = sample_os, pe_umem = replicate 8388608 0,
     pe_libc = (\<lambda>i. sample_libc), pe_packets = sample_packets, pe_mac_parse = (\<lambda>s. Ok [2, 0, 0, 0, 0, 9]), pe_sleep = drain\<rparr>"

definition sample_pair :: host_pair where
  "sample_pair = host_pair_new
     \<lparr>h_if_dev = DEV_PREFIX @ ''0'', h_ip_str = IP_PREFIX @ ''100'', h_ip_addr = ipv4_new 192 168 77 100, h_if_index = 7\<rparr>
     \<lparr>h_if_dev = DEV_PREFIX @ ''1'', h_ip_str = IP_PREFIX @ ''101'', h_ip_addr = ipv4_new 192 168 77 101, h_if_index = 8\<rparr>"

definition sample_pingpong :: "(nat, ipv4 \<times> nat, ipv4 \<times> nat \<Rightarrow> ipv4_route option, nat) pingpong_env" where
  "sample_pingpong = \<lparr>pp_caps = sample_caps, pp_needed = [1], pp_proc = sample_proc, pp_nl = (\<lambda>tr. sample_addrs),
     pp_bpf = (\<lambda>tr c. \<lparr>b_ret = 0, b_ptr = 4096, b_flags = 0, b_errno = EBUSY\<rparr>), pp_pass_code = [1, 2, 3],
     pp_ping = sample_pinger, pp_pong = (sample_udp (\<lambda>n. Err (OsError EAGAIN)))\<lparr>ud_bind := (\<lambda>a. Err (OsError EBUSY))\<rparr>,
     pp_join_error = ''panic''\<rparr>"

lemma sample_queries:
  "get_ipv4_routes sample_addrs (Some i) = Ok []" "get_neighbors sample_addrs (Some i) = Ok []"
  by (simp_all add: get_ipv4_routes_def get_neighbors_def netlink_def sample_addrs_def Let_def netlink_loop.simps
      addr_msg_def route_msg_def neighbor_msg_def)

lemma sample_pinger_header: "\<exists>h. pinger_header sample_pinger 7 sa sm sp da dm dp dst_ip = Ok h"
  by (simp add: pinger_header_def sample_pinger_def refresh_def router_new_def sample_queries Let_def
      route_def table_lib_def longest_match_def ok_or_else_def unwrap_some_def write_udp_header_for_def)

lemma sample_prepared:
  "\<exists>tr s h. pinger_prepare sample_pinger sample_build (IP_PREFIX @ ''100'') 9000 (IP_PREFIX @ ''101'') 9001 = (tr, Ok (s, h))"
proof -
  obtain tr s where "create_tx_socket sample_os sample_build 7 0 None = (tr, Ok s)"
    using sample_creates_sender by blast
  moreover obtain h where
    "pinger_header sample_pinger 7 (ipv4_new 192 168 77 100) [2, 0, 0, 0, 0, 9] 9000
       (ipv4_new 192 168 77 101) [2, 0, 0, 0, 0, 9] 9001 (IP_PREFIX @ ''101'') = Ok h"
    using sample_pinger_header by blast
  moreover have "pe_nl sample_pinger = sample_addrs" "pe_os sample_pinger = sample_os"
    "parse_mac sample_pinger m = Ok [2, 0, 0, 0, 0, 9]" for m
    by (simp_all add: sample_pinger_def parse_mac_def)
  ultimately show ?thesis
    by (simp add: pinger_prepare_def parse_ip_def host_addresses sample_addresses ok_or_else_def)
qed

lemma sample_attached:
  "\<exists>tr prog. attach_pass_program (pp_pass_code sample_pingpong) (pp_bpf sample_pingpong) [] i = (tr, Ok prog)"
  by (simp add: attach_pass_program_def sample_pingpong_def xdp_attach_program_def bpf_call_eq Let_def XDP_PASS_PROG_def)

theorem pingpong_never_fails_witness:
  "\<exists>tr. pingpong_test sample_pingpong sample_build sample_pair = Some (tr, Ok ()) \<and> holds bpf_acq bpf_rel tr {#}"
proof -
  let ?E = sample_pingpong
  obtain btr prog where a: "attach_pass_program (pp_pass_code ?E) (pp_bpf ?E) [] (h_if_index (host1 sample_pair)) = (btr, Ok prog)"
    using sample_attached by blast
  have ping: "pp_ping ?E = sample_pinger" by (simp add: sample_pingpong_def)
  obtain otr s h where p: "pinger_prepare (pp_ping ?E) sample_build (h_ip_str (host0 sample_pair)) 9000
      (h_ip_str (host1 sample_pair)) 9001 = (otr, Ok (s, h))"
    using sample_prepared by (auto simp: ping sample_pair_def host_pair_new_def)
  have env: "system_ok (pe_os (pp_ping ?E))" "\<forall>i. always_ready (pe_libc (pp_ping ?E) i)" "sleeps_quietly (pe_sleep (pp_ping ?E))"
    using sample_system_ok by (simp_all add: ping sample_pinger_def)
  have "pe_umem (pp_ping ?E) = replicate 8388608 0" by (simp only: ping sample_pinger_def pinger_env.simps)
  then have mem: "8388608 \<le> length (pe_umem (pp_ping ?E))" by (simp only: length_replicate)
  have udp: "udp_ok (pp_pong ?E)" by (simp add: udp_ok_def sample_pingpong_def sample_udp_def)
  have "\<exists>e. ud_bind (pp_pong ?E) a = Err e" for a by (simp add: sample_pingpong_def)
  then show ?thesis
    using pingpong_never_fails [OF a p env(1) sample_build_simps(1) mem env(2,3) udp] by auto
qed

end
