(* ===== verification/Packet_Tests.thy ===== *)
theory Packet_Tests
  imports Harness Packet
begin

text \<open>
  The unit tests of \<^verbatim>\<open>xdp-util/src/packet.rs\<close>: the writer of a header, and a header made for a packet that the
  parser of \<^verbatim>\<open>etherparse\<close>, an argument, has to recognise. A failed assertion is a panic.
\<close>

section \<open>The tests\<close>

definition assert_res :: "bool \<Rightarrow> (io_error, unit) res" where
  "assert_res p = (if p then Ok () else Panic)"

definition test_hdrwrite :: "(io_error, unit) res" where
  "test_hdrwrite =
     (let hdr = replicate 42 0;
          data = text_bytes ''Test data'';
          (w, written) = hdr_write_write \<lparr>hw_buf = hdr, hw_pos = 0\<rparr> data
      in res_then (assert_res (written = length data)) (\<lambda>_.
         res_then (assert_res (take written (hw_buf w) = data)) (\<lambda>_.
         let data = text_bytes ''aaaaaaaaaaaaaaaaaaaaaaaaaaaaaaaaaaaaaaaaaaTest data'';
             (w, written) = hdr_write_write \<lparr>hw_buf = hw_buf w, hw_pos = 0\<rparr> data
         in res_then (assert_res (written = length data)) (\<lambda>_.
            assert_res (hw_buf w = take 42 data)))))"

datatype transport = TransportUdp | OtherTransport

definition test_write_udp_header ::
  "(udp_flow \<Rightarrow> u8 list \<Rightarrow> u8 list list \<times> (string, unit) res) \<Rightarrow>
    (u8 list \<Rightarrow> (string, transport option) res) \<Rightarrow> (io_error, unit) res"
where
  "test_write_udp_header build from_ethernet =
     (let data = text_bytes ''Hello, XDP!''
      in res_then (unwrap (write_udp_header_for build data (ipv4_new 192 168 1 1) [0x00, 0x11, 0x22, 0x33, 0x44, 0x55] 12345
            (ipv4_new 192 168 1 2) [0x66, 0x77, 0x88, 0x99, 0xaa, 0xbb] 54321)) (\<lambda>hdr.
         res_then (assert_res (length hdr = 42)) (\<lambda>_.
         case from_ethernet (hdr @ data) of
           Ok (Some TransportUdp) \<Rightarrow> Ok ()
         | Undef \<Rightarrow> Undef
         | _ \<Rightarrow> Panic)))"

section \<open>They pass\<close>

lemma test_hdrwrite_passes: "test_hdrwrite = Ok ()"
  by (simp add: test_hdrwrite_def hdr_write_write_def text_bytes_def assert_res_def Let_def)

text \<open>
  With a builder that writes headers of 42 bytes and then the payload, the second one passes if and only if the
  parser finds UDP in what the builder wrote.
\<close>

lemma test_write_udp_header_passes:
  assumes "build \<lparr>src_mac = [0x00, 0x11, 0x22, 0x33, 0x44, 0x55], dst_mac = [0x66, 0x77, 0x88, 0x99, 0xaa, 0xbb],
      src_addr = ipv4_new 192 168 1 1, dst_addr = ipv4_new 192 168 1 2, ttl = 64, src_port = 12345, dst_port = 54321\<rparr>
      (text_bytes ''Hello, XDP!'') = (pieces, Ok ())"
    and "concat pieces = h @ text_bytes ''Hello, XDP!''" "length h = 42"
  shows "test_write_udp_header build from_ethernet = Ok () \<longleftrightarrow> from_ethernet (concat pieces) = Ok (Some TransportUdp)"
proof -
  have "write_udp_header_for build (text_bytes ''Hello, XDP!'') (ipv4_new 192 168 1 1) [0x00, 0x11, 0x22, 0x33, 0x44, 0x55] 12345
      (ipv4_new 192 168 1 2) [0x66, 0x77, 0x88, 0x99, 0xaa, 0xbb] 54321 = Ok h"
    using header_is_prefix [where build = build, OF assms(1)] assms(2,3) by simp
  then show ?thesis
    by (simp add: test_write_udp_header_def assert_res_def assms(2,3) split: res.split option.split transport.split)
qed

end
