(* ===== verification/Frame_Queues.thy ===== *)
theory Frame_Queues
  imports "HOL-Library.Multiset"
begin

text \<open>
  What a socket of either direction promises, without rings, indices and descriptors: frames go round between
  two queues and the kernel. A refinement of this machine is the locale \<open>frame_cycle\<close>; its theorems about runs are
  proved here, once.
\<close>

section \<open>The abstract machine\<close>

text \<open>
  \<open>fq_mine\<close> are the frames of the application's side, oldest first: those it can use and those the kernel has
  returned. \<open>fq_given\<close> are the frames it has handed over and the kernel has not taken, \<open>fq_held\<close> those
  the kernel has.
\<close>

record 'f frame_queues =
  fq_mine :: "'f list"
  fq_given :: "'f list"
  fq_held :: "'f multiset"

text \<open>The application hands over its oldest frames, in order; none at all is a step that only changes other data.\<close>

definition hand_over :: "nat \<Rightarrow> 'f frame_queues \<Rightarrow> 'f frame_queues" where
  "hand_over m q = q\<lparr>fq_mine := drop m (fq_mine q), fq_given := fq_given q @ take m (fq_mine q)\<rparr>"

text \<open>The kernel takes the \<open>k\<close> oldest frames it was given and returns \<open>cs\<close>.\<close>

inductive fq_step :: "'f frame_queues \<Rightarrow> 'f frame_queues \<Rightarrow> bool" where
  fq_hand: "m \<le> length (fq_mine q) \<Longrightarrow> fq_step q (hand_over m q)"
| fq_kernel: "k \<le> length (fq_given q) \<Longrightarrow> h + mset cs = fq_held q + mset (take k (fq_given q)) \<Longrightarrow>
    fq_step q \<lparr>fq_mine = fq_mine q @ cs, fq_given = drop k (fq_given q), fq_held = h\<rparr>"

inductive_cases fq_stepE: "fq_step q q'"

definition fq_frames :: "'f frame_queues \<Rightarrow> 'f multiset" where
  "fq_frames q = mset (fq_mine q) + mset (fq_given q) + fq_held q"

lemma mset_take_drop: "mset (take k xs) + mset (drop k xs) = mset xs"
  by (simp flip: mset_append)

lemma fq_step_frames:
  assumes "fq_step q q'"
  shows "fq_frames q' = fq_frames q"
  using assms
proof (rule fq_stepE)
  fix m
  assume "q' = hand_over m q"
  then show ?thesis using mset_take_drop [of m "fq_mine q"] by (simp add: fq_frames_def hand_over_def ac_simps)
next
  fix k h cs
  assume q': "q' = \<lparr>fq_mine = fq_mine q @ cs, fq_given = drop k (fq_given q), fq_held = h\<rparr>"
    and h: "h + mset cs = fq_held q + mset (take k (fq_given q))"
  have "fq_frames q' = mset (fq_mine q) + mset (drop k (fq_given q)) + (h + mset cs)"
    by (simp add: q' fq_frames_def ac_simps)
  also have "\<dots> = mset (fq_mine q) + (mset (take k (fq_given q)) + mset (drop k (fq_given q))) + fq_held q"
    by (simp add: h ac_simps)
  finally show ?thesis by (simp only: mset_take_drop fq_frames_def)
qed

lemma fq_run_frames: "fq_step\<^sup>*\<^sup>* q q' \<Longrightarrow> fq_frames q' = fq_frames q"
  by (induction rule: rtranclp_induct) (simp_all add: fq_step_frames)

lemma hand_over_0 [simp]: "hand_over 0 q = q"
  by (simp add: hand_over_def)

lemma hand_over_add:
  assumes "m \<le> length (fq_mine q)"
  shows "hand_over n (hand_over m q) = hand_over (m + n) q"
  using assms by (simp add: hand_over_def take_add add.commute)

section \<open>Refinements\<close>

text \<open>
  The detailed state has an invariant and an abstraction; its steps are those of the application and of the
  kernel.
\<close>

locale frame_cycle =
  fixes inv :: "'w \<Rightarrow> bool"
    and step :: "'w \<Rightarrow> 'w \<Rightarrow> bool"
    and queues :: "'w \<Rightarrow> 'f frame_queues"
  assumes step_inv: "inv w \<Longrightarrow> step w w' \<Longrightarrow> inv w'"
    and step_simulated: "inv w \<Longrightarrow> step w w' \<Longrightarrow> fq_step (queues w) (queues w')"
begin

lemma run_simulated: "step\<^sup>*\<^sup>* w w' \<Longrightarrow> inv w \<Longrightarrow> inv w' \<and> fq_step\<^sup>*\<^sup>* (queues w) (queues w')"
  by (induction rule: rtranclp_induct) (auto dest: step_inv step_simulated)

lemma run_frames: "step\<^sup>*\<^sup>* w w' \<Longrightarrow> inv w \<Longrightarrow> fq_frames (queues w') = fq_frames (queues w)"
  using run_simulated fq_run_frames by blast

end

end
