(* ===== verification/Refinement.thy ===== *)
theory Refinement
  imports Frame_Queues Create_Properties Rx_Protocol Tx_Properties
begin

text \<open>
  Transmit and receive sockets with the kernel refine the machine of \<open>Frame_Queues\<close>. For a transmit socket the
  frames of the application are the available ones followed by the completed ones, so that a seek that
  reclaims a frame changes nothing; for a receive socket they are the received ones.
\<close>

section \<open>Transmit\<close>

definition tx_queues :: "tx_world \<Rightarrow> u64 frame_queues" where
  "tx_queues w = \<lparr>fq_mine = app_frames (w_sock w) @ completed_frames (w_sock w),
     fq_given = queued_frames (w_sock w), fq_held = w_held w\<rparr>"

text \<open>A change of the socket that hands over \<open>m\<close> available frames.\<close>

definition hands :: "nat \<Rightarrow> tx_world \<Rightarrow> socket \<Rightarrow> bool" where
  "hands m w s \<longleftrightarrow> m \<le> unat (available (w_sock w)) \<and> tx_queues (w\<lparr>w_sock := s\<rparr>) = hand_over m (tx_queues w)"

lemma tx_queues_mem [simp]: "tx_queues (w\<lparr>w_mem := m\<rparr>) = tx_queues w"
  by (simp add: tx_queues_def)

lemma hands_step: "hands m w s \<Longrightarrow> fq_step (tx_queues w) (tx_queues (w\<lparr>w_sock := s\<rparr>))"
  using fq_hand [of m "tx_queues w"] by (simp add: hands_def) (simp add: tx_queues_def)

lemma hands_none: "hands 0 w s \<longleftrightarrow> tx_queues (w\<lparr>w_sock := s\<rparr>) = tx_queues w"
  by (simp add: hands_def)

lemma peek_hands: "tx_inv pool w \<Longrightarrow> hands 0 w (fst (peek_tx b (w_sock w) i len))"
  using same_addrs_frames [OF peek_tx_same_addrs]
  by (simp add: hands_none tx_queues_def tx_inv_def tx_shape_def)

lemma seek_hands:
  assumes "tx_inv pool w" "single_frame (OpSeek n) (w_sock w)"
  shows "hands 0 w (fst (seek_tx b (w_sock w) n))"
  using assms
proof (rule single_seek_cases [where b = b])
  assume r: "available (w_sock w) = 0" "0 < pending (w_sock w)" "fst (seek_tx b (w_sock w) n) = reclaimed (Suc 0) (w_sock w)"
  then show ?thesis
    using seek_one_moves [OF assms(1) r(1,2)]
    by (simp add: hands_none tx_queues_def frames_of_descs(2)) (simp add: app_frames_def)
qed (simp add: hands_none)

lemma commit_hands:
  assumes inv: "tx_inv pool w" and b: "safety_checks b"
  shows "\<exists>m. hands m w (fst (commit_tx b (w_sock w) n))"
proof (cases "available (w_sock w) < ucast n")
  case True
  then have "hands 0 w (fst (commit_tx b (w_sock w) n))"
    using b tx.commit_refused [of b "w_sock w" n] by (simp add: hands_none)
  then show ?thesis ..
next
  case False
  let ?m = "unat (ucast n :: u32)"
  have le: "?m \<le> unat (available (w_sock w))" using False by (simp add: not_less word_le_nat_alt)
  then have "hands ?m w (fst (commit_tx b (w_sock w) n))"
    using commit_moves [OF tx_inv_wf [OF inv], of n b] tx_inv_count [OF inv] False
    by (simp add: hands_def tx_queues_def hand_over_def not_less)
  then show ?thesis ..
qed

lemma hands_trans:
  assumes "hands 0 w s" "hands m (w\<lparr>w_sock := s\<rparr>) s'" "available s = available (w_sock w)"
  shows "hands m w s'"
  using assms by (simp add: hands_def)

lemma peek_tx_available: "ring_ok (x_ring s) \<Longrightarrow> available (fst (peek_tx b s i len)) = available s"
  using peek_tx_same_addrs [of s b i len] by (auto simp: same_addrs_def)

lemma send_hands:
  assumes "tx_inv pool w" "safety_checks b"
  shows "\<exists>m. hands m w (fst (fst (send b (w_sock w, mem) data header)))"
proof -
  let ?p = "\<lambda>l. fst (peek_tx b (w_sock w) 0 l)"
  have "ring_ok (x_ring (w_sock w))" using assms(1) by (simp add: tx_inv_def tx_shape_def)
  then have "\<exists>m. hands m w (fst (commit_tx b (?p l) 1))" for l
    using commit_hands [OF peek_inv [OF assms(1), of b 0 l] assms(2), of 1]
      hands_trans [OF peek_hands [OF assms(1)]] peek_tx_available by fastforce
  moreover have "hands 0 w (w_sock w)" by (simp add: hands_none)
  moreover obtain l where "fst (fst (send b (w_sock w, mem) data header)) \<in>
      {w_sock w, ?p l, fst (commit_tx b (?p l) 1)}"
    using send_socket_cases by blast
  ultimately show ?thesis using peek_hands [OF assms(1), of b 0 l] by (metis empty_iff insert_iff)
qed

lemma tx_apply_simulated:
  assumes "tx_inv pool w" "safety_checks b" "single_frame op (w_sock w)"
  shows "fq_step (tx_queues w) (tx_queues (tx_apply b op w))"
proof (cases op)
  case (OpSeek n)
  then show ?thesis using hands_step [OF seek_hands [OF assms(1)]] assms(3) by (simp add: socket_seek_n_def)
next
  case (OpPeekAt i len)
  then show ?thesis using hands_step [OF peek_hands [OF assms(1)]] by (simp add: peek_at_tx_def)
next
  case (OpSeekAndPeek len)
  obtain s1 r where s1: "seek_tx b (w_sock w) 1 = (s1, r)" by fastforce
  have seek: "hands 0 w s1" using seek_hands [OF assms(1) single_frame_one, of b] by (simp add: s1)
  have "tx_inv pool (w\<lparr>w_sock := s1\<rparr>)" using seek_inv [OF assms(1) single_frame_one, of b] by (simp add: s1)
  then have "hands 0 w (fst (peek_tx b s1 0 len))"
    using peek_hands [of pool "w\<lparr>w_sock := s1\<rparr>" b 0 len] seek by (simp add: hands_none)
  then show ?thesis
    using seek by (cases r) (simp_all add: OpSeekAndPeek seek_and_peek_tx_def s1 hands_step)
next
  case (OpCommit n)
  then show ?thesis using commit_hands [OF assms(1,2), of n] hands_step by (auto simp: socket_commit_n_def)
next
  case (OpSend data header)
  obtain s' m' where f: "fst (send b (w_sock w, w_mem w) data header) = (s', m')" by fastforce
  then have "fq_step (tx_queues w) (tx_queues (w\<lparr>w_sock := s'\<rparr>))"
    using send_hands [OF assms(1,2), of "w_mem w" data header] hands_step by fastforce
  then show ?thesis by (simp add: OpSend f tx_queues_def)
next
  case (OpWrite i len start bs)
  then obtain m where "tx_apply b op w = w\<lparr>w_sock := fst (peek_tx b (w_sock w) i len), w_mem := m\<rparr>"
    using tx_apply_write by blast
  then show ?thesis using hands_step [OF peek_hands [OF assms(1), of b i len]] by (simp add: tx_queues_def)
qed

lemma tx_rely_simulated:
  assumes "tx_rely w w'"
  shows "fq_step (tx_queues w) (tx_queues w')"
proof -
  obtain k cs where k: "k \<le> queued_count (w_sock w)" "queued_frames (w_sock w') = drop k (queued_frames (w_sock w))"
    "completed_frames (w_sock w') = completed_frames (w_sock w) @ cs"
    "w_held w' + mset cs = w_held w + mset (take k (queued_frames (w_sock w)))"
    using assms by (auto simp: tx_rely_def Let_def)
  have "app_frames (w_sock w') = app_frames (w_sock w)"
    using assms by (simp add: tx_rely_def app_frames_def Let_def)
  then show ?thesis
    using fq_kernel [of k "tx_queues w" "w_held w'" cs] k by (simp add: tx_queues_def)
qed

interpretation tx_cycle: frame_cycle "tx_inv pool" "\<lambda>w w'. safety_checks b \<and> tx_step single_frame tx_rely b w w'" tx_queues for pool b
proof unfold_locales
  fix w w'
  assume inv: "tx_inv pool w" and st: "safety_checks b \<and> tx_step single_frame tx_rely b w w'"
  from st have "tx_step single_frame tx_rely b w w'" ..
  then show "tx_inv pool w'" "fq_step (tx_queues w) (tx_queues w')"
    using inv st tx_rely_inv tx_apply_inv tx_rely_simulated tx_apply_simulated by (auto elim!: tx_stepE)
qed


lemma tx_reach_steps:
  assumes "tx_reach single_frame K b w0 w" "safety_checks b" "\<And>w w'. K w w' \<Longrightarrow> tx_rely w w'"
  shows "(\<lambda>w w'. safety_checks b \<and> tx_step single_frame tx_rely b w w')\<^sup>*\<^sup>* w0 w"
  using assms(1)
proof (induction rule: tx_reach.induct)
  case (reach_step w w')
  have "tx_step single_frame tx_rely b w w'"
    using reach_step.hyps(2)
    by (rule tx_stepE) (auto intro: tx_step.intros assms(3))
  then show ?case using reach_step.IH assms(2) by (simp add: rtranclp.rtrancl_into_rtrancl)
qed simp

lemma made_tx_queues:
  assumes "made_tx os n io s" "zero_indices os" "ring_size (unat n)"
  shows "tx_queues \<lparr>w_sock = s, w_mem = mem, w_held = {#}\<rparr> =
    \<lparr>fq_mine = frame_pool 0 (unat n), fq_given = [], fq_held = {#}\<rparr>"
proof -
  have inv: "tx_inv (frame_pool 0 (unat n)) \<lparr>w_sock = s, w_mem = mem, w_held = {#}\<rparr>"
    using made_tx_inv [OF assms] by blast
  have app: "app_frames s = frame_pool 0 (unat n)" by (rule made_tx_frames [OF assms])
  have "mset (queued_frames s) + mset (completed_frames s) = {#}"
    using inv by (simp add: tx_inv_def all_frames_def app)
  then show ?thesis by (simp add: tx_queues_def app)
qed

text \<open>
  C24. While frames are reclaimed one at a time, a transmit socket refines the two queues of \<open>Frame_Queues\<close>: every run of a made
  socket, with any interleaving of calls and kernel moves, in which no \<^verbatim>\<open>seek_n\<close> reclaims several frames, or one while others
  are available (\<open>single_frame\<close>), is a run of the abstract machine that starts with all frames on the application's side. So the
  frames of the application's side are handed to the kernel oldest first, and only the kernel returns any. A \<^verbatim>\<open>seek_n\<close>
  that is not of this kind can put one frame twice on the application's side (\<open>Seek_Batch\<close>), which no run of the machine does.
\<close>

theorem tx_refines_queues:
  assumes "kernel_ok os K" "safety_checks b" "tx_run single_frame K os b d config w"
  shows "fq_step\<^sup>*\<^sup>* \<lparr>fq_mine = frame_pool 0 (tx_frame_count d), fq_given = [], fq_held = {#}\<rparr> (tx_queues w)"
proof -
  obtain if_index if_queue tr s rx mem where
      made: "create_socket os b if_index if_queue d config = (tr, Ok (Some s, rx))"
    and reach: "tx_reach single_frame K b \<lparr>w_sock = s, w_mem = mem, w_held = {#}\<rparr> w"
    using assms(3) unfolding tx_run_def by blast
  obtain rx_n tx_n where n: "ring_sizes d = (rx_n, tx_n)" by fastforce
  have os: "os_ok os" "page_ok os" "zero_indices os" and K: "\<And>w w'. K w w' \<Longrightarrow> tx_rely w w'"
    using assms(1) by (simp_all add: kernel_ok_def)
  obtain io where io: "d \<noteq> DirRx" "made_tx os tx_n io s"
    using create_socket_Ok [OF os(1,2) n made] by (auto split: if_splits)
  have sz: "ring_size (unat tx_n)" using ring_sizes_ok(1) [OF n io(1)] by simp
  have "tx_inv (frame_pool 0 (unat tx_n)) \<lparr>w_sock = s, w_mem = mem, w_held = {#}\<rparr>"
    using made_tx_inv [OF io(2) os(3) sz] by blast
  then have "fq_step\<^sup>*\<^sup>* (tx_queues \<lparr>w_sock = s, w_mem = mem, w_held = {#}\<rparr>) (tx_queues w)"
    using tx_cycle.run_simulated [OF tx_reach_steps [OF reach assms(2) K]] by blast
  then show ?thesis by (simp add: made_tx_queues [OF io(2) os(3) sz] tx_frame_count_def n)
qed

theorem tx_refines_queues_witness:
  "\<exists>w. tx_run single_frame loopback_kernel sample_os sample_build DirTx None w \<and> pending (w_sock w) = 1 \<and>
     fq_step\<^sup>*\<^sup>* \<lparr>fq_mine = frame_pool 0 4096, fq_given = [], fq_held = {#}\<rparr> (tx_queues w)"
proof -
  obtain w where w: "tx_run single_frame loopback_kernel sample_os sample_build DirTx None w" "pending (w_sock w) = 1"
    using sample_run by blast
  have "tx_frame_count DirTx = 4096" by (simp add: tx_frame_count_def ring_sizes_def FRAME_COUNT_def)
  then show ?thesis using tx_refines_queues [OF sample_kernel_ok _ w(1)] w by auto
qed


section \<open>Receive\<close>

definition rx_queues :: "rx_world \<Rightarrow> u64 frame_queues" where
  "rx_queues w = \<lparr>fq_mine = map frame_of (received_frames (rw_sock w)),
     fq_given = map frame_of (free_frames (rw_sock w)), fq_held = rw_held w\<rparr>"

lemma rx_same_queues: "same_rx (rw_sock w) s \<Longrightarrow> rx_queues (w\<lparr>rw_sock := s\<rparr>) = rx_queues w"
  using same_rx_frames [of "rw_sock w" s] by (simp add: rx_queues_def)

lemma seek_rx_queues:
  assumes "rx_inv pool w"
  shows "rx_queues (w\<lparr>rw_sock := fst (seek_rx b (rw_sock w) n)\<rparr>) = rx_queues w"
proof -
  let ?s = "rw_sock w"
  have x: "ring_ok (x_ring ?s)" using assms by (simp add: rx_inv_def rx_shape_def rings_rx_def)
  have "fst (seek_rx b ?s n) \<in> {?s, ?s\<lparr>available := of_nat (received ?s)\<rparr>}"
    using seek_rx_empty [OF x, of n b] seek_rx_finds [OF x, of n b]
    by (cases "n \<le> ucast (available ?s)"; cases "received ?s = 0") (simp_all add: seek_rx_def)
  moreover have "received (?s\<lparr>available := a\<rparr>) = received ?s" for a by (simp add: received_def)
  ultimately show ?thesis
    by (auto simp: rx_queues_def received_frames_def free_frames_def free_count_def)
qed

lemma commit_rx_hands:
  assumes inv: "rx_inv pool w" and b: "safety_checks b"
  shows "\<exists>m \<le> length (fq_mine (rx_queues w)).
    rx_queues (w\<lparr>rw_sock := fst (commit_rx b (rw_sock w) n)\<rparr>) = hand_over m (rx_queues w)"
proof (cases "available (rw_sock w) < ucast n")
  case True
  then have "rx_queues (w\<lparr>rw_sock := fst (commit_rx b (rw_sock w) n)\<rparr>) = hand_over 0 (rx_queues w)"
    using b rx.commit_refused [of b "rw_sock w" n] by simp
  then show ?thesis by blast
next
  case False
  let ?s = "rw_sock w" and ?m = "unat (ucast n :: u32)"
  have n: "ucast n \<le> available ?s" using False by (simp add: not_less)
  then have m: "?m \<le> received ?s" using inv by (simp add: rx_inv_def rx_shape_def word_le_nat_alt)
  then have room: "free_count ?s + ?m \<le> ring_cap (u_ring ?s)"
    using rx_inv_count [OF inv] inv by (simp add: rx_inv_def rx_shape_def rings_rx_def)
  have "prod_ix (u_ring ?s) = producer ?s" using inv by (simp add: rx_inv_def rx_shape_def)
  then have "rx_queues (w\<lparr>rw_sock := fst (commit_rx b ?s n)\<rparr>) = hand_over ?m (rx_queues w)"
    using commit_rx_moves_frames [OF rx_inv_wf [OF inv] _ n refl room, of b]
    by (auto simp: rx_queues_def hand_over_def take_map drop_map)
  then show ?thesis using m by (auto simp: rx_queues_def)
qed

lemma rx_apply_simulated:
  assumes "rx_inv pool w" "safety_checks b"
  shows "fq_step (rx_queues w) (rx_queues (rx_apply b op w))"
proof -
  have same: "fq_step (rx_queues w) q" if "q = rx_queues w" for q using that fq_hand [of 0 "rx_queues w"] by simp
  show ?thesis
  proof (cases op)
    case (RxSeek n)
    then show ?thesis using seek_rx_queues [OF assms(1)] same by (simp add: socket_seek_n_def)
  next
    case (RxPeekAt i)
    have "rings_rx (rw_sock w)" using assms(1) by (simp add: rx_inv_def rx_shape_def)
    then show ?thesis using rx_same_queues [OF peek_rx_same] same by (simp add: RxPeekAt peek_at_rx_def)
  next
    case RxSeekAndPeek
    obtain s1 r where s1: "seek_rx b (rw_sock w) 1 = (s1, r)" by fastforce
    have seek: "rx_queues (w\<lparr>rw_sock := s1\<rparr>) = rx_queues w" using seek_rx_queues [OF assms(1), of b 1] by (simp add: s1)
    have "rings_rx s1" using seek_rx_inv [OF assms(1), of b 1] by (simp add: s1 rx_inv_def rx_shape_def)
    then have "rx_queues (w\<lparr>rw_sock := fst (peek_rx b s1 0)\<rparr>) = rx_queues w"
      using rx_same_queues [of "w\<lparr>rw_sock := s1\<rparr>" "fst (peek_rx b s1 0)"] peek_rx_same seek by simp
    then show ?thesis using seek same by (cases r) (simp_all add: RxSeekAndPeek seek_and_peek_rx_def s1)
  next
    case (RxCommit n)
    then show ?thesis using commit_rx_hands [OF assms, of n] by (auto simp: socket_commit_n_def intro: fq_hand)
  qed
qed

lemma rx_rely_simulated:
  assumes "rx_rely w w'"
  shows "fq_step (rx_queues w) (rx_queues w')"
proof -
  obtain k rs where "k \<le> free_count (rw_sock w)" "free_frames (rw_sock w') = drop k (free_frames (rw_sock w))"
    "received_frames (rw_sock w') = received_frames (rw_sock w) @ rs"
    "rw_held w' + mset (map frame_of rs) = rw_held w + mset (map frame_of (take k (free_frames (rw_sock w))))"
    using assms by (auto simp: rx_rely_def Let_def)
  then show ?thesis
    using fq_kernel [of k "rx_queues w" "rw_held w'" "map frame_of rs"] by (simp add: rx_queues_def take_map drop_map)
qed

interpretation rx_cycle: frame_cycle "rx_inv pool" "\<lambda>w w'. safety_checks b \<and> rx_step rx_rely b w w'" rx_queues for pool b
proof unfold_locales
  fix w w'
  assume inv: "rx_inv pool w" and st: "safety_checks b \<and> rx_step rx_rely b w w'"
  from st have "rx_step rx_rely b w w'" ..
  then show "rx_inv pool w'" "fq_step (rx_queues w) (rx_queues w')"
    using inv st rx_rely_inv rx_apply_inv rx_rely_simulated rx_apply_simulated by (auto elim!: rx_stepE)
qed

lemma rx_reach_steps:
  assumes "rx_reach K b w0 w" "safety_checks b" "\<And>w w'. K w w' \<Longrightarrow> rx_rely w w'"
  shows "(\<lambda>w w'. safety_checks b \<and> rx_step rx_rely b w w')\<^sup>*\<^sup>* w0 w"
  using assms(1)
proof (induction rule: rx_reach.induct)
  case (rx_reach_step w w')
  have "rx_step rx_rely b w w'"
    using rx_reach_step.hyps(2)
    by (rule rx_stepE) (auto intro: rx_step.intros assms(3))
  then show ?case using rx_reach_step.IH assms(2) by (simp add: rtranclp.rtrancl_into_rtrancl)
qed simp

text \<open>
  C25. A receive socket whose producer index is the published one refines the same machine: received frames go to the Fill ring in the
  order in which they came, in every interleaving of calls and kernel moves.
\<close>

theorem rx_refines_queues:
  assumes "rx_shape (rw_sock w0)" "size (rx_frames w0) = ring_cap (x_ring (rw_sock w0))"
    and "safety_checks b" "\<And>w w'. K w w' \<Longrightarrow> rx_rely w w'" and "rx_reach K b w0 w"
  shows "fq_step\<^sup>*\<^sup>* (rx_queues w0) (rx_queues w)"
proof -
  obtain pool where "mset pool = rx_frames w0" by (metis ex_mset)
  then have "rx_inv pool w0" using assms(1,2) by (metis rx_inv_def size_mset)
  then show ?thesis using rx_cycle.run_simulated [OF rx_reach_steps [OF assms(5,3,4)]] by blast
qed

theorem rx_refines_queues_witness:
  "\<exists>w. rx_reach deliver_kernel sample_build rx_start w \<and> received (rw_sock w) = 3 \<and>
     fq_step\<^sup>*\<^sup>* (rx_queues rx_start) (rx_queues w)"
proof -
  let ?w = "deliver rx_start"
  have s: "rx_shape small_rx" "free_count small_rx = 1" "received small_rx = 2" "ring_cap (x_ring small_rx) = 4"
    by (simp_all add: rx_shape_def rings_rx_def free_count_def received_def) (simp_all add: small_rx_def)
  then have "deliver_kernel rx_start ?w" by (simp add: deliver_kernel_def rx_start_def)
  then have reach: "rx_reach deliver_kernel sample_build rx_start ?w"
    by (rule rx_reach_step [OF rx_reach_refl rx_kernel_moves])
  have start: "rx_shape (rw_sock rx_start)" "size (rx_frames rx_start) = ring_cap (x_ring (rw_sock rx_start))"
    using s by (simp_all add: rx_frames_def rx_start_def)
  have "received (rw_sock ?w) = 3" by (simp add: deliver_def rx_start_def received_def small_rx_def Let_def)
  then show ?thesis
    using rx_refines_queues [OF start sample_build_simps(1) deliver_rely reach] reach by blast
qed

end
