(* ===== verification/Shared_Rings.thy ===== *)
theory Shared_Rings
  imports Socket
begin

unbundle bit_operations_syntax

text \<open>
  Rings while the kernel moves: what one side may do to a ring while the other is in the middle of a call.
  The locale \<open>shared_access\<close> is what a call relies on, whichever ring the kernel fills and whichever it
  empties; it is interpreted for the two directions of a socket.
\<close>

section \<open>Moves\<close>

text \<open>The kernel sees only the rings; \<open>K i\<close> is its move before access \<open>i\<close>.\<close>

type_synonym shared = "xdp_desc ring \<times> u64 ring"
type_synonym kernel_moves = "nat \<Rightarrow> shared \<Rightarrow> shared"

definition kmove :: "kernel_moves \<Rightarrow> nat \<Rightarrow> socket \<Rightarrow> socket" where
  "kmove K i s = (case K i (x_ring s, u_ring s) of (x, u) \<Rightarrow> s\<lparr>x_ring := x, u_ring := u\<rparr>)"

lemma kmove_local [simp]:
  "consumer (kmove K i s) = consumer s" "producer (kmove K i s) = producer s" "available (kmove K i s) = available s"
  by (simp_all add: kmove_def split: prod.split)

text \<open>A kernel that does nothing.\<close>

definition no_moves :: kernel_moves where
  "no_moves i p = p"

lemma kmove_no_moves [simp]: "kmove no_moves i s = s"
  by (simp add: kmove_def no_moves_def)

lemma no_moves_shift [simp]: "(\<lambda>j. no_moves (Suc j)) = no_moves"
  by (simp add: fun_eq_iff no_moves_def)

text \<open>
  \<^verbatim>\<open>mut_bytes_at\<close> with a move of the kernel before each of its accesses to the descriptor: the address is read for the
  assertion and once more for the slice, and the length is written. (A build without the assertion does not make the first of the
  three; the move before it is then one with the next.)
\<close>

definition mut_bytes_at_shared ::
  "kernel_moves \<Rightarrow> build \<Rightarrow> socket \<Rightarrow> u32 \<Rightarrow> usize \<Rightarrow> socket \<times> (ring_error, slice) res" where
  "mut_bytes_at_shared K b s index len =
     (if safety_checks b \<and> \<not> index < ucast FRAME_COUNT then (s, Panic)
      else if safety_checks b \<and> \<not> (ucast len :: u32) < ucast FRAME_SIZE then (s, Panic)
      else let s0 = kmove K 0 s in
        try_in s0 (desc_at b (x_ring s0) index) (\<lambda>d.
        try_in s0 (if safety_checks b then add_chk b (d_addr d) len else Ok (d_addr d + len)) (\<lambda>end_addr.
          if safety_checks b \<and> \<not> end_addr < FRAME_SIZE * FRAME_COUNT then (s0, Panic)
          else let s1 = kmove K 1 s0 in
            try_in s1 (desc_at b (x_ring s1) index) (\<lambda>d.
            let s2 = kmove K 2 s1 in
            try_in s2 (mut_desc_at b (x_ring s2) index (\<lambda>d'. d'\<lparr>d_len := ucast len\<rparr>)) (\<lambda>x.
            let s3 = s2\<lparr>x_ring := x\<rparr> in
            case frames s3 of
              None \<Rightarrow> (s3, Undef)
            | Some n \<Rightarrow>
                if unat (d_addr d) + unat len \<le> n
                then (s3, Ok \<lparr>sl_off = unat (d_addr d), sl_len = unat len\<rparr>)
                else (s3, Undef))))))"

lemma mut_bytes_at_alone:
  "mut_bytes_at_shared no_moves b s ix len =
    (case mut_bytes_at b (x_ring s) (frames s) ix len of (x', r) \<Rightarrow> (s\<lparr>x_ring := x'\<rparr>, r))"
proof -
  have "s\<lparr>x_ring := x_ring s\<rparr> = s" by simp
  then show ?thesis
    by (cases "desc_at b (x_ring s) ix :: (ring_error, xdp_desc) res")
      (simp_all add: mut_bytes_at_shared_def mut_bytes_at_def Let_def split: prod.split option.split try_in_split)
qed

text \<open>The entries between the published indices of a ring.\<close>

definition entries :: "'a ring \<Rightarrow> 'a list" where
  "entries r = window (slot_rd r) (cons_ix r) (unat (prod_ix r - cons_ix r))"

text \<open>The other side takes entries, oldest first: it writes no slot and not the producer index.\<close>

definition ring_drains :: "'a ring \<Rightarrow> 'a ring \<Rightarrow> bool" where
  "ring_drains r r' \<longleftrightarrow> ring_ok r' \<and> ring_cap r' = ring_cap r \<and> slot_rd r' = slot_rd r \<and> prod_ix r' = prod_ix r \<and>
     (\<exists>k \<le> length (entries r). entries r' = drop k (entries r))"

text \<open>The other side adds entries: those that are there stay, and so does the consumer index.\<close>

definition ring_grows :: "'a ring \<Rightarrow> 'a ring \<Rightarrow> bool" where
  "ring_grows r r' \<longleftrightarrow> ring_ok r' \<and> ring_cap r' = ring_cap r \<and> cons_ix r' = cons_ix r \<and>
     (\<exists>cs. entries r' = entries r @ cs)"

lemma ring_drains_refl: "ring_ok r \<Longrightarrow> ring_drains r r"
  by (auto simp: ring_drains_def intro: exI [of _ 0])

lemma ring_drains_trans:
  assumes "ring_drains r s" "ring_drains s t"
  shows "ring_drains r t"
proof -
  obtain k l where "k \<le> length (entries r)" "entries s = drop k (entries r)" "l \<le> length (entries s)"
    "entries t = drop l (entries s)"
    using assms by (auto simp: ring_drains_def)
  then have "k + l \<le> length (entries r)" "entries t = drop (k + l) (entries r)" by (auto simp: add.commute)
  then show ?thesis using assms by (auto simp: ring_drains_def)
qed

lemma ring_grows_refl: "ring_ok r \<Longrightarrow> ring_grows r r"
  by (simp add: ring_grows_def)

lemma ring_grows_ok: "ring_grows r r' \<Longrightarrow> ring_ok r'"
  by (simp add: ring_grows_def)

lemma ring_grows_cap: "ring_grows r r' \<Longrightarrow> ring_cap r' = ring_cap r"
  by (simp add: ring_grows_def)

lemma ring_grows_trans: "ring_grows r s \<Longrightarrow> ring_grows s t \<Longrightarrow> ring_grows r t"
  by (auto simp: ring_grows_def)

text \<open>What the other side has taken from a ring or added to it, read off the two states.\<close>

definition ring_taken :: "'a ring \<Rightarrow> 'a ring \<Rightarrow> 'a list" where
  "ring_taken r r' = window (slot_rd r') (cons_ix r) (unat (cons_ix r' - cons_ix r))"

definition ring_added :: "'a ring \<Rightarrow> 'a ring \<Rightarrow> 'a list" where
  "ring_added r r' = window (slot_rd r') (prod_ix r) (unat (prod_ix r' - prod_ix r))"

section \<open>Changes that both sides see\<close>

lemma prod_ix_entries: "prod_ix r = cons_ix r + of_nat (length (entries r))"
  by (simp add: entries_def)

lemma length_entries: "length (entries r) < 2 ^ 32"
  unfolding entries_def length_window by (rule unat_lt_u32)

lemma ring_drains_taken:
  assumes "ring_drains r r'"
  shows "\<exists>k \<le> length (entries r). entries r' = drop k (entries r) \<and> ring_taken r r' = take k (entries r)"
proof -
  obtain k where k: "k \<le> length (entries r)" "entries r' = drop k (entries r)"
    and same: "prod_ix r' = prod_ix r" "slot_rd r' = slot_rd r"
    using assms by (auto simp: ring_drains_def)
  have "cons_ix r' + of_nat (length (entries r) - k) = cons_ix r + of_nat (length (entries r))"
    using prod_ix_entries [of r] prod_ix_entries [of r'] k same(1) by simp
  then have "cons_ix r' - cons_ix r = of_nat k" using k(1) by (simp add: of_nat_diff algebra_simps)
  moreover have "unat (of_nat k :: u32) = k" using k(1) length_entries [of r] by (intro unat_of_nat_u32) simp
  ultimately have "ring_taken r r' = take k (entries r)"
    using k(1) by (simp add: ring_taken_def same(2) entries_def take_window)
  then show ?thesis using k by blast
qed

lemma ring_grows_added:
  assumes "ring_grows r r'"
  shows "entries r' = entries r @ ring_added r r'"
proof -
  obtain cs where cs: "entries r' = entries r @ cs" and c: "cons_ix r' = cons_ix r"
    using assms by (auto simp: ring_grows_def)
  have "prod_ix r' = prod_ix r + of_nat (length cs)"
    using prod_ix_entries [of r] prod_ix_entries [of r'] cs c by (simp add: algebra_simps)
  moreover have "unat (of_nat (length cs) :: u32) = length cs"
    using length_entries [of r'] cs by (intro unat_of_nat_u32) simp
  ultimately have "ring_added r r' = window (slot_rd r') (prod_ix r) (length cs)" by (simp add: ring_added_def)
  also have "\<dots> = drop (length (entries r)) (window (slot_rd r') (cons_ix r) (length (entries r) + length cs))"
    by (simp add: window_append flip: prod_ix_entries)
  also have "window (slot_rd r') (cons_ix r) (length (entries r) + length cs) = entries r'"
    using arg_cong [OF cs, of length] by (simp add: entries_def c)
  finally show ?thesis by (simp add: cs)
qed

text \<open>A slot that is not published can be written, and published then, whatever the other side has taken.\<close>

lemma entries_write:
  assumes "ring_ok r" "n + m < ring_cap r" "length (entries r) \<le> n"
  shows "entries (slot_wr r (prod_ix r + of_nat m) v) = entries r"
proof -
  have "prod_ix r + of_nat m = cons_ix r + of_nat (length (entries r) + m)"
    by (subst prod_ix_entries) (simp add: add.assoc)
  then show ?thesis
    using rings.window_wr_outside [OF assms(1), of "length (entries r)" "length (entries r) + m" "cons_ix r" v] assms(2,3)
    by (simp add: entries_def)
qed

lemma entries_publish:
  assumes "ring_ok r" "length (entries r) + m \<le> ring_cap r"
  shows "entries (set_prod r (prod_ix r + of_nat m)) = entries r @ window (slot_rd r) (prod_ix r) m"
proof -
  have "length (entries r) + m < 2 ^ 32"
    using assms(2) ring_size_lt [OF ring_okD(3) [OF assms(1)]] by simp
  then have "unat (of_nat (length (entries r) + m) :: u32) = length (entries r) + m" by (rule unat_of_nat_u32)
  moreover have "prod_ix r + of_nat m - cons_ix r = of_nat (length (entries r) + m)"
    by (subst prod_ix_entries) simp
  ultimately have n: "unat (prod_ix r + of_nat m - cons_ix r) = length (entries r) + m" by (simp only:)
  have "entries (set_prod r (prod_ix r + of_nat m)) = window (slot_rd r) (cons_ix r) (length (entries r) + m)"
    by (simp only: entries_def [of "set_prod _ _"] index_ring_simps slot_rd_publish n)
  also have "\<dots> = window (slot_rd r) (cons_ix r) (length (entries r)) @ window (slot_rd r) (prod_ix r) m"
    by (simp only: window_append prod_ix_entries [symmetric])
  finally show ?thesis by (simp add: entries_def)
qed

lemma ring_drainsD:
  assumes "ring_drains r r'"
  shows "ring_ok r'" "ring_cap r' = ring_cap r" "slot_rd r' = slot_rd r" "prod_ix r' = prod_ix r"
    "length (entries r') \<le> length (entries r)"
  using assms by (auto simp: ring_drains_def)

lemma ring_drains_write:
  assumes "ring_drains r r'" "ring_ok r" "length (entries r) + m < ring_cap r" "i = prod_ix r + of_nat m"
  shows "ring_drains (slot_wr r i v) (slot_wr r' i v)"
proof -
  have "entries (slot_wr r i v) = entries r" "entries (slot_wr r' i v) = entries r'"
    using entries_write [OF assms(2,3)] entries_write [of r' "length (entries r)" m] ring_drainsD [OF assms(1)] assms(3,4)
    by simp_all
  moreover have "slot_rd (slot_wr r' i v) = slot_rd (slot_wr r i v)"
    using ring_drainsD [OF assms(1)] by (simp add: slot_rd_wr assms(2) cong: if_cong)
  ultimately show ?thesis using assms(1) by (simp add: ring_drains_def)
qed

lemma ring_drains_publish:
  assumes "ring_drains r r'" "ring_ok r" "length (entries r) + m \<le> ring_cap r" "h = prod_ix r + of_nat m"
  shows "ring_drains (set_prod r h) (set_prod r' h)"
proof -
  note d = ring_drainsD [OF assms(1)]
  have "entries (set_prod r h) = entries r @ window (slot_rd r) (prod_ix r) m"
    using entries_publish [OF assms(2,3)] assms(4) by simp
  moreover have "entries (set_prod r' h) = entries r' @ window (slot_rd r) (prod_ix r) m"
    using entries_publish [OF d(1), of m] d(2-5) assms(3,4) by simp
  moreover obtain k where k: "k \<le> length (entries r)" "entries r' = drop k (entries r)"
    using assms(1) by (auto simp: ring_drains_def)
  ultimately have "entries (set_prod r' h) = drop k (entries (set_prod r h))" "k \<le> length (entries (set_prod r h))"
    by simp_all
  then show ?thesis using d by (auto simp: ring_drains_def)
qed

text \<open>The entries of a growing ring stay where they are.\<close>

lemma ring_grows_entry:
  assumes "ring_grows r r'" "i < length (entries r)"
  shows "slot_rd r' (cons_ix r + of_nat i) = slot_rd r (cons_ix r + of_nat i)"
proof -
  obtain cs where cs: "entries r' = entries r @ cs" "cons_ix r' = cons_ix r"
    using assms(1) by (auto simp: ring_grows_def)
  then have "entries r' ! i = entries r ! i" "i < length (entries r')"
    using assms(2) by (simp_all add: nth_append)
  then show ?thesis using assms(2) cs(2) by (simp add: entries_def)
qed

lemma entries_set_cons:
  assumes "m \<le> length (entries r)"
  shows "entries (set_cons r (cons_ix r + of_nat m)) = drop m (entries r)"
proof -
  let ?n = "unat (prod_ix r - cons_ix r)"
  have m: "m \<le> ?n" using assms by (simp add: entries_def)
  then have "unat (of_nat m :: u32) = m"
    using unat_lt_u32 [of "prod_ix r - cons_ix r"] by (intro unat_of_nat_u32) simp
  then have "unat (prod_ix r - cons_ix r - of_nat m) = ?n - m"
    using m by (simp add: unat_sub word_le_nat_alt)
  then show ?thesis using m by (simp add: entries_def drop_window diff_diff_eq)
qed

lemma ring_drains_take:
  assumes "ring_ok r" "cons_ix r \<noteq> prod_ix r"
  shows "ring_drains r (set_cons r (cons_ix r + 1))"
proof -
  have "0 < length (entries r)" using assms(2) by (simp add: entries_def unat_gt_0)
  then show ?thesis
    using entries_set_cons [of "Suc 0" r] assms(1) by (auto simp: ring_drains_def Suc_le_eq intro: exI [of _ "Suc 0"])
qed

lemma ring_grows_release:
  assumes "ring_grows r r'" "m \<le> length (entries r)" "c = cons_ix r + of_nat m"
  shows "ring_grows (set_cons r c) (set_cons r' c)"
proof -
  obtain cs where cs: "entries r' = entries r @ cs" "cons_ix r' = cons_ix r" "ring_ok r'" "ring_cap r' = ring_cap r"
    using assms(1) by (auto simp: ring_grows_def)
  then have "entries (set_cons r' c) = drop m (entries r')"
    using entries_set_cons [of m r'] assms(2,3) by simp
  also have "\<dots> = entries (set_cons r c) @ cs"
    using entries_set_cons [OF assms(2)] assms(2,3) cs by simp
  finally show ?thesis using cs by (simp add: ring_grows_def)
qed

section \<open>The two rings of a socket\<close>

definition moves_between ::
  "(xdp_desc ring \<Rightarrow> xdp_desc ring \<Rightarrow> bool) \<Rightarrow> (u64 ring \<Rightarrow> u64 ring \<Rightarrow> bool) \<Rightarrow> socket \<Rightarrow> socket \<Rightarrow> bool" where
  "moves_between R S s t \<longleftrightarrow>
     (\<exists>x u. t = s\<lparr>x_ring := x, u_ring := u\<rparr> \<and> R (x_ring s) x \<and> S (u_ring s) u)"

lemma moves_betweenI:
  "t = s\<lparr>x_ring := x, u_ring := u\<rparr> \<Longrightarrow> R (x_ring s) x \<Longrightarrow> S (u_ring s) u \<Longrightarrow> moves_between R S s t"
  by (auto simp: moves_between_def)

lemma moves_betweenE:
  assumes "moves_between R S s t"
  obtains x u where "t = s\<lparr>x_ring := x, u_ring := u\<rparr>" "R (x_ring s) x" "S (u_ring s) u"
  using assms by (auto simp: moves_between_def)

lemma moves_betweenD:
  assumes "moves_between R S s t"
  shows "R (x_ring s) (x_ring t)" "S (u_ring s) (u_ring t)" "consumer t = consumer s" "producer t = producer s"
    "available t = available s"
  using assms by (auto simp: moves_between_def)

definition follows :: "(xdp_desc ring \<Rightarrow> xdp_desc ring \<Rightarrow> bool) \<Rightarrow> (u64 ring \<Rightarrow> u64 ring \<Rightarrow> bool) \<Rightarrow> kernel_moves \<Rightarrow> bool"
  where "follows R S K \<longleftrightarrow> (\<forall>i s. ring_ok (x_ring s) \<longrightarrow> ring_ok (u_ring s) \<longrightarrow> moves_between R S s (kmove K i s))"

lemma follows_shift: "follows R S K \<Longrightarrow> follows R S (\<lambda>j. K (j + 1))"
  unfolding follows_def kmove_def by blast

text \<open>Changes of the local fields and of one ring.\<close>

lemma moves_local:
  assumes "moves_between R S s t"
  shows "moves_between R S (s\<lparr>consumer := c\<rparr>) (t\<lparr>consumer := c\<rparr>)" "moves_between R S (s\<lparr>producer := p\<rparr>) (t\<lparr>producer := p\<rparr>)"
    "moves_between R S (s\<lparr>available := a\<rparr>) (t\<lparr>available := a\<rparr>)"
  using assms by (auto elim!: moves_betweenE intro!: moves_betweenI)

lemma moves_x:
  assumes "moves_between R S s t" "R x x'"
  shows "moves_between R S (s\<lparr>x_ring := x\<rparr>) (t\<lparr>x_ring := x'\<rparr>)"
  using assms by (auto elim!: moves_betweenE intro!: moves_betweenI)

lemma moves_u:
  assumes "moves_between R S s t" "S u u'"
  shows "moves_between R S (s\<lparr>u_ring := u\<rparr>) (t\<lparr>u_ring := u'\<rparr>)"
  using assms by (auto elim!: moves_betweenE intro!: moves_betweenI)

locale shared_access =
  fixes R :: "xdp_desc ring \<Rightarrow> xdp_desc ring \<Rightarrow> bool" and S :: "u64 ring \<Rightarrow> u64 ring \<Rightarrow> bool"
  assumes R_refl: "ring_ok x \<Longrightarrow> R x x" and R_trans: "R x y \<Longrightarrow> R y z \<Longrightarrow> R x z" and R_ok: "R x y \<Longrightarrow> ring_ok y"
    and R_cap: "R x y \<Longrightarrow> ring_cap y = ring_cap x"
    and S_refl: "ring_ok u \<Longrightarrow> S u u" and S_trans: "S u v \<Longrightarrow> S v w \<Longrightarrow> S u w" and S_ok: "S u v \<Longrightarrow> ring_ok v"
begin

lemma may_refl: "ring_ok (x_ring s) \<Longrightarrow> ring_ok (u_ring s) \<Longrightarrow> moves_between R S s s"
  by (rule moves_betweenI [where x = "x_ring s" and u = "u_ring s"]) (simp_all add: R_refl S_refl)

lemma may_trans:
  assumes "moves_between R S s t" "moves_between R S t v"
  shows "moves_between R S s v"
  using assms(1)
proof (rule moves_betweenE)
  fix x u
  assume t: "t = s\<lparr>x_ring := x, u_ring := u\<rparr>" and 1: "R (x_ring s) x" "S (u_ring s) u"
  from assms(2) obtain y z where "v = t\<lparr>x_ring := y, u_ring := z\<rparr>" "R x y" "S u z"
    by (rule moves_betweenE) (simp add: t)
  then show ?thesis
    by (intro moves_betweenI [where x = y and u = z]) (simp_all add: t R_trans [OF 1(1)] S_trans [OF 1(2)])
qed

lemma may_ok: "moves_between R S s t \<Longrightarrow> ring_ok (x_ring t)" "moves_between R S s t \<Longrightarrow> ring_ok (u_ring t)"
  using moves_betweenD(1,2) R_ok S_ok by blast+

text \<open>
  The slice of a slot that the other side leaves alone, and whose length may be written without its notice, is the same
  whatever it does meanwhile.
\<close>

lemma mut_bytes_at_same:
  assumes may: "moves_between R S s t" and K: "follows R S K" and x: "ring_ok (x_ring s)"
    and rd: "\<And>y. R (x_ring s) y \<Longrightarrow> slot_rd y i = slot_rd (x_ring s) i"
    and wr: "\<And>y v. R (x_ring s) y \<Longrightarrow> v = (slot_rd (x_ring s) i)\<lparr>d_len := ucast len\<rparr> \<Longrightarrow>
      R (slot_wr (x_ring s) i v) (slot_wr y i v)"
    and ix: "ix = i AND mod_mask (x_ring s)"
  obtains x' r t' where
    "mut_bytes_at b (x_ring s) (frames s) ix len = (x', r :: (ring_error, slice) res)"
    "mut_bytes_at_shared K b t ix len = (t', r)" "moves_between R S (s\<lparr>x_ring := x'\<rparr>) t'"
proof -
  have keep: "moves_between R S s (kmove K j t)" if "moves_between R S s t" for j t
    using that K may_ok may_trans unfolding follows_def by blast
  define v where "v = (slot_rd (x_ring s) i)\<lparr>d_len := ucast len\<rparr>"
  define t0 where "t0 = kmove K 0 t"
  define t1 where "t1 = kmove K 1 t0"
  define t2 where "t2 = kmove K 2 t1"
  have m: "moves_between R S s t0" "moves_between R S s t1" "moves_between R S s t2"
    unfolding t2_def t1_def t0_def by (intro keep may)+
  have at: "desc_at b (x_ring u) ix = (Ok (slot_rd (x_ring s) i) :: (ring_error, _) res)"
    "mut_desc_at b (x_ring u) ix f = (Ok (slot_wr (x_ring u) i (f (slot_rd (x_ring s) i))) :: (ring_error, _) res)"
    if "moves_between R S s u" for u f
  proof -
    have u: "ring_ok (x_ring u)" "R (x_ring s) (x_ring u)" using that may_ok(1) moves_betweenD(1) by blast+
    then have "ix = i AND mod_mask (x_ring u)" using x R_cap by (simp add: ix ring_okD(4))
    then show "desc_at b (x_ring u) ix = (Ok (slot_rd (x_ring s) i) :: (ring_error, _) res)"
      "mut_desc_at b (x_ring u) ix f = (Ok (slot_wr (x_ring u) i (f (slot_rd (x_ring s) i))) :: (ring_error, _) res)"
      using rd [OF u(2)] desc_at_ok [OF u(1), where i = i and b = b] mut_desc_at_ok [OF u(1), where i = i and b = b and f = f]
      by simp_all
  qed
  have here: "desc_at b (x_ring s) ix = (Ok (slot_rd (x_ring s) i) :: (ring_error, _) res)"
    "mut_desc_at b (x_ring s) ix f = (Ok (slot_wr (x_ring s) i (f (slot_rd (x_ring s) i))) :: (ring_error, _) res)" for f
    using desc_at_ok [OF x, where i = i and b = b] mut_desc_at_ok [OF x, where i = i and b = b and f = f] by (simp_all add: ix)
  let ?a = "d_addr (slot_rd (x_ring s) i)"
  define add where "add = (if safety_checks b then add_chk b ?a len else Ok (?a + len) :: (ring_error, u64) res)"
  define out :: "(ring_error, slice) res" where "out = (case frames s of None \<Rightarrow> Undef
    | Some n \<Rightarrow> if unat ?a + unat len \<le> n then Ok \<lparr>sl_off = unat ?a, sl_len = unat len\<rparr> else Undef)"
  let ?early = "safety_checks b \<and> \<not> ix < ucast FRAME_COUNT \<or> safety_checks b \<and> \<not> (ucast len :: u32) < ucast FRAME_SIZE"
  let ?beyond = "\<lambda>e. safety_checks b \<and> \<not> e < FRAME_SIZE * FRAME_COUNT"
  have plain: "mut_bytes_at b (x_ring s) (frames s) ix len = (if ?early then (x_ring s, Panic)
    else try_in (x_ring s) add (\<lambda>e. if ?beyond e then (x_ring s, Panic) else (slot_wr (x_ring s) i v, out)))"
    unfolding mut_bytes_at_def here try_in_simps add_def [symmetric] v_def [symmetric] out_def
    by (simp split: option.split)
  have fr: "frames t2 = frames s" using m(3) by (auto simp: moves_between_def)
  have shared: "mut_bytes_at_shared K b t ix len = (if ?early then (t, Panic)
    else try_in t0 add (\<lambda>e. if ?beyond e then (t0, Panic) else (t2\<lparr>x_ring := slot_wr (x_ring t2) i v\<rparr>, out)))"
    unfolding mut_bytes_at_shared_def Let_def t0_def [symmetric] t1_def [symmetric] t2_def [symmetric] at(1) [OF m(1)] at(1) [OF m(2)]
      at(2) [OF m(3)] try_in_simps add_def [symmetric] v_def [symmetric] out_def
    by (simp add: fr split: option.split)
  have wrote: "moves_between R S (s\<lparr>x_ring := slot_wr (x_ring s) i v\<rparr>) (t2\<lparr>x_ring := slot_wr (x_ring t2) i v\<rparr>)"
    by (rule moves_x [OF m(3) wr [OF moves_betweenD(1) [OF m(3)] v_def]])
  have same: "s\<lparr>x_ring := x_ring s\<rparr> = s" by simp
  consider "?early" | "\<not> ?early" "add = Panic" | e where "\<not> ?early" "add = Ok e" "?beyond e"
    | e where "\<not> ?early" "add = Ok e" "\<not> ?beyond e"
    by (cases add) (auto simp: add_def add_chk_def split: if_splits)
  then show ?thesis
  proof cases
    case 1
    then show ?thesis by (intro that [of "x_ring s" Panic t]) (simp_all only: plain shared same may if_True)
  next
    case 2
    then show ?thesis by (intro that [of "x_ring s" Panic t0]) (simp_all only: plain shared same m(1) if_False try_in_simps)
  next
    case 3
    then show ?thesis by (intro that [of "x_ring s" Panic t0]) (simp_all only: plain shared same m(1) if_False if_True try_in_simps simp_thms)
  next
    case 4
    then show ?thesis
      by (intro that [of "slot_wr (x_ring s) i v" out "t2\<lparr>x_ring := slot_wr (x_ring t2) i v\<rparr>"])
        (simp_all only: plain shared wrote if_False if_True try_in_simps simp_thms)
  qed
qed

text \<open>A further move changes nothing of what is relied on.\<close>

lemma may_kmove: "moves_between R S s t \<Longrightarrow> follows R S K \<Longrightarrow> moves_between R S s (kmove K i t)"
  using may_ok may_trans unfolding follows_def by blast

end

text \<open>
  The kernel empties the TX ring and fills the Completion ring, and it fills the RX ring and empties the
  Fill ring.
\<close>

interpretation tx_side: shared_access ring_drains ring_grows
  by unfold_locales (fact ring_drains_refl ring_grows_refl | (erule (1) ring_drains_trans ring_grows_trans) |
    (erule ring_drainsD(1,2) ring_grows_ok))+

interpretation rx_side: shared_access ring_grows ring_drains
  by unfold_locales (fact ring_drains_refl ring_grows_refl | (erule (1) ring_drains_trans ring_grows_trans) |
    (erule ring_drainsD(1) ring_grows_ok ring_grows_cap))+

end
