(* ===== verification/Seek_Shared.thy ===== *)
theory Seek_Shared
  imports Tx_Protocol Sample Shared_Rings
begin

unbundle bit_operations_syntax

text \<open>
  The transmit \<^verbatim>\<open>seek_\<close> while the kernel moves: the same code as \<open>seek_tx\<close>, with a move of the kernel before every
  access to shared memory that follows the load of the producer index of the Completion ring. Under the
  protocol the call is atomic: it returns what \<open>seek_tx\<close> returns and leaves a state that the kernel could
  have reached by moving after it.
\<close>

section \<open>The code with moves of the kernel\<close>

function seek_shared_loop ::
  "kernel_moves \<Rightarrow> build \<Rightarrow> u32 \<Rightarrow> usize \<Rightarrow> nat \<Rightarrow> socket \<Rightarrow> socket \<times> (ring_error, usize) res"
where
  "seek_shared_loop K b c_producer n i s =
     (let s0 = kmove K i s
      in try_in s0 (desc_at b (u_ring s0) (consumer s0 AND mod_mask (u_ring s0))) (\<lambda>addr.
     let desc = xdp_desc_new addr 0 0;
         s1 = kmove K (i + 1) (s0\<lparr>consumer := consumer s0 + 1\<rparr>)
     in try_in s1 (update_consumer (u_ring s1) (consumer s1)) (\<lambda>c_ring.
     let s2 = kmove K (i + 2) (s1\<lparr>u_ring := c_ring\<rparr>)
     in try_in s2 (mut_desc_at b (x_ring s2) (producer s2 AND mod_mask (x_ring s2)) (\<lambda>_. desc)) (\<lambda>x.
     let s3 = s2\<lparr>x_ring := x\<rparr>
     in try_in s3 (add_chk b (available s3) 1) (\<lambda>a.
     let s4 = s3\<lparr>available := a\<rparr>
     in if n \<le> ucast (available s4) \<or> c_producer = consumer s4
        then (s4, Ok (ucast (available s4)))
        else seek_shared_loop K b c_producer n (i + 3) s4)))))"
  by pat_completeness auto
termination
proof (relation "measure (\<lambda>(K, b, cp, n, i, s). unat (cp - consumer s - 1))", goal_cases)
  case 1
  show ?case by simp
next
  case (2 K b cp n i s s0 addr desc s1 c_ring s2 x s3 a s4)
  then have cp: "cp \<noteq> consumer s4" and c: "consumer s4 = consumer s + 1" by simp_all
  have "cp - consumer s - 1 \<noteq> 0" using cp c by (metis diff_diff_eq right_minus_eq)
  then have "unat (cp - consumer s - 1 - 1) < unat (cp - consumer s - 1)"
    by (rule unat_dec_u32)
  then have "unat (cp - (consumer s + 1) - 1) < unat (cp - consumer s - 1)"
    by (simp only: diff_diff_eq)
  then show ?case by (simp only: c in_measure prod.case)
qed

declare seek_shared_loop.simps [simp del]

definition seek_shared :: "kernel_moves \<Rightarrow> seek_impl" where
  "seek_shared K b s n =
     (if n \<le> ucast (available s) then (s, Ok n)
      else try_in s (ring_producer (u_ring s)) (\<lambda>c_producer.
        if c_producer = consumer s then (s, Err RingFull)
        else seek_shared_loop K b c_producer n 0 s))"

section \<open>What the kernel may do\<close>

text \<open>
  The kernel takes descriptors of the TX ring and adds entries to the Completion ring; it writes no descriptor
  and not the index of the application.
\<close>

definition kernel_may :: "socket \<Rightarrow> socket \<Rightarrow> bool" where
  "kernel_may = moves_between ring_drains ring_grows"

definition follows_protocol :: "kernel_moves \<Rightarrow> bool" where
  "follows_protocol K \<longleftrightarrow> follows ring_drains ring_grows K"

lemma kernel_mayD:
  assumes "kernel_may s t"
  shows "ring_ok (x_ring t)" "ring_ok (u_ring t)" "consumer t = consumer s" "producer t = producer s"
    "available t = available s" "ring_drains (x_ring s) (x_ring t)" "ring_grows (u_ring s) (u_ring t)"
  using moves_betweenD [OF assms [unfolded kernel_may_def]] tx_side.may_ok assms by (simp_all add: kernel_may_def)

lemmas kernel_may_refl = tx_side.may_refl [folded kernel_may_def]
lemmas kernel_may_kmove = tx_side.may_kmove [folded kernel_may_def follows_protocol_def]
lemmas kernel_may_local = moves_local [of ring_drains ring_grows, folded kernel_may_def]
lemmas kernel_may_x = moves_x [of ring_drains ring_grows, folded kernel_may_def]
lemmas kernel_may_u = moves_u [of ring_drains ring_grows, folded kernel_may_def]

section \<open>One round\<close>

text \<open>In a state of a run there is room for every frame in the TX ring.\<close>

definition tx_room :: "socket \<Rightarrow> bool" where
  "tx_room s \<longleftrightarrow> tx_shape s \<and> unat (available s) + queued_count s + pending s \<le> ring_cap (x_ring s)"

lemma tx_roomD:
  assumes "tx_room s"
  shows "wf_tx s" "cons_ix (u_ring s) = consumer s" "prod_ix (x_ring s) = producer s" "ring_ok (x_ring s)" "ring_ok (u_ring s)"
    "length (entries (x_ring s)) = queued_count s" "length (entries (u_ring s)) = pending s"
  using assms by (simp_all add: tx_room_def tx_shape_def wf_tx_def entries_def queued_count_def pending_def)

lemma frames_of_entries:
  assumes "tx_shape s"
  shows "queued_frames s = map d_addr (entries (x_ring s))" "completed_frames s = entries (u_ring s)"
  using assms by (simp_all add: frames_of_descs queued_descs_def queued_count_def completed_frames_def pending_def entries_def tx_shape_def)

lemma tx_room_inv: "pool_inv N P w \<Longrightarrow> tx_room (w_sock w)"
  using pool_inv_count [of N P w] by (simp add: pool_inv_def tx_room_def)

lemma tx_room_reclaimed:
  assumes "tx_room s" "0 < pending s"
  shows "tx_room (reclaimed (Suc 0) s)"
proof -
  have "queued_count (reclaimed (Suc 0) s) = queued_count s" by (simp add: queued_count_def reclaimed_def)
  moreover have "pending (reclaimed (Suc 0) s) = pending s - 1" using assms(2) by (simp add: pending_reclaimed)
  moreover have "unat (available (reclaimed (Suc 0) s)) = unat (available s) + 1"
    using tx_roomD(1) [OF assms(1)] assms(2) by (simp add: available_reclaimed)
  moreover have "ring_cap (x_ring (reclaimed (Suc 0) s)) = ring_cap (x_ring s)" by (simp add: reclaimed_def)
  moreover have "tx_shape (reclaimed (Suc 0) s)" using assms(1) by (simp add: tx_room_def tx_shape_def reclaimed_def)
  ultimately show ?thesis using assms by (simp add: tx_room_def)
qed

lemma seek_shared_unfold:
  assumes "t0 = kmove K i t" "desc_at b (u_ring t0) (consumer t0 AND mod_mask (u_ring t0)) = (Ok addr :: (ring_error, u64) res)"
    and "t1 = kmove K (i + 1) (t0\<lparr>consumer := consumer t0 + 1\<rparr>)"
    and "update_consumer (u_ring t1) (consumer t1) = (Ok c :: (ring_error, u64 ring) res)"
    and "t2 = kmove K (i + 2) (t1\<lparr>u_ring := c\<rparr>)"
    and "mut_desc_at b (x_ring t2) (producer t2 AND mod_mask (x_ring t2)) (\<lambda>_. xdp_desc_new addr 0 0) =
      (Ok x :: (ring_error, xdp_desc ring) res)"
    and "t3 = t2\<lparr>x_ring := x\<rparr>" "add_chk b (available t3) 1 = (Ok a :: (ring_error, u32) res)" "t4 = t3\<lparr>available := a\<rparr>"
  shows "seek_shared_loop K b cp n i t =
    (if n \<le> ucast (available t4) \<or> cp = consumer t4 then (t4, Ok (ucast (available t4)))
     else seek_shared_loop K b cp n (i + 3) t4)"
  by (subst seek_shared_loop.simps) (simp only: Let_def assms(1) [symmetric] assms(2) try_in_simps
      assms(3) [symmetric] assms(4) assms(5) [symmetric] assms(6) assms(7) [symmetric] assms(8) assms(9) [symmetric])

text \<open>
  A round that starts from a state the kernel may have made of \<open>s\<close> ends in one it may make of \<open>s\<close> after the round.
\<close>

lemma seek_shared_round:
  assumes room: "tx_room s" "0 < pending s" and may: "kernel_may s t" and K: "follows_protocol K"
  shows "\<exists>t'. kernel_may (reclaimed (Suc 0) s) t' \<and> seek_shared_loop K b cp n i t =
    (if n \<le> ucast (available (reclaimed (Suc 0) s)) \<or> cp = consumer (reclaimed (Suc 0) s)
     then (t', Ok (ucast (available (reclaimed (Suc 0) s))))
     else seek_shared_loop K b cp n (i + 3) t')"
proof -
  let ?a = "slot_rd (u_ring s) (consumer s)" and ?c = "consumer s + 1"
  have wf: "wf_tx s" "cons_ix (u_ring s) = consumer s" "0 < pending s" using room tx_roomD by blast+
  have ne: "0 < length (entries (u_ring s))" using room tx_roomD(7) by simp
  let ?s1 = "s\<lparr>consumer := ?c\<rparr>"
  let ?s2 = "?s1\<lparr>u_ring := set_cons (u_ring s) ?c\<rparr>"
  let ?s3 = "?s2\<lparr>x_ring := slot_wr (x_ring s) (producer s) (xdp_desc_new ?a 0 0)\<rparr>"
  define t0 where "t0 = kmove K i t"
  define t1 where "t1 = kmove K (i + 1) (t0\<lparr>consumer := ?c\<rparr>)"
  define t2 where "t2 = kmove K (i + 2) (t1\<lparr>u_ring := set_cons (u_ring t1) ?c\<rparr>)"
  define t3 where "t3 = t2\<lparr>x_ring := slot_wr (x_ring t2) (producer s) (xdp_desc_new ?a 0 0)\<rparr>"
  have m0: "kernel_may s t0" unfolding t0_def by (rule kernel_may_kmove [OF may K])
  have m1: "kernel_may ?s1 t1" unfolding t1_def by (rule kernel_may_kmove [OF kernel_may_local(1) [OF m0] K])
  have "ring_grows (set_cons (u_ring s) ?c) (set_cons (u_ring t1) ?c)"
    using ring_grows_release [of "u_ring s" "u_ring t1" "Suc 0"] kernel_mayD(7) [OF m1] ne wf(2) by (simp add: Suc_le_eq)
  from kernel_may_u [OF m1 this] have m2: "kernel_may ?s2 t2" unfolding t2_def by (rule kernel_may_kmove [OF _ K])
  have "ring_drains (slot_wr (x_ring s) (producer s) v) (slot_wr (x_ring t2) (producer s) v)" for v
    using ring_drains_write [of "x_ring s" "x_ring t2" 0 "producer s"] kernel_mayD(6) [OF m2] tx_roomD [OF room(1)] room
    by (simp add: tx_room_def)
  from kernel_may_x [OF m2 this] have m3: "kernel_may ?s3 t3" by (simp add: t3_def)
  then have m4: "kernel_may (reclaimed (Suc 0) s) (t3\<lparr>available := available s + 1\<rparr>)"
    using kernel_may_local(3) [OF m3, of "available s + 1"] by (simp add: reclaimed_def)
  have oldest: "slot_rd (u_ring t0) (consumer s) = ?a"
    using ring_grows_entry [OF kernel_mayD(7) [OF m0] ne] wf(2) by simp
  have "unat (available s) + 1 < 2 ^ 32" using wf_txD(4,5) [OF wf(1)] wf(3) by simp
  then have add: "add_chk b (available s) 1 = (Ok (available s + 1) :: (ring_error, u32) res)" by simp
  have av: "available t3 = available s" "producer t2 = producer s" "consumer t0 = consumer s" "consumer t1 = ?c" "consumer t3 = ?c"
    using kernel_mayD(3-5) [OF m0] kernel_mayD(3-5) [OF m1] kernel_mayD(3-5) [OF m2] kernel_mayD(3-5) [OF m3] by simp_all
  have d: "desc_at b (u_ring t0) (consumer t0 AND mod_mask (u_ring t0)) = (Ok ?a :: (ring_error, u64) res)"
    by (simp add: desc_at_ok kernel_mayD(2) [OF m0] oldest av)
  have c: "update_consumer (u_ring t1) (consumer t1) = (Ok (set_cons (u_ring t1) ?c) :: (ring_error, u64 ring) res)"
    by (simp add: accessors_ok(4) kernel_mayD(2) [OF m1] av)
  have x: "mut_desc_at b (x_ring t2) (producer t2 AND mod_mask (x_ring t2)) (\<lambda>_. xdp_desc_new ?a 0 0) =
      (Ok (slot_wr (x_ring t2) (producer s) (xdp_desc_new ?a 0 0)) :: (ring_error, xdp_desc ring) res)"
    using mut_desc_at_ok [OF kernel_mayD(1) [OF m2], where i = "producer t2"] by (simp add: av)
  have t1: "t1 = kmove K (i + 1) (t0\<lparr>consumer := consumer t0 + 1\<rparr>)" by (simp only: t1_def av)
  have "add_chk b (available t3) 1 = (Ok (available s + 1) :: (ring_error, u32) res)" by (simp only: av add)
  from seek_shared_unfold [OF t0_def d t1 c t2_def x t3_def this refl]
  have "seek_shared_loop K b cp n i t =
    (if n \<le> ucast (available s + 1) \<or> cp = ?c
     then (t3\<lparr>available := available s + 1\<rparr>, Ok (ucast (available s + 1)))
     else seek_shared_loop K b cp n (i + 3) (t3\<lparr>available := available s + 1\<rparr>))"
    by (simp add: av)
  then show ?thesis using m4 by (intro exI [of _ "t3\<lparr>available := available s + 1\<rparr>"]) (simp add: reclaimed_def)
qed


section \<open>Moves during a call and moves between calls\<close>

text \<open>
  What the kernel does to the rings during a call is a move of \<open>Tx_Protocol\<close>, as long as it only completes frames
  that it holds, \<open>h\<close> at first, or takes from the queue.
\<close>

definition completes_own :: "u64 multiset \<Rightarrow> socket \<Rightarrow> socket \<Rightarrow> bool" where
  "completes_own h s t \<longleftrightarrow>
     mset (completed_frames t) + mset (queued_frames t) \<subseteq># mset (completed_frames s) + mset (queued_frames s) + h"

lemma kernel_may_rely:
  assumes may: "kernel_may s t" and shape: "tx_shape s" and own: "completes_own h s t"
  shows "\<exists>h'. tx_rely \<lparr>w_sock = s, w_mem = mem, w_held = h\<rparr> \<lparr>w_sock = t, w_mem = mem, w_held = h'\<rparr>"
proof -
  note D = kernel_mayD [OF may]
  obtain x u where t: "t = s\<lparr>x_ring := x, u_ring := u\<rparr>"
    using may by (auto simp: kernel_may_def elim: moves_betweenE)
  have shape': "tx_shape t"
    using D shape by (simp add: tx_shape_def ring_drains_def ring_grows_def)
  obtain k cs where k: "k \<le> length (entries (x_ring s))" "entries (x_ring t) = drop k (entries (x_ring s))"
    and cs: "entries (u_ring t) = entries (u_ring s) @ cs"
    using D(6,7) by (auto simp: ring_drains_def ring_grows_def)
  let ?q = "queued_frames s"
  have q: "k \<le> queued_count s" "queued_frames t = drop k ?q" "completed_frames t = completed_frames s @ cs"
    using k cs frames_of_entries [OF shape] frames_of_entries [OF shape'] length_frames(2) [of s] by (simp_all add: drop_map)
  have "mset ?q = mset (take k ?q) + mset (drop k ?q)" by (simp flip: mset_append)
  then have "mset cs \<subseteq># h + mset (take k ?q)"
    using own by (simp add: completes_own_def q ac_simps)
  then have "h + mset (take k ?q) - mset cs + mset cs = h + mset (take k ?q)" by simp
  then have "tx_rely \<lparr>w_sock = s, w_mem = mem, w_held = h\<rparr>
      \<lparr>w_sock = t, w_mem = mem, w_held = h + mset (take k ?q) - mset cs\<rparr>"
    using D q shape' shape by (auto simp: tx_rely_def Let_def t ring_drains_def ring_grows_def tx_shape_def)
  then show ?thesis ..
qed

section \<open>The call is atomic\<close>

text \<open>With the producer index that was loaded, the loop follows the loop of \<open>seek_tx\<close> round by round.\<close>

lemma seek_shared_loop_follows:
  assumes "tx_room s" "0 < pending s" "kernel_may s t" "follows_protocol K"
  shows "\<exists>s' t' r. seek_tx_loop b (prod_ix (u_ring s)) n s = (s', r) \<and>
    seek_shared_loop K b (prod_ix (u_ring s)) n i t = (t', r) \<and> kernel_may s' t'"
  using assms(1-3)
proof (induction "pending s" arbitrary: s t i rule: less_induct)
  case less
  let ?s = "reclaimed (Suc 0) s" and ?cp = "prod_ix (u_ring s)"
  obtain t' where t': "kernel_may ?s t'" "seek_shared_loop K b ?cp n i t =
    (if n \<le> ucast (available ?s) \<or> ?cp = consumer ?s then (t', Ok (ucast (available ?s)))
     else seek_shared_loop K b ?cp n (i + 3) t')"
    using seek_shared_round [OF less.prems assms(4)] by blast
  note round = seek_tx_loop_step [OF tx_roomD(1) [OF less.prems(1)] less.prems(2), of b ?cp n]
  have cp: "prod_ix (u_ring ?s) = ?cp" by (simp add: reclaimed_def)
  show ?case
  proof (cases "n \<le> ucast (available ?s) \<or> ?cp = consumer ?s")
    case True
    then show ?thesis using t' round by simp
  next
    case False
    have pend: "pending ?s = pending s - 1" using less.prems(2) by (simp add: pending_reclaimed)
    have "0 < pending ?s" using False by (simp add: pending_def cp unat_gt_0)
    moreover have "tx_room ?s" using less.prems(1,2) by (rule tx_room_reclaimed)
    ultimately show ?thesis
      using less.hyps [of ?s t' "i + 3"] less.prems(2) t' round False pend by (simp add: cp)
  qed
qed

lemma seek_shared_same:
  assumes "tx_room s" "follows_protocol K"
  shows "snd (seek_shared K b s n) = snd (seek_tx b s n) \<and>
    kernel_may (fst (seek_tx b s n)) (fst (seek_shared K b s n))"
proof -
  have rings: "ring_ok (x_ring s)" "ring_ok (u_ring s)" using tx_roomD [OF assms(1)] by simp_all
  then have same: "kernel_may s s" by (rule kernel_may_refl)
  show ?thesis
  proof (cases "n \<le> ucast (available s) \<or> prod_ix (u_ring s) = consumer s")
    case True
    then show ?thesis
      using same by (auto simp: seek_shared_def seek_tx_def accessors_ok(2) [OF rings(2)])
  next
    case False
    then have "0 < pending s" by (simp add: pending_def unat_gt_0)
    then show ?thesis
      using False seek_shared_loop_follows [OF assms(1) _ same assms(2), of b n 0]
      by (auto simp: seek_shared_def seek_tx_def accessors_ok(2) [OF rings(2)])
  qed
qed

lemma seek_tx_shape:
  assumes "tx_shape s" "wf_tx s"
  shows "tx_shape (fst (seek_tx b s n))"
proof (cases "n \<le> ucast (available s)")
  case True
  then show ?thesis using assms(1) by (simp add: seek_tx_hit)
next
  case False
  have "tx_shape (reclaimed k s)" for k using assms(1) by (simp add: tx_shape_def reclaimed_def)
  then show ?thesis
    using assms False by (cases "pending s = 0") (simp_all add: seek_tx_empty seek_tx_reclaims)
qed

text \<open>
  C10. In every state whose frames fit the ring, the transmit \<^verbatim>\<open>seek_n\<close> is atomic although the kernel moves while it runs: with any
  moves of the protocol before every access to shared memory, it returns exactly what it would return if the
  kernel waited, and leaves a state that the kernel could have reached by moving after the call; that move is one of
  the runs of \<open>Tx_Protocol\<close> if the kernel only completes frames that it has. So runs in which the kernel moves between the
  calls lose no behaviour of this call.
\<close>

theorem seek_is_atomic:
  assumes "tx_room s" "follows_protocol K" "seek_shared K b s n = (t, r)"
  shows "\<exists>s'. seek_tx b s n = (s', r) \<and> kernel_may s' t \<and>
    (completes_own h s' t \<longrightarrow>
      (\<exists>h'. tx_rely \<lparr>w_sock = s', w_mem = mem, w_held = h\<rparr> \<lparr>w_sock = t, w_mem = mem, w_held = h'\<rparr>))"
proof -
  have "tx_shape (fst (seek_tx b s n))"
    using assms(1) tx_roomD(1) seek_tx_shape by (simp add: tx_room_def)
  moreover have "snd (seek_tx b s n) = r" "kernel_may (fst (seek_tx b s n)) t"
    using seek_shared_same [OF assms(1,2), of b n] assms(3) by simp_all
  ultimately show ?thesis
    using kernel_may_rely [of "fst (seek_tx b s n)" t h mem] by (intro exI [of _ "fst (seek_tx b s n)"]) auto
qed

text \<open>A kernel that completes one more frame at its second move.\<close>

definition completes_during :: kernel_moves where
  "completes_during i p =
     (case p of (x, u) \<Rightarrow>
      if i = 1 \<and> unat (prod_ix u - cons_ix u) < ring_cap u
      then (x, set_prod (slot_wr u (prod_ix u) 6144) (prod_ix u + 1)) else (x, u))"

lemma completes_during_follows: "follows_protocol completes_during"
  unfolding follows_protocol_def follows_def
proof (intro allI impI)
  fix i and s :: socket
  assume x: "ring_ok (x_ring s)" and u: "ring_ok (u_ring s)"
  let ?u = "set_prod (slot_wr (u_ring s) (prod_ix (u_ring s)) 6144) (prod_ix (u_ring s) + 1)"
  have "ring_grows (u_ring s) ?u" if "unat (prod_ix (u_ring s) - cons_ix (u_ring s)) < ring_cap (u_ring s)"
    using rings.entries_push [OF u that refl, of 6144] u by (simp add: ring_grows_def entries_def)
  then show "moves_between ring_drains ring_grows s (kmove completes_during i s)"
    using x u by (intro moves_betweenI [where x = "x_ring (kmove completes_during i s)" and u = "u_ring (kmove completes_during i s)"])
      (simp_all add: kmove_def completes_during_def ring_drains_refl ring_grows_refl)
qed

theorem seek_is_atomic_witness:
  "\<exists>s t. seek_shared completes_during sample_build small_tx 3 = (t, Ok 3) \<and>
     seek_tx sample_build small_tx 3 = (s, Ok 3) \<and> kernel_may s t"
proof -
  have room: "tx_room small_tx" by (simp add: small_tx_def tx_room_def tx_shape_def pending_def queued_count_def)
  obtain t r where t: "seek_shared completes_during sample_build small_tx 3 = (t, r)" by fastforce
  obtain s where s: "seek_tx sample_build small_tx 3 = (s, r)" "kernel_may s t"
    using seek_is_atomic [OF room completes_during_follows t] by blast
  have "pending small_tx = 1" "\<not> (3 :: usize) \<le> ucast (available small_tx)" "available small_tx = 2"
    by (simp_all add: pending_def small_tx_def)
  then have "seek_tx sample_build small_tx 3 = (reclaimed 1 small_tx, Ok (ucast (available (reclaimed 1 small_tx))))"
    by (intro seek_tx_reclaims [OF tx_roomD(1) [OF room]]) simp_all
  moreover have "available (reclaimed 1 small_tx) = 3" by (simp add: reclaimed_def small_tx_def)
  ultimately have "r = Ok 3" using s(1) by simp
  then show ?thesis using s t by blast
qed

end
