(* ===== verification/Linearize.thy ===== *)
theory Linearize
  imports Prelude
begin

text \<open>
  Calls that are as good as atomic. A run is a sequence of calls with their results and of moves of the environment
  between them; the locale \<open>atomic_calls\<close> says when calls that the environment may interrupt can be replaced by
  calls that it may not, and shows that no history of calls and results is lost or added.
\<close>

inductive history_run ::
  "('w \<Rightarrow> 'w \<Rightarrow> bool) \<Rightarrow> ('op \<Rightarrow> 'w \<Rightarrow> 'r \<Rightarrow> 'w \<Rightarrow> bool) \<Rightarrow> 'w \<Rightarrow> ('op \<times> 'r) list \<Rightarrow> 'w \<Rightarrow> bool"
  for env call w0 where
  run_start: "history_run env call w0 [] w0"
| run_env: "history_run env call w0 h w \<Longrightarrow> env w w' \<Longrightarrow> history_run env call w0 h w'"
| run_call: "history_run env call w0 h w \<Longrightarrow> call op w r w' \<Longrightarrow> history_run env call w0 (h @ [(op, r)]) w'"

locale atomic_calls =
  fixes inv :: "'w \<Rightarrow> bool" and env :: "'w \<Rightarrow> 'w \<Rightarrow> bool"
    and atomic :: "'op \<Rightarrow> 'w \<Rightarrow> 'r \<Rightarrow> 'w \<Rightarrow> bool" and shared :: "'op \<Rightarrow> 'w \<Rightarrow> 'r \<Rightarrow> 'w \<Rightarrow> bool"
  assumes env_inv: "inv w \<Longrightarrow> env w w' \<Longrightarrow> inv w'"
    and atomic_inv: "inv w \<Longrightarrow> atomic op w r w' \<Longrightarrow> inv w'"
    and shared_splits: "inv w \<Longrightarrow> shared op w r w' \<Longrightarrow> \<exists>v. atomic op w r v \<and> env v w'"
    and atomic_shared: "inv w \<Longrightarrow> atomic op w r w' \<Longrightarrow> shared op w r w'"
begin

lemma runs_inv: "history_run env atomic w0 h w \<Longrightarrow> inv w0 \<Longrightarrow> inv w"
  by (induction rule: history_run.induct) (auto intro: env_inv atomic_inv)

lemma runs_are_atomic:
  "history_run env shared w0 h w \<Longrightarrow> inv w0 \<Longrightarrow> history_run env atomic w0 h w"
proof (induction rule: history_run.induct)
  case run_start
  show ?case by (rule history_run.run_start)
next
  case (run_env h w w')
  then show ?case by (auto intro: history_run.run_env)
next
  case (run_call h w op r w')
  then have run: "history_run env atomic w0 h w" by blast
  then obtain v where v: "atomic op w r v" "env v w'"
    using shared_splits [OF runs_inv [OF run] run_call.hyps(2)] run_call.prems by blast
  show ?case by (rule history_run.run_env [OF history_run.run_call [OF run v(1)] v(2)])
qed

lemma runs_are_shared:
  "history_run env atomic w0 h w \<Longrightarrow> inv w0 \<Longrightarrow> history_run env shared w0 h w"
proof (induction rule: history_run.induct)
  case run_start
  show ?case by (rule history_run.run_start)
next
  case (run_env h w w')
  then show ?case by (auto intro: history_run.run_env)
next
  case (run_call h w op r w')
  then have "shared op w r w'" using runs_inv atomic_shared by blast
  then show ?case using run_call by (auto intro: history_run.run_call)
qed

text \<open>The two kinds of calls have the same histories, with the same states at their ends.\<close>

lemma same_runs:
  "inv w0 \<Longrightarrow> history_run env shared w0 h w \<longleftrightarrow> history_run env atomic w0 h w"
  using runs_are_atomic runs_are_shared by blast

end

end
