(* ===== verification/Tx_Shared.thy ===== *)
theory Tx_Shared
  imports Seek_Shared Linearize
begin

unbundle bit_operations_syntax

text \<open>
  All calls of the transmit socket while the kernel moves: the code of \<open>Tx\<close> and \<open>Send\<close> with a move of the kernel
  before every access to shared memory that follows the first one of a call. (What the kernel does before the
  first access, it does before the call.)
\<close>

section \<open>The code with moves of the kernel\<close>

definition peek_tx_shared ::
  "kernel_moves \<Rightarrow> build \<Rightarrow> socket \<Rightarrow> usize \<Rightarrow> usize \<Rightarrow> socket \<times> (ring_error, slice) res"
where
  "peek_tx_shared K b s index len =
     (if safety_checks b \<and> ucast (available s) \<le> index then (s, Err InvalidIndex)
      else if safety_checks b \<and> frame_size (x_ring s) < len then (s, Err InvalidLength)
      else
        let x_head = (producer s + ucast index) AND mod_mask (x_ring s); s0 = kmove K 0 s
        in try_in s0 (mut_desc_at b (x_ring s0) x_head (\<lambda>d. d\<lparr>d_len := ucast len\<rparr>)) (\<lambda>x.
           mut_bytes_at_shared (\<lambda>j. K (j + 1)) b (s0\<lparr>x_ring := x\<rparr>) x_head len))"

definition commit_tx_shared :: "kernel_moves \<Rightarrow> commit_impl" where
  "commit_tx_shared K b s n =
     (if safety_checks b \<and> available s < ucast n then (s, Err NotAvailable)
      else try_in s (sub_chk b (available s) (ucast n)) (\<lambda>a.
        let s1 = kmove K 0 (s\<lparr>available := a, producer := producer s + ucast n\<rparr>)
        in try_in s1 (update_producer (x_ring s1) (producer s1)) (\<lambda>x.
           (s1\<lparr>x_ring := x\<rparr>, Ok ()))))"

text \<open>Calls in two parts: the moves of the kernel in the first part and in the second.\<close>

definition seek_and_peek_tx_shared ::
  "kernel_moves \<Rightarrow> kernel_moves \<Rightarrow> build \<Rightarrow> socket \<Rightarrow> usize \<Rightarrow> socket \<times> (ring_error, slice) res"
where
  "seek_and_peek_tx_shared K1 K2 b s len =
     and_then (seek_shared K1 b s 1) (\<lambda>_ s'. peek_tx_shared K2 b s' 0 len)"

definition send_shared ::
  "kernel_moves \<Rightarrow> kernel_moves \<Rightarrow> build \<Rightarrow> socket \<times> u8 list \<Rightarrow> u8 list \<Rightarrow> u8 list option \<Rightarrow>
    (socket \<times> u8 list) \<times> (ring_error, unit) res"
where
  "send_shared K1 K2 b w data header =
     (case w of (s, mem) \<Rightarrow>
       let hdr_len = (case header of None \<Rightarrow> 0 | Some h \<Rightarrow> length h)
       in try_in (s, mem) (add_chk b (of_nat (length data)) (of_nat hdr_len)) (\<lambda>buf_len.
       case peek_tx_shared K1 b s 0 buf_len of (s1, r) \<Rightarrow>
       try_in (s1, mem) r (\<lambda>buf.
       try_in (s1, mem)
         (case header of
            Some bs \<Rightarrow> copy_from_slice mem buf 0 hdr_len bs
          | None \<Rightarrow> Ok mem) (\<lambda>mem1.
       try_in (s1, mem1) (copy_from_slice mem1 buf hdr_len (sl_len buf) data) (\<lambda>mem2.
       case commit_tx_shared K2 b s1 1 of (s2, r2) \<Rightarrow> ((s2, mem2), r2))))))"

text \<open>The socket, the memory and the result after a call.\<close>

fun tx_call_shared :: "kernel_moves \<Rightarrow> kernel_moves \<Rightarrow> build \<Rightarrow> tx_op \<Rightarrow> socket \<Rightarrow> u8 list \<Rightarrow> socket \<times> u8 list \<times> call_result"
where
  "tx_call_shared K1 K2 b (OpSeek n) s mem = (case seek_shared K1 b s n of (s', r) \<Rightarrow> (s', mem, CountResult r))"
| "tx_call_shared K1 K2 b (OpPeekAt i len) s mem =
     (case peek_tx_shared K1 b s i len of (s', r) \<Rightarrow> (s', mem, BufferResult r))"
| "tx_call_shared K1 K2 b (OpSeekAndPeek len) s mem =
     (case seek_and_peek_tx_shared K1 K2 b s len of (s', r) \<Rightarrow> (s', mem, BufferResult r))"
| "tx_call_shared K1 K2 b (OpCommit n) s mem = (case commit_tx_shared K1 b s n of (s', r) \<Rightarrow> (s', mem, UnitResult r))"
| "tx_call_shared K1 K2 b (OpSend data header) s mem =
     (case send_shared K1 K2 b (s, mem) data header of ((s', mem'), r) \<Rightarrow> (s', mem', UnitResult r))"
| "tx_call_shared K1 K2 b (OpWrite i len start bs) s mem =
     (case peek_tx_shared K1 b s i len of (s', r) \<Rightarrow>
       (s', case r of Ok buf \<Rightarrow>
              (case copy_from_slice mem buf start (start + length bs) bs of Ok mem' \<Rightarrow> mem' | _ \<Rightarrow> mem) | _ \<Rightarrow> mem,
        BufferResult r))"

text \<open>The same of the calls of \<open>Tx_Protocol\<close>, which the kernel does not interrupt.\<close>

definition tx_call :: "build \<Rightarrow> tx_op \<Rightarrow> socket \<Rightarrow> u8 list \<Rightarrow> socket \<times> u8 list \<times> call_result" where
  "tx_call b op s mem =
     (let w = \<lparr>w_sock = s, w_mem = mem, w_held = {#}\<rparr>; w' = tx_apply b op w
      in (w_sock w', w_mem w', tx_result b op w))"

section \<open>Buffers\<close>

lemma kernel_may_frames: "kernel_may s t \<Longrightarrow> frames t = frames s"
  by (auto simp: kernel_may_def elim: moves_betweenE)

lemma peek_tx_shared_same:
  assumes room: "tx_room s" and may: "kernel_may s t" and K: "follows_protocol K" and b: "safety_checks b"
  shows "snd (peek_tx_shared K b t index len) = snd (peek_tx b s index len) \<and>
    kernel_may (fst (peek_tx b s index len)) (fst (peek_tx_shared K b t index len))"
proof (cases "ucast (available s) \<le> index \<or> FRAME_SIZE < len")
  case True
  then show ?thesis
    using may b kernel_mayD(5) [OF may] by (cases "ucast (available s) \<le> index") (simp_all add: peek_tx_def peek_tx_shared_def frame_size_def)
next
  case False
  let ?i = "producer s + ucast index" and ?f = "\<lambda>d. d\<lparr>d_len := ucast len\<rparr>"
  let ?v = "?f (slot_rd (x_ring s) ?i)"
  have lim: "\<not> ucast (available s) \<le> index" "\<not> FRAME_SIZE < len" using False by blast+
  have x: "ring_ok (x_ring s)" and "unat index < unat (available s)"
    using tx_roomD(4) [OF room] False by (simp_all add: word_le_nat_alt not_le)
  moreover from this have "(ucast index :: u32) = of_nat (unat index)" by (simp only: ucast_eq_of_nat)
  ultimately have i: "?i = prod_ix (x_ring s) + of_nat (unat index)"
      "length (entries (x_ring s)) + unat index < ring_cap (x_ring s)"
    using tx_roomD(3,6) [OF room] room by (simp_all add: tx_room_def)
  define t0 where "t0 = kmove K 0 t"
  let ?X = "slot_wr (x_ring s) ?i ?v" and ?K = "\<lambda>j. K (j + 1)"
  have m0: "kernel_may s t0" unfolding t0_def by (rule kernel_may_kmove [OF may K])
  have "ring_drains ?X (slot_wr (x_ring t0) ?i ?v)"
    by (rule ring_drains_write [OF kernel_mayD(6) [OF m0] x i(2,1)])
  note m1 = kernel_may_x [OF m0 this]
  have mask: "mod_mask (x_ring t) = mod_mask (x_ring s)" "mod_mask (x_ring t0) = mod_mask (x_ring s)"
    using ring_drainsD(1,2) [OF kernel_mayD(6) [OF may]] ring_drainsD(1,2) [OF kernel_mayD(6) [OF m0]] x
    by (simp_all add: ring_okD(4))
  have wr: "mut_desc_at b (x_ring t0) (?i AND mod_mask (x_ring t)) ?f = (Ok (slot_wr (x_ring t0) ?i ?v) :: (ring_error, _) res)"
    using mut_desc_at_ok [OF kernel_mayD(1) [OF m0], where i = ?i and b = b and f = ?f] ring_drainsD(3) [OF kernel_mayD(6) [OF m0]]
    by (simp add: mask)
  have e: "entries ?X = entries (x_ring s)"
    using entries_write [OF x, of "length (entries (x_ring s))" "unat index" ?v] i by simp
  have wr': "ring_drains (slot_wr ?X ?i v) (slot_wr y ?i v)" if "ring_drains ?X y" for y v
    by (rule ring_drains_write [OF that, of "unat index"]) (use x i e in simp_all)
  obtain x1 r t1 where bytes:
    "mut_bytes_at b ?X (frames s) (?i AND mod_mask (x_ring s)) len = (x1, r :: (ring_error, slice) res)"
    "mut_bytes_at_shared ?K b (t0\<lparr>x_ring := slot_wr (x_ring t0) ?i ?v\<rparr>) (?i AND mod_mask (x_ring s)) len = (t1, r)"
    "kernel_may (s\<lparr>x_ring := x1\<rparr>) t1"
  proof (rule tx_side.mut_bytes_at_same [OF m1 [unfolded kernel_may_def] follows_shift [OF K [unfolded follows_protocol_def]],
      where i = ?i and len = len and b = b and ix = "?i AND mod_mask (x_ring s)"])
    fix x' r t'
    assume "mut_bytes_at b (x_ring (s\<lparr>x_ring := ?X\<rparr>)) (frames (s\<lparr>x_ring := ?X\<rparr>)) (?i AND mod_mask (x_ring s)) len = (x', r :: (ring_error, slice) res)"
      "mut_bytes_at_shared ?K b (t0\<lparr>x_ring := slot_wr (x_ring t0) ?i ?v\<rparr>) (?i AND mod_mask (x_ring s)) len = (t', r)"
      "moves_between ring_drains ring_grows (s\<lparr>x_ring := ?X, x_ring := x'\<rparr>) t'"
    then show thesis by (intro that [of x' r t']) (simp_all add: kernel_may_def)
  qed (use x wr' in \<open>simp_all add: ring_drainsD(3)\<close>)
  have "peek_tx b s index len = (s\<lparr>x_ring := x1\<rparr>, r)"
    using lim bytes(1) by (simp add: peek_tx_def frame_size_def mut_desc_at_ok x Let_def)
  moreover have "peek_tx_shared K b t index len = (t1, r)"
    using lim bytes(2) wr kernel_mayD(4,5) [OF may]
    by (simp add: peek_tx_shared_def frame_size_def Let_def t0_def [symmetric] mask)
  ultimately show ?thesis using bytes(3) by simp
qed

section \<open>Committing\<close>

lemma commit_tx_shared_same:
  assumes room: "tx_room s" and may: "kernel_may s t" and K: "follows_protocol K" and b: "safety_checks b"
  shows "snd (commit_tx_shared K b t n) = snd (commit_tx b s n) \<and>
    kernel_may (fst (commit_tx b s n)) (fst (commit_tx_shared K b t n))"
proof (cases "available s < ucast n")
  case True
  then show ?thesis
    using may b kernel_mayD(5) [OF may] by (simp add: commit_tx_def commit_tx_shared_def)
next
  case False
  let ?p = "producer s + ucast n" and ?a = "available s - ucast n" and ?m = "unat (ucast n :: u32)"
  have n: "ucast n \<le> available s" using False by simp
  then have m: "?m \<le> unat (available s)" by (simp only: word_le_nat_alt)
  define t1 where "t1 = kmove K 0 (t\<lparr>available := ?a, producer := ?p\<rparr>)"
  have m1: "kernel_may (s\<lparr>available := ?a, producer := ?p\<rparr>) t1"
    unfolding t1_def by (rule kernel_may_kmove [OF _ K]) (rule kernel_may_local(2) [OF kernel_may_local(3) [OF may]])
  have "ring_drains (set_prod (x_ring s) ?p) (set_prod (x_ring t1) ?p)"
    using ring_drains_publish [of "x_ring s" "x_ring t1" ?m ?p] kernel_mayD(6) [OF m1] tx_roomD(3,4,6) [OF room] room m
    by (simp add: tx_room_def)
  from kernel_may_x [OF m1 this]
  have may': "kernel_may (s\<lparr>available := ?a, producer := ?p, x_ring := set_prod (x_ring s) ?p\<rparr>) (t1\<lparr>x_ring := set_prod (x_ring t1) ?p\<rparr>)"
    by simp
  have "commit_tx_shared K b t n = (t1\<lparr>x_ring := set_prod (x_ring t1) ?p\<rparr>, Ok ())"
    using n kernel_mayD(1,4) [OF m1] kernel_mayD(4,5) [OF may]
    by (simp add: commit_tx_shared_def not_less t1_def [symmetric] accessors_ok Let_def)
  then show ?thesis
    unfolding commit_tx_ok [OF tx_roomD(1) [OF room] n, of b] using may' by (simp only: fst_conv snd_conv simp_thms)
qed

section \<open>Whole calls\<close>

lemma tx_room_peek:
  assumes "tx_room s"
  shows "tx_room (fst (peek_tx b s index len))"
proof -
  have "same_addrs s (fst (peek_tx b s index len))" using peek_tx_same_addrs tx_roomD(4) [OF assms] .
  then show ?thesis using assms by (auto simp: tx_room_def tx_shape_def same_addrs_def queued_count_def pending_def)
qed

lemma send_shared_same:
  assumes room: "tx_room s" and K: "follows_protocol K1" "follows_protocol K2" and b: "safety_checks b"
  shows "snd (send_shared K1 K2 b (s, mem) data header) = snd (send b (s, mem) data header) \<and>
    snd (fst (send_shared K1 K2 b (s, mem) data header)) = snd (fst (send b (s, mem) data header)) \<and>
    kernel_may (fst (fst (send b (s, mem) data header))) (fst (fst (send_shared K1 K2 b (s, mem) data header)))"
proof -
  have may: "kernel_may s s" using tx_roomD(4,5) [OF room] by (rule kernel_may_refl)
  let ?l = "of_nat (length data) + of_nat (case header of None \<Rightarrow> 0 | Some h \<Rightarrow> length h) :: usize"
  obtain s1 r1 where p: "peek_tx b s 0 ?l = (s1, r1)" by fastforce
  obtain t1 r1' where p': "peek_tx_shared K1 b s 0 ?l = (t1, r1')" by fastforce
  have 1: "r1' = r1" "kernel_may s1 t1" using peek_tx_shared_same [OF room may K(1) b, of 0 ?l] p p' by simp_all
  have room1: "tx_room s1" using tx_room_peek [OF room, of b 0 ?l] p by simp
  obtain s2 r2 where c: "commit_tx b s1 1 = (s2, r2)" by fastforce
  obtain t2 r2' where c': "commit_tx_shared K2 b t1 1 = (t2, r2')" by fastforce
  have 2: "r2' = r2" "kernel_may s2 t2" using commit_tx_shared_same [OF room1 1(2) K(2) b, of 1] c c' by simp_all
  show ?thesis
    using may 1 2
    by (simp add: send_def send_shared_def Let_def add_chk_def peek_tx_0_def socket_commit_def p p' c c' split: try_in_split)
qed

lemma seek_and_peek_tx_shared_same:
  assumes inv: "pool_inv N P w" and K: "follows_protocol K1" "follows_protocol K2" and b: "safety_checks b"
  shows "snd (seek_and_peek_tx_shared K1 K2 b (w_sock w) len) = snd (seek_and_peek_tx b (w_sock w) len) \<and>
    kernel_may (fst (seek_and_peek_tx b (w_sock w) len)) (fst (seek_and_peek_tx_shared K1 K2 b (w_sock w) len))"
proof -
  obtain s1 r1 where s: "seek_tx b (w_sock w) 1 = (s1, r1)" by fastforce
  obtain t1 r1' where t: "seek_shared K1 b (w_sock w) 1 = (t1, r1')" by fastforce
  have 1: "r1' = r1" "kernel_may s1 t1" using seek_shared_same [OF tx_room_inv [OF inv] K(1), of b 1] s t by simp_all
  have "tx_room s1" using tx_room_inv [OF seek_pool_inv [OF inv, of b 1]] s by simp
  note 2 = peek_tx_shared_same [OF this 1(2) K(2) b, of 0 len]
  show ?thesis using 1 2 by (cases r1) (simp_all add: seek_and_peek_tx_def seek_and_peek_tx_shared_def s t)
qed

text \<open>
  Every call that the kernel interrupts returns what it would return, leaves the memory that it would leave, and a socket
  that the kernel could have reached by moving after the call.
\<close>

lemma tx_call_shared_same:
  assumes inv: "pool_inv N P w" and K: "follows_protocol K1" "follows_protocol K2" and b: "safety_checks b"
    and c: "tx_call b op (w_sock w) (w_mem w) = (s', mem', r)"
  shows "\<exists>t. tx_call_shared K1 K2 b op (w_sock w) (w_mem w) = (t, mem', r) \<and> kernel_may s' t"
proof -
  let ?s = "w_sock w"
  have room: "tx_room ?s" by (rule tx_room_inv [OF inv])
  have may: "kernel_may ?s ?s" using tx_roomD(4,5) [OF room] by (rule kernel_may_refl)
  show ?thesis
  proof (cases op)
    case (OpSeek n)
    then show ?thesis using seek_shared_same [OF room K(1), of b n] c
      by (auto simp: tx_call_def Let_def socket_seek_n_def split: prod.splits)
  next
    case (OpPeekAt i len)
    then show ?thesis using peek_tx_shared_same [OF room may K(1) b, of i len] c
      by (auto simp: tx_call_def Let_def peek_at_tx_def split: prod.splits)
  next
    case (OpSeekAndPeek len)
    then show ?thesis using seek_and_peek_tx_shared_same [OF inv K b, of len] c
      by (auto simp: tx_call_def Let_def split: prod.splits)
  next
    case (OpCommit n)
    then show ?thesis using commit_tx_shared_same [OF room may K(1) b, of n] c
      by (auto simp: tx_call_def Let_def socket_commit_n_def split: prod.splits)
  next
    case (OpSend data header)
    then show ?thesis using send_shared_same [OF room K b, of "w_mem w" data header] c
      by (auto simp: tx_call_def Let_def split: prod.splits)
  next
    case (OpWrite i len start bs)
    then show ?thesis using peek_tx_shared_same [OF room may K(1) b, of i len] c
      by (auto simp: tx_call_def Let_def peek_at_tx_def split: prod.splits res.splits)
  qed
qed

section \<open>A kernel that does nothing\<close>

lemma no_moves_follows: "follows_protocol no_moves"
  by (simp add: follows_protocol_def follows_def tx_side.may_refl)

lemma seek_shared_loop_alone: "seek_shared_loop no_moves b cp n i s = seek_tx_loop b cp n s"
proof (induction b cp n s arbitrary: i rule: seek_tx_loop.induct)
  case (1 b cp n s)
  then show ?case
    by (subst seek_shared_loop.simps, subst seek_tx_loop.simps) (auto simp: Let_def split: try_in_split intro!: 1 [OF _ refl refl _ refl _ refl _ refl])
qed

lemma tx_call_alone: "tx_call_shared no_moves no_moves b op s mem = tx_call b op s mem"
proof -
  have seek: "seek_shared no_moves b s n = seek_tx b s n" for s n
    by (simp add: seek_shared_def seek_tx_def seek_shared_loop_alone cong: if_cong)
  have peek: "peek_tx_shared no_moves b s i len = peek_tx b s i len" for s i len
    by (simp add: peek_tx_shared_def peek_tx_def Let_def no_moves_shift mut_bytes_at_alone)
  have commit: "commit_tx_shared no_moves b s n = commit_tx b s n" for s n
    by (simp add: commit_tx_shared_def commit_tx_def Let_def)
  show ?thesis
    by (cases op) (auto simp: tx_call_def Let_def seek peek commit socket_seek_n_def peek_at_tx_def socket_commit_n_def
        seek_and_peek_tx_shared_def seek_and_peek_tx_def send_shared_def send_def peek_tx_0_def socket_commit_def
        split: prod.splits res.splits cong: option.case_cong)
qed

section \<open>Histories\<close>

text \<open>A call that is not interrupted, as a step with its result.\<close>

definition tx_atomic ::
  "(tx_op \<Rightarrow> socket \<Rightarrow> bool) \<Rightarrow> build \<Rightarrow> tx_op \<Rightarrow> tx_world \<Rightarrow> call_result \<Rightarrow> tx_world \<Rightarrow> bool" where
  "tx_atomic A b op w r w' \<longleftrightarrow> A op (w_sock w) \<and> r = tx_result b op w \<and> w' = tx_apply b op w"

text \<open>
  A call during which the kernel moves as the protocol allows it. The kernel keeps its own account: what it holds afterwards, with the
  frames that it has added to the Completion ring meanwhile, is what it held before, with those that it has taken from the TX ring
  meanwhile. Nothing is said of the frames of the application.
\<close>

definition kernel_accounts :: "tx_world \<Rightarrow> tx_world \<Rightarrow> bool" where
  "kernel_accounts w w' \<longleftrightarrow>
     w_held w' + mset (ring_added (u_ring (w_sock w)) (u_ring (w_sock w'))) =
     w_held w + mset (map d_addr (ring_taken (x_ring (w_sock w)) (x_ring (w_sock w'))))"

definition tx_interrupted ::
  "(tx_op \<Rightarrow> socket \<Rightarrow> bool) \<Rightarrow> build \<Rightarrow> tx_op \<Rightarrow> tx_world \<Rightarrow> call_result \<Rightarrow> tx_world \<Rightarrow> bool" where
  "tx_interrupted A b op w r w' \<longleftrightarrow> A op (w_sock w) \<and> kernel_accounts w w' \<and>
     (\<exists>K1 K2. follows_protocol K1 \<and> follows_protocol K2 \<and>
        tx_call_shared K1 K2 b op (w_sock w) (w_mem w) = (w_sock w', w_mem w', r))"

lemma tx_call_apply:
  "tx_call b op (w_sock w) (w_mem w) = (w_sock (tx_apply b op w), w_mem (tx_apply b op w), tx_result b op w)"
  by (cases op) (auto simp: tx_call_def Let_def split: prod.split res.split)

text \<open>No call moves the indices of the kernel.\<close>

lemma tx_apply_kernel_ix:
  assumes "pool_inv N P w" "safety_checks b"
  shows "cons_ix (x_ring (w_sock (tx_apply b op w))) = cons_ix (x_ring (w_sock w)) \<and>
    prod_ix (u_ring (w_sock (tx_apply b op w))) = prod_ix (u_ring (w_sock w))"
proof -
  let ?same = "\<lambda>v. pool_inv N P v \<and> cons_ix (x_ring (w_sock v)) = cons_ix (x_ring (w_sock w)) \<and>
    prod_ix (u_ring (w_sock v)) = prod_ix (u_ring (w_sock w))"
  have seek: "?same (v\<lparr>w_sock := fst (seek_tx b (w_sock v) n)\<rparr>)" if "?same v" for v n
  proof -
    note inv = conjunct1 [OF that]
    have "fst (seek_tx b (w_sock v) n) = w_sock v \<or> (\<exists>k. fst (seek_tx b (w_sock v) n) = reclaimed k (w_sock v))"
      using seek_tx_empty [OF pool_inv_wf [OF inv], of n b] seek_tx_reclaims [OF pool_inv_wf [OF inv] _ _ refl, of n b]
      by (cases "n \<le> ucast (available (w_sock v))"; cases "pending (w_sock v) = 0") (auto simp: seek_tx_hit)
    then show ?thesis using that seek_pool_inv [OF inv, of b n] by (auto simp: reclaimed_def)
  qed
  have peek: "?same (v\<lparr>w_sock := fst (peek_tx b (w_sock v) i len)\<rparr>)" if "?same v" for v i len
  proof -
    note inv = conjunct1 [OF that]
    have "same_addrs (w_sock v) (fst (peek_tx b (w_sock v) i len))"
      by (rule peek_tx_same_addrs) (use inv in \<open>simp add: pool_inv_def tx_shape_def\<close>)
    then show ?thesis using that peek_pool_inv [OF inv, of b i len] by (auto simp: same_addrs_def)
  qed
  have commit: "?same (v\<lparr>w_sock := fst (commit_tx b (w_sock v) n)\<rparr>)" if "?same v" for v n
  proof (cases "available (w_sock v) < ucast n")
    case True
    then show ?thesis using that assms(2) tx.commit_refused [of b "w_sock v" n] by simp
  next
    case False
    then show ?thesis
      using that assms(2) commit_pool_inv [OF conjunct1 [OF that], of b n]
        commit_tx_ok [OF pool_inv_wf [OF conjunct1 [OF that]], of n b] by simp
  qed
  have "?same (tx_apply b op w)"
    by (rule tx_apply_keeps [where P = ?same]) (use assms seek peek commit in simp_all)
  then show ?thesis by simp
qed

text \<open>Seen from the state that the call would have left, the moves inside the call are a move of \<open>Tx_Protocol\<close>.\<close>

lemma tx_rely_of_account:
  assumes may: "kernel_may (w_sock v) (w_sock w')" and shape: "tx_shape (w_sock v)"
    and ix: "cons_ix (x_ring (w_sock v)) = cons_ix (x_ring (w_sock w))" "prod_ix (u_ring (w_sock v)) = prod_ix (u_ring (w_sock w))"
    and held: "w_held v = w_held w" and acc: "kernel_accounts w w'"
  shows "tx_rely v w'"
proof -
  let ?s = "w_sock v" and ?s' = "w_sock w'"
  note D = kernel_mayD [OF may]
  obtain k where k: "k \<le> length (entries (x_ring ?s))" "entries (x_ring ?s') = drop k (entries (x_ring ?s))"
      "ring_taken (x_ring ?s) (x_ring ?s') = take k (entries (x_ring ?s))"
    using ring_drains_taken [OF D(6)] by blast
  let ?cs = "ring_added (u_ring ?s) (u_ring ?s')"
  have shape': "tx_shape ?s'" using D shape by (simp add: tx_shape_def ring_drains_def ring_grows_def)
  have q: "k \<le> queued_count ?s" "queued_frames ?s' = drop k (queued_frames ?s)" "completed_frames ?s' = completed_frames ?s @ ?cs"
    using k(1,2) ring_grows_added [OF D(7)] frames_of_entries [OF shape] frames_of_entries [OF shape'] length_frames(2) [of ?s]
    by (simp_all add: drop_map)
  have "w_held w' + mset ?cs = w_held v + mset (map d_addr (take k (entries (x_ring ?s))))"
    using acc k(3) by (simp add: kernel_accounts_def held ring_taken_def ring_added_def ix)
  then have "w_held w' + mset ?cs = w_held v + mset (take k (queued_frames ?s))"
    using frames_of_entries(1) [OF shape] by (simp add: take_map)
  then show ?thesis
    using D q shape shape' kernel_may_frames [OF may]
    by (auto simp: tx_rely_def Let_def ring_drains_def ring_grows_def tx_shape_def)
qed

interpretation tx_lin: atomic_calls "\<lambda>w. safety_checks b \<and> pool_inv N P w" tx_rely "tx_atomic A b" "tx_interrupted A b"
  for A N P b
proof unfold_locales
  fix op w r w'
  assume w: "safety_checks b \<and> pool_inv N P w"
  then have inv: "pool_inv N P w" and b: "safety_checks b" by simp_all
  let ?v = "tx_apply b op w"
  note ix = tx_apply_kernel_ix [OF inv b, of op]
  have v: "pool_inv N P ?v" by (rule tx_apply_pool_inv [OF inv b])
  show "safety_checks b \<and> pool_inv N P w'" if "tx_rely w w'"
    using w tx_rely_pool_inv [OF inv that] by simp
  show "safety_checks b \<and> pool_inv N P w'" if "tx_atomic A b op w r w'"
    using w v that by (simp add: tx_atomic_def)
  show "\<exists>v. tx_atomic A b op w r v \<and> tx_rely v w'" if "tx_interrupted A b op w r w'"
  proof -
    note call = that [unfolded tx_interrupted_def]
    then obtain K1 K2 where i: "follows_protocol K1" "follows_protocol K2"
      "tx_call_shared K1 K2 b op (w_sock w) (w_mem w) = (w_sock w', w_mem w', r)" by blast
    obtain t where "tx_call_shared K1 K2 b op (w_sock w) (w_mem w) = (t, w_mem ?v, tx_result b op w)" "kernel_may (w_sock ?v) t"
      using tx_call_shared_same [OF inv i(1,2) b tx_call_apply] by blast
    then have "kernel_may (w_sock ?v) (w_sock w')" "r = tx_result b op w" using i(3) by simp_all
    moreover have "tx_shape (w_sock ?v)" using v by (simp add: pool_inv_def)
    ultimately show ?thesis
      using call tx_rely_of_account [of ?v w' w] ix by (auto simp: tx_atomic_def)
  qed
  show "tx_interrupted A b op w r w'" if "tx_atomic A b op w r w'"
  proof -
    have "kernel_accounts w w'"
      using that ix by (simp add: tx_atomic_def kernel_accounts_def ring_taken_def ring_added_def)
    moreover have "tx_call_shared no_moves no_moves b op (w_sock w) (w_mem w) = (w_sock w', w_mem w', r)"
      using that by (simp add: tx_call_alone tx_call_apply tx_atomic_def)
    ultimately show ?thesis using that no_moves_follows by (auto simp: tx_interrupted_def tx_atomic_def)
  qed
qed

lemma single_frame_history:
  assumes "history_run tx_rely (tx_atomic single_frame b) w0 h w" "safety_checks b" "tx_inv pool w0"
  shows "tx_inv pool w"
  using assms(1,3)
proof (induction rule: history_run.induct)
  case (run_env h w w')
  then show ?case using tx_rely_inv by blast
next
  case (run_call h w op r w')
  then show ?case using tx_apply_inv [OF _ assms(2)] by (auto simp: tx_atomic_def)
qed

text \<open>
  C11. The transmit calls are atomic although the kernel moves while they run: from any state whose descriptors add up, for a client
  that may make any calls or only those of a rule \<open>A\<close>, and with any moves of the protocol before every access to shared memory inside
  \<^verbatim>\<open>seek_n\<close>, \<^verbatim>\<open>peek_at\<close>, \<^verbatim>\<open>seek_and_peek\<close>, \<^verbatim>\<open>commit_n\<close> and \<^verbatim>\<open>send\<close>, the histories of calls with their results, and the
  states at their ends, are exactly those of runs in which the kernel moves only between the calls. Of the kernel it is assumed that it
  only completes frames that it holds or has taken. If \<open>A\<close> is \<open>single_frame\<close>, no frame of the application is lost or doubled by the
  interruptions either.
\<close>

theorem tx_calls_linearize:
  assumes "safety_checks b" "tx_shape (w_sock w0)" "size (all_frames w0) = ring_cap (x_ring (w_sock w0))"
  shows "history_run tx_rely (tx_interrupted A b) w0 h w = history_run tx_rely (tx_atomic A b) w0 h w \<and>
    (A = single_frame \<longrightarrow> history_run tx_rely (tx_interrupted A b) w0 h w \<longrightarrow> all_frames w = all_frames w0)"
proof -
  have "safety_checks b \<and> pool_inv (ring_cap (x_ring (w_sock w0))) UNIV w0" using assms by (simp add: pool_inv_def)
  note same = tx_lin.same_runs [OF this]
  obtain pool where pool: "mset pool = all_frames w0" by (metis ex_mset)
  then have "tx_inv pool w0" using assms(2,3) by (metis tx_inv_def size_mset)
  then have "all_frames w = all_frames w0" if "history_run tx_rely (tx_interrupted single_frame b) w0 h w"
    using that same single_frame_history [OF _ assms(1)] pool by (metis tx_inv_def)
  then show ?thesis using same by blast
qed

text \<open>A kernel that takes and completes a queued packet before the first access.\<close>

definition loopback_move :: kernel_moves where
  "loopback_move i p =
     (case p of (x, u) \<Rightarrow>
      if i = 0 \<and> cons_ix x \<noteq> prod_ix x \<and> unat (prod_ix u - cons_ix u) < ring_cap u
      then (set_cons x (cons_ix x + 1), set_prod (slot_wr u (prod_ix u) (d_addr (slot_rd x (cons_ix x)))) (prod_ix u + 1))
      else (x, u))"

lemma loopback_move_follows: "follows_protocol loopback_move"
  unfolding follows_protocol_def follows_def
proof (intro allI impI)
  fix i and s :: socket
  assume x: "ring_ok (x_ring s)" and u: "ring_ok (u_ring s)"
  let ?a = "d_addr (slot_rd (x_ring s) (cons_ix (x_ring s)))"
  have "ring_grows (u_ring s) (set_prod (slot_wr (u_ring s) (prod_ix (u_ring s)) ?a) (prod_ix (u_ring s) + 1))"
    if "unat (prod_ix (u_ring s) - cons_ix (u_ring s)) < ring_cap (u_ring s)"
    using rings.entries_push [OF u that refl, of ?a] u by (simp add: ring_grows_def entries_def)
  moreover have "ring_drains (x_ring s) (set_cons (x_ring s) (cons_ix (x_ring s) + 1))" if "cons_ix (x_ring s) \<noteq> prod_ix (x_ring s)"
    using that by (intro ring_drains_take x)
  ultimately show "moves_between ring_drains ring_grows s (kmove loopback_move i s)"
    using x u by (intro moves_betweenI [where x = "x_ring (kmove loopback_move i s)" and u = "u_ring (kmove loopback_move i s)"])
      (auto simp: kmove_def loopback_move_def ring_drains_refl ring_grows_refl)
qed

definition small_tx_world :: tx_world where
  "small_tx_world = \<lparr>w_sock = small_tx, w_mem = [], w_held = {#}\<rparr>"

lemma small_tx_frames: "all_frames small_tx_world = {#0, 2048, 4096, 6144#}"
  by (simp add: all_frames_def small_tx_world_def app_frames_def queued_frames_def completed_frames_def
      queued_count_def pending_def small_tx_def window_numeral window_Cons slot_rd_def)

theorem tx_calls_linearize_witness:
  "\<exists>w. history_run tx_rely (tx_interrupted single_frame sample_build) small_tx_world [(OpCommit 1, UnitResult (Ok ()))] w \<and>
     history_run tx_rely (tx_atomic single_frame sample_build) small_tx_world [(OpCommit 1, UnitResult (Ok ()))] w \<and>
     pending (w_sock w) = 2 \<and> all_frames w = {#0, 2048, 4096, 6144#}"
proof -
  let ?x = "x_ring small_tx" and ?u = "u_ring small_tx"
  define t where "t = small_tx\<lparr>x_ring := set_prod (set_cons ?x 2) 3, u_ring := set_prod (slot_wr ?u 1 2048) 2,
    available := 1, producer := 3\<rparr>"
  have t: "commit_tx_shared loopback_move sample_build small_tx 1 = (t, Ok ())"
    by (simp add: commit_tx_shared_def t_def small_tx_def accessors_ok kmove_def loopback_move_def Let_def slot_rd_def)
  define w where "w = \<lparr>w_sock = t, w_mem = [], w_held = {#}\<rparr>"
  have "ring_added ?u (u_ring t) = [2048]" "map d_addr (ring_taken ?x (x_ring t)) = [2048]" "pending t = 2"
    by (simp_all add: ring_added_def ring_taken_def t_def small_tx_def pending_def window_Cons slot_rd_wr) (simp_all add: slot_rd_def)
  then have acc: "kernel_accounts small_tx_world w" and p: "pending t = 2"
    by (simp_all add: kernel_accounts_def small_tx_world_def w_def)
  have "tx_interrupted single_frame sample_build (OpCommit 1) small_tx_world (UnitResult (Ok ())) w"
    using loopback_move_follows t acc
    by (auto simp: tx_interrupted_def small_tx_world_def w_def)
  from run_call [where call = "tx_interrupted single_frame sample_build", OF run_start this]
  have run: "history_run tx_rely (tx_interrupted single_frame sample_build) small_tx_world [(OpCommit 1, UnitResult (Ok ()))] w" by simp
  moreover have "tx_shape (w_sock small_tx_world)" "size (all_frames small_tx_world) = ring_cap (x_ring (w_sock small_tx_world))"
    unfolding small_tx_frames by (simp_all add: small_tx_world_def small_tx_def tx_shape_def)
  ultimately show ?thesis
    using tx_calls_linearize [of sample_build small_tx_world single_frame "[(OpCommit 1, UnitResult (Ok ()))]" w] small_tx_frames p
    by (auto simp: w_def)
qed

end
