(* ===== verification/Commit_Shared.thy ===== *)
theory Commit_Shared
  imports Rx_Protocol Shared_Rings
begin

unbundle bit_operations_syntax

text \<open>
  The receive \<^verbatim>\<open>commit_\<close> while the kernel moves: the same code as \<open>commit_rx\<close>, with a move of the kernel before every
  access to shared memory. The kernel delivers packets into the RX ring and takes frames from the Fill ring
  meanwhile; the call is atomic all the same.
\<close>

section \<open>The code with moves of the kernel\<close>

fun commit_shared_loop ::
  "kernel_moves \<Rightarrow> build \<Rightarrow> nat \<Rightarrow> nat \<Rightarrow> socket \<Rightarrow> socket \<times> (ring_error, unit) res"
where
  "commit_shared_loop K b 0 i s = (s, Ok ())"
| "commit_shared_loop K b (Suc k) i s =
     (let s0 = kmove K i s
      in try_in s0 (desc_at b (x_ring s0) (consumer s0 AND mod_mask (x_ring s0))) (\<lambda>d.
     let s1 = kmove K (i + 1) s0
     in try_in s1 (mut_desc_at b (u_ring s1) (producer s1 AND mod_mask (x_ring s1)) (\<lambda>_. d_addr d)) (\<lambda>f_ring.
     commit_shared_loop K b k (i + 2)
       (s1\<lparr>u_ring := f_ring, consumer := consumer s1 + 1, producer := producer s1 + 1\<rparr>))))"

definition commit_shared :: "kernel_moves \<Rightarrow> commit_impl" where
  "commit_shared K b s n =
     (if safety_checks b \<and> available s < ucast n then (s, Err NotAvailable)
      else let m = unat (ucast n :: u32)
      in and_then (commit_shared_loop K b m 0 s) (\<lambda>_ s1.
        try_in s1 (sub_chk b (available s1) (ucast n)) (\<lambda>a.
        let s2 = kmove K (2 * m) (s1\<lparr>available := a\<rparr>)
        in try_in s2 (update_consumer (x_ring s2) (consumer s2)) (\<lambda>x.
        let s3 = kmove K (2 * m + 1) (s2\<lparr>x_ring := x\<rparr>)
        in try_in s3 (update_producer (u_ring s3) (producer s3)) (\<lambda>f.
        (s3\<lparr>u_ring := f\<rparr>, Ok ()))))))"

text \<open>The kernel fills the RX ring and empties the Fill ring.\<close>

definition rx_kernel_may :: "socket \<Rightarrow> socket \<Rightarrow> bool" where
  "rx_kernel_may = moves_between ring_grows ring_drains"

definition rx_follows_protocol :: "kernel_moves \<Rightarrow> bool" where
  "rx_follows_protocol K \<longleftrightarrow> follows ring_grows ring_drains K"

lemma rx_kernel_mayD:
  assumes "rx_kernel_may s t"
  shows "ring_ok (x_ring t)" "ring_ok (u_ring t)" "consumer t = consumer s" "producer t = producer s"
    "available t = available s" "ring_grows (x_ring s) (x_ring t)" "ring_drains (u_ring s) (u_ring t)"
    "ring_cap (x_ring t) = ring_cap (x_ring s)" "ring_cap (u_ring t) = ring_cap (u_ring s)"
  using moves_betweenD [OF assms [unfolded rx_kernel_may_def]] rx_side.may_ok assms
  by (simp_all add: rx_kernel_may_def ring_grows_def ring_drains_def)

lemmas rx_kernel_may_refl = rx_side.may_refl [folded rx_kernel_may_def]
lemmas rx_kernel_may_kmove = rx_side.may_kmove [folded rx_kernel_may_def rx_follows_protocol_def]
lemmas rx_kernel_may_local = moves_local [of ring_grows ring_drains, folded rx_kernel_may_def]
lemmas rx_kernel_may_x = moves_x [of ring_grows ring_drains, folded rx_kernel_may_def]
lemmas rx_kernel_may_u = moves_u [of ring_grows ring_drains, folded rx_kernel_may_def]

section \<open>The loop\<close>

text \<open>
  In the middle of a commit \<open>j\<close> frames are copied and \<open>k\<close> are left: the local indices are \<open>j\<close> ahead of the
  published ones, and the Fill ring has room.
\<close>

definition commit_room :: "nat \<Rightarrow> nat \<Rightarrow> socket \<Rightarrow> bool" where
  "commit_room j k s \<longleftrightarrow> rings_rx s \<and>
     consumer s = cons_ix (x_ring s) + of_nat j \<and> producer s = prod_ix (u_ring s) + of_nat j \<and>
     j + k \<le> length (entries (x_ring s)) \<and> length (entries (u_ring s)) + j + k \<le> ring_cap (u_ring s)"

lemma commit_rx_loop_step:
  assumes "rings_rx s"
  shows "commit_rx_loop b (Suc k) s = commit_rx_loop b k
    (s\<lparr>u_ring := slot_wr (u_ring s) (producer s) (d_addr (slot_rd (x_ring s) (consumer s))),
       consumer := consumer s + 1, producer := producer s + 1\<rparr>)"
proof -
  have "mod_mask (x_ring s) = mod_mask (u_ring s)" using rings_rxD(4) [OF assms] by simp
  then have "mut_desc_at b (u_ring s) (producer s AND mod_mask (x_ring s)) (\<lambda>_. d_addr (slot_rd (x_ring s) (consumer s))) =
      (Ok (slot_wr (u_ring s) (producer s) (d_addr (slot_rd (x_ring s) (consumer s)))) :: (ring_error, u64 ring) res)"
    by (simp add: mut_desc_at_ok rings_rxD(2) [OF assms])
  then show ?thesis by (simp add: desc_at_ok rings_rxD [OF assms])
qed

lemma commit_room_step:
  assumes "commit_room j (Suc k) s"
  shows "commit_room (Suc j) k
    (s\<lparr>u_ring := slot_wr (u_ring s) (producer s) v, consumer := consumer s + 1, producer := producer s + 1\<rparr>)"
proof -
  have "ring_ok (u_ring s)" using assms by (simp add: commit_room_def rings_rx_def)
  then have "entries (slot_wr (u_ring s) (producer s) v) = entries (u_ring s)"
    using entries_write [of "u_ring s" "length (entries (u_ring s))" j v] assms by (simp add: commit_room_def)
  then show ?thesis using assms by (simp add: commit_room_def rings_rx_def)
qed

lemma commit_shared_round:
  assumes room: "commit_room j (Suc k) s" and may: "rx_kernel_may s t" and K: "rx_follows_protocol K"
  shows "\<exists>t'. commit_shared_loop K b (Suc k) i t = commit_shared_loop K b k (i + 2) t' \<and>
    rx_kernel_may (s\<lparr>u_ring := slot_wr (u_ring s) (producer s) (d_addr (slot_rd (x_ring s) (consumer s))),
       consumer := consumer s + 1, producer := producer s + 1\<rparr>) t'"
proof -
  let ?v = "d_addr (slot_rd (x_ring s) (consumer s))"
  define t0 where "t0 = kmove K i t"
  define t1 where "t1 = kmove K (i + 1) t0"
  have m0: "rx_kernel_may s t0" unfolding t0_def by (rule rx_kernel_may_kmove [OF may K])
  have m1: "rx_kernel_may s t1" unfolding t1_def by (rule rx_kernel_may_kmove [OF m0 K])
  have s: "rings_rx s" "ring_ok (u_ring s)" "consumer s = cons_ix (x_ring s) + of_nat j"
    "producer s = prod_ix (u_ring s) + of_nat j" "j < length (entries (x_ring s))"
    "length (entries (u_ring s)) + j < ring_cap (u_ring s)"
    using room by (simp_all add: commit_room_def rings_rx_def)
  have v: "slot_rd (x_ring t0) (consumer s) = slot_rd (x_ring s) (consumer s)"
    using ring_grows_entry [OF rx_kernel_mayD(6) [OF m0] s(5)] by (simp add: s(3))
  have mask: "mod_mask (x_ring t1) = mod_mask (u_ring t1)"
    using rx_kernel_mayD(1,2,8,9) [OF m1] s(1) by (simp add: rings_rx_def ring_okD(4))
  have "ring_drains (slot_wr (u_ring s) (producer s) ?v) (slot_wr (u_ring t1) (producer s) ?v)"
    by (rule ring_drains_write [OF rx_kernel_mayD(7) [OF m1] s(2,6,4)])
  from rx_kernel_may_u [OF m1 this]
  have "rx_kernel_may (s\<lparr>u_ring := slot_wr (u_ring s) (producer s) ?v, consumer := consumer s + 1, producer := producer s + 1\<rparr>)
      (t1\<lparr>u_ring := slot_wr (u_ring t1) (producer s) ?v, consumer := consumer s + 1, producer := producer s + 1\<rparr>)"
    using rx_kernel_may_local(1,2) by blast
  moreover have "commit_shared_loop K b (Suc k) i t = commit_shared_loop K b k (i + 2)
      (t1\<lparr>u_ring := slot_wr (u_ring t1) (producer s) ?v, consumer := consumer s + 1, producer := producer s + 1\<rparr>)"
    using rx_kernel_mayD(1-4) [OF m0] rx_kernel_mayD(2-4) [OF m1] v
    by (simp add: t0_def [symmetric] t1_def [symmetric, simplified] desc_at_ok mask mut_desc_at_ok Let_def)
  ultimately show ?thesis by blast
qed

lemma commit_shared_loop_follows:
  assumes "commit_room j k s" "rx_kernel_may s t" "rx_follows_protocol K"
  shows "\<exists>t'. commit_shared_loop K b k i t = (t', Ok ()) \<and> rx_kernel_may (fst (commit_rx_loop b k s)) t'"
  using assms(1,2)
proof (induction k arbitrary: i j s t)
  case 0
  then show ?case by simp
next
  case (Suc k)
  have "rings_rx s" using Suc.prems(1) by (simp add: commit_room_def)
  then show ?case
    using commit_shared_round [OF Suc.prems assms(3), of b i] commit_rx_loop_step [of s b k]
      Suc.IH [OF commit_room_step [OF Suc.prems(1)]] by metis
qed

section \<open>The call is atomic\<close>

text \<open>In a state of a run the Fill ring has room for every frame.\<close>

definition rx_room :: "socket \<Rightarrow> bool" where
  "rx_room s \<longleftrightarrow> rx_shape s \<and> free_count s + received s \<le> ring_cap (x_ring s)"

lemma rx_room_inv: "rx_inv pool w \<Longrightarrow> rx_room (rw_sock w)"
  using rx_inv_count [of pool w] by (simp add: rx_inv_def rx_room_def)

lemma rx_room_commit:
  assumes "rx_room s" "m \<le> received s"
  shows "commit_room 0 m s"
  using assms by (auto simp: rx_room_def rx_shape_def commit_room_def entries_def received_def free_count_def rings_rx_def)

text \<open>The two stores that publish what the loop has done.\<close>

lemma commit_shared_publish:
  assumes room: "commit_room 0 m s" and m: "m = unat (ucast n :: u32)" "ucast n \<le> available s" and K: "rx_follows_protocol K"
    and loop: "commit_shared_loop K b m 0 s = (t, Ok ())" "rx_kernel_may (fst (commit_rx_loop b m s)) t"
    and b: "safety_checks b"
  shows "\<exists>t'. commit_shared K b s n = (t', Ok ()) \<and> rx_kernel_may (released (ucast n) s) t'"
proof -
  have s: "rings_rx s" "consumer s = cons_ix (x_ring s)" "producer s = prod_ix (u_ring s)"
    "m \<le> length (entries (x_ring s))" "length (entries (u_ring s)) + m \<le> ring_cap (u_ring s)"
    using room by (simp_all add: commit_room_def)
  let ?u = "copy_slots m (x_ring s) (consumer s) (u_ring s) (producer s)"
  let ?c = "consumer s + ucast n" and ?p = "producer s + ucast n"
  have um: "(of_nat m :: u32) = ucast n" by (simp add: m)
  let ?s1 = "s\<lparr>u_ring := ?u, consumer := ?c, producer := ?p, available := available s - ucast n\<rparr>"
  define t2 where "t2 = kmove K (2 * m) (t\<lparr>available := available s - ucast n\<rparr>)"
  define t3 where "t3 = kmove K (2 * m + 1) (t2\<lparr>x_ring := set_cons (x_ring t2) ?c\<rparr>)"
  have may: "rx_kernel_may (s\<lparr>u_ring := ?u, consumer := ?c, producer := ?p\<rparr>) t"
    using loop(2) commit_rx_loop_ok [OF s(1), of b m] by (simp add: um)
  have m2: "rx_kernel_may ?s1 t2"
    unfolding t2_def by (rule rx_kernel_may_kmove [OF rx_kernel_may_local(3) [OF may] K])
  have "ring_grows (set_cons (x_ring s) ?c) (set_cons (x_ring t2) ?c)"
    using ring_grows_release [of "x_ring s" "x_ring t2" m ?c] rx_kernel_mayD(6) [OF m2] s(2,4) um by simp
  from rx_kernel_may_x [OF m2 this] have m3: "rx_kernel_may (?s1\<lparr>x_ring := set_cons (x_ring s) ?c\<rparr>) t3"
    unfolding t3_def by (rule rx_kernel_may_kmove [OF _ K])
  have "ring_ok ?u" "length (entries ?u) = length (entries (u_ring s))"
    using s(1) by (simp_all add: rings_rx_def entries_def)
  then have "ring_drains (set_prod ?u ?p) (set_prod (u_ring t3) ?p)"
    using ring_drains_publish [of ?u "u_ring t3" m ?p] rx_kernel_mayD(7) [OF m3] s(3,5) um by simp
  from rx_kernel_may_u [OF m3 this]
  have "rx_kernel_may (?s1\<lparr>x_ring := set_cons (x_ring s) ?c, u_ring := set_prod ?u ?p\<rparr>)
      (t3\<lparr>u_ring := set_prod (u_ring t3) ?p\<rparr>)" .
  moreover have "?s1\<lparr>x_ring := set_cons (x_ring s) ?c, u_ring := set_prod ?u ?p\<rparr> = released (ucast n) s"
    by (simp add: released_def m)
  ultimately have "rx_kernel_may (released (ucast n) s) (t3\<lparr>u_ring := set_prod (u_ring t3) ?p\<rparr>)" by (simp only:)
  moreover have "commit_shared K b s n = (t3\<lparr>u_ring := set_prod (u_ring t3) ?p\<rparr>, Ok ())"
  proof -
    have t: "available t = available s" "consumer t = ?c" "producer t = ?p"
      using rx_kernel_mayD(3-5) [OF may] by simp_all
    show ?thesis
      using m(2) rx_kernel_mayD(1) [OF m2] rx_kernel_mayD(2) [OF m3] t
      by (simp add: commit_shared_def Let_def loop(1) m(1) [symmetric] t2_def [symmetric] t3_def [symmetric, simplified]
          accessors_ok not_less)
  qed
  ultimately show ?thesis by blast
qed

lemma commit_shared_same:
  assumes "rx_room s" "safety_checks b" "rx_follows_protocol K"
  shows "snd (commit_shared K b s n) = snd (commit_rx b s n) \<and>
    rx_kernel_may (fst (commit_rx b s n)) (fst (commit_shared K b s n))"
proof (cases "available s < ucast n")
  case True
  then show ?thesis
    using assms rx_kernel_may_refl [of s] by (simp add: commit_shared_def commit_rx_def rx_room_def rx_shape_def rings_rx_def)
next
  case False
  let ?m = "unat (ucast n :: u32)"
  have n: "ucast n \<le> available s" using False by simp
  then have "?m \<le> received s" using assms(1) by (simp add: rx_room_def rx_shape_def word_le_nat_alt)
  then have room: "commit_room 0 ?m s" by (rule rx_room_commit [OF assms(1)])
  then have rings: "rings_rx s" by (simp add: commit_room_def)
  then have "rx_kernel_may s s" by (simp add: rx_kernel_may_refl rings_rx_def)
  then obtain t where "commit_shared_loop K b ?m 0 s = (t, Ok ())" "rx_kernel_may (fst (commit_rx_loop b ?m s)) t"
    using commit_shared_loop_follows [OF room _ assms(3)] by blast
  then show ?thesis
    using commit_shared_publish [OF room refl n assms(3) _ _ assms(2)] commit_rx_ok [OF rings n, of b] by fastforce
qed

text \<open>
  What the kernel does to the rings during a call is a move of \<open>Rx_Protocol\<close>, as long as it only delivers packets in
  frames that it holds, \<open>h\<close> at first, or takes from the Fill ring.
\<close>

definition delivers_own :: "u64 multiset \<Rightarrow> socket \<Rightarrow> socket \<Rightarrow> bool" where
  "delivers_own h s t \<longleftrightarrow>
     mset (map frame_of (received_frames t)) + mset (map frame_of (free_frames t)) \<subseteq>#
       mset (map frame_of (received_frames s)) + mset (map frame_of (free_frames s)) + h"

lemma rx_kernel_may_rely:
  assumes may: "rx_kernel_may s t" and shape: "rx_shape s" and own: "delivers_own h s t"
  shows "\<exists>h'. rx_rely \<lparr>rw_sock = s, rw_held = h\<rparr> \<lparr>rw_sock = t, rw_held = h'\<rparr>"
proof -
  note D = rx_kernel_mayD [OF may]
  have ptr: "frames t = frames s" using may by (auto simp: rx_kernel_may_def elim: moves_betweenE)
  have frames: "received_frames r = map d_addr (entries (x_ring r))" "free_frames r = entries (u_ring r)"
    if "cons_ix (x_ring r) = consumer r" for r
    using that by (simp_all add: received_frames_def received_def free_frames_def free_count_def entries_def)
  have sync: "cons_ix (x_ring s) = consumer s" "cons_ix (x_ring t) = consumer t"
    using shape D(3,6) by (simp_all add: rx_shape_def ring_grows_def)
  obtain k ds where k: "k \<le> length (entries (u_ring s))" "entries (u_ring t) = drop k (entries (u_ring s))"
    and ds: "entries (x_ring t) = entries (x_ring s) @ ds"
    using D(6,7) by (auto simp: ring_drains_def ring_grows_def)
  define rs where "rs = map d_addr ds"
  let ?f = "map frame_of (free_frames s)"
  have q: "k \<le> free_count s" "free_frames t = drop k (free_frames s)" "received_frames t = received_frames s @ rs"
    using k ds frames [OF sync(1)] frames [OF sync(2)] length_rx_frames(2) [of s] by (simp_all add: rs_def)
  have "mset ?f = mset (take k ?f) + mset (drop k ?f)" by (simp only: mset_append [symmetric] append_take_drop_id)
  then have "mset (map frame_of rs) \<subseteq># h + mset (take k ?f)"
    using own by (simp add: delivers_own_def q drop_map ac_simps)
  then have "h + mset (take k ?f) - mset (map frame_of rs) + mset (map frame_of rs) = h + mset (take k ?f)" by simp
  then have "rx_rely \<lparr>rw_sock = s, rw_held = h\<rparr>
      \<lparr>rw_sock = t, rw_held = h + mset (take k ?f) - mset (map frame_of rs)\<rparr>"
    using D q ptr by (simp add: rx_rely_def Let_def ring_drains_def ring_grows_def) (intro exI [of _ k], simp add: take_map)
  then show ?thesis ..
qed

lemma commit_rx_shape:
  assumes "rx_room s" "safety_checks b"
  shows "rx_shape (fst (commit_rx b s n))"
proof (cases "available s < ucast n")
  case True
  then show ?thesis using assms rx.commit_refused [OF assms(2) True] by (simp add: rx_room_def)
next
  case False
  then have n: "ucast n \<le> available s" by simp
  have s: "rings_rx s" "wf_rx s"
    using assms(1) by (simp_all add: rx_room_def rx_shape_def wf_rx_def)
  have "wf_rx (released (ucast n) s)" by (rule wf_rx_released [OF s(2) n])
  then show ?thesis
    by (simp add: commit_rx_ok [OF s(1) n] rx_shape_def wf_rx_def) (simp add: released_def)
qed

text \<open>
  The receive \<^verbatim>\<open>commit_n\<close> is atomic although the kernel moves while it runs: in every state whose frames fit the ring, with
  packets delivered and free frames taken before every access to shared memory, it returns exactly what it
  would return if the kernel waited, and leaves a state that the kernel could have reached by moving after the
  call: no packet that arrives is lost, and no frame that the kernel takes is one that is still being written. That
  move is one of the runs of \<open>Rx_Protocol\<close> if the kernel only delivers in frames that it has.
\<close>

theorem commit_is_atomic:
  assumes "rx_room s" "safety_checks b" "rx_follows_protocol K" "commit_shared K b s n = (t, r)"
  shows "\<exists>s'. commit_rx b s n = (s', r) \<and> rx_kernel_may s' t \<and>
    (delivers_own h s' t \<longrightarrow> (\<exists>h'. rx_rely \<lparr>rw_sock = s', rw_held = h\<rparr> \<lparr>rw_sock = t, rw_held = h'\<rparr>))"
proof -
  have "snd (commit_rx b s n) = r" "rx_kernel_may (fst (commit_rx b s n)) t"
    using commit_shared_same [OF assms(1-3), of n] assms(4) by simp_all
  then show ?thesis
    using rx_kernel_may_rely [OF _ commit_rx_shape [OF assms(1,2), of n], of t h] by (intro exI [of _ "fst (commit_rx b s n)"]) auto
qed

text \<open>A kernel that takes a free frame at its first move and delivers a packet at its second.\<close>

definition busy_kernel :: kernel_moves where
  "busy_kernel i p =
     (case p of (x, u) \<Rightarrow>
      if i = 0 \<and> cons_ix u \<noteq> prod_ix u then (x, set_cons u (cons_ix u + 1))
      else if i = 1 \<and> unat (prod_ix x - cons_ix x) < ring_cap x
      then (set_prod (slot_wr x (prod_ix x) (xdp_desc_new 8192 60 0)) (prod_ix x + 1), u)
      else (x, u))"

lemma busy_kernel_follows: "rx_follows_protocol busy_kernel"
  unfolding rx_follows_protocol_def follows_def
proof (intro allI impI)
  fix i and s :: socket
  assume x: "ring_ok (x_ring s)" and u: "ring_ok (u_ring s)"
  let ?x = "set_prod (slot_wr (x_ring s) (prod_ix (x_ring s)) (xdp_desc_new 8192 60 0)) (prod_ix (x_ring s) + 1)"
  have "ring_grows (x_ring s) ?x" if "unat (prod_ix (x_ring s) - cons_ix (x_ring s)) < ring_cap (x_ring s)"
    using rings.entries_push [OF x that refl, of "xdp_desc_new 8192 60 0"] x by (simp add: ring_grows_def entries_def)
  moreover have "ring_drains (u_ring s) (set_cons (u_ring s) (cons_ix (u_ring s) + 1))" if "cons_ix (u_ring s) \<noteq> prod_ix (u_ring s)"
    using that by (intro ring_drains_take u)
  ultimately show "moves_between ring_grows ring_drains s (kmove busy_kernel i s)"
    using x u by (intro moves_betweenI [where x = "x_ring (kmove busy_kernel i s)" and u = "u_ring (kmove busy_kernel i s)"])
      (auto simp: kmove_def busy_kernel_def ring_drains_refl ring_grows_refl)
qed

theorem commit_is_atomic_witness:
  "\<exists>s t. commit_shared busy_kernel sample_build small_rx 2 = (t, Ok ()) \<and>
     commit_rx sample_build small_rx 2 = (s, Ok ()) \<and> rx_kernel_may s t"
proof -
  have room: "rx_room small_rx"
    by (simp add: small_rx_def rx_room_def rx_shape_def rings_rx_def free_count_def received_def)
  obtain t r where t: "commit_shared busy_kernel sample_build small_rx 2 = (t, r)" by fastforce
  obtain s where s: "commit_rx sample_build small_rx 2 = (s, r)" "rx_kernel_may s t"
    using commit_is_atomic [OF room _ busy_kernel_follows t] by auto
  have "snd (commit_rx sample_build small_rx 2) = Ok ()"
    by (subst commit_rx_ok) (simp_all add: small_rx_def rings_rx_def)
  then have "r = Ok ()" using s(1) by simp
  then show ?thesis using s t by blast
qed

end
