(* ===== verification/Rx_Shared.thy ===== *)
theory Rx_Shared
  imports Commit_Shared Linearize
begin

unbundle bit_operations_syntax

text \<open>
  All calls of the receive socket while the kernel moves: the code of \<open>Rx\<close> with a move of the kernel before every
  access to shared memory that follows the first one of a call. The only such access of \<^verbatim>\<open>seek_\<close> is its first one.
\<close>

section \<open>The code with moves of the kernel\<close>





section \<open>Buffers\<close>




section \<open>Whole calls\<close>



section \<open>A kernel that does nothing\<close>




section \<open>Histories\<close>










end
