(* ===== verification/Umem_Bytes.thy ===== *)
theory Umem_Bytes
  imports Send
begin

text \<open>
  The bytes behind frames and descriptors, and changes of the memory inside given frames.
\<close>

section \<open>Bytes of frames and packets\<close>

definition frame_bytes :: "u8 list \<Rightarrow> u64 \<Rightarrow> u8 list" where
  "frame_bytes mem a = take 2048 (drop (unat a) mem)"

definition packet_of :: "u8 list \<Rightarrow> xdp_desc \<Rightarrow> u8 list" where
  "packet_of mem d = take (unat (d_len d)) (drop (unat (d_addr d)) mem)"

lemma packet_of_frame:
  "unat (d_len d) \<le> 2048 \<Longrightarrow> packet_of mem d = take (unat (d_len d)) (frame_bytes mem (d_addr d))"
  by (simp add: packet_of_def frame_bytes_def min_def)

lemma packet_of_write:
  assumes "unat (d_addr d) + length bs \<le> length mem" "unat (d_len d) = length bs"
  shows "packet_of (write_bytes mem (unat (d_addr d)) bs) d = bs"
  using assms by (simp add: packet_of_def write_bytes_def)

text \<open>A change of the memory inside the frames \<open>A\<close>.\<close>

definition touches :: "u64 set \<Rightarrow> u8 list \<Rightarrow> u8 list \<Rightarrow> bool" where
  "touches A mem mem' \<longleftrightarrow> length mem' = length mem \<and>
     (\<forall>j < length mem. mem' ! j = mem ! j \<or> (\<exists>a \<in> A. unat a \<le> j \<and> j < unat a + 2048))"

lemma touches_refl [simp]: "touches A mem mem"
  by (simp add: touches_def)

lemma touches_trans: "touches A m1 m2 \<Longrightarrow> touches A m2 m3 \<Longrightarrow> touches A m1 m3"
  unfolding touches_def by metis

lemma touches_length: "touches A mem mem' \<Longrightarrow> length mem' = length mem"
  by (simp add: touches_def)

lemma touches_write:
  assumes "a \<in> A" "unat a \<le> off" "off + length bs \<le> unat a + 2048" "off + length bs \<le> length mem"
  shows "touches A mem (write_bytes mem off bs)"
  unfolding touches_def
proof (intro conjI allI impI)
  show "length (write_bytes mem off bs) = length mem" using assms by simp
  show "write_bytes mem off bs ! j = mem ! j \<or> (\<exists>a \<in> A. unat a \<le> j \<and> j < unat a + 2048)" if "j < length mem" for j
    using assms that write_bytes_nth_outside [OF assms(4), of j] by (cases "j < off \<or> off + length bs \<le> j") force+
qed

lemma touches_range:
  assumes "touches A mem mem'" "\<And>a. a \<in> A \<Longrightarrow> i + n \<le> unat a \<or> unat a + 2048 \<le> i"
  shows "take n (drop i mem') = take n (drop i mem)"
proof (rule nth_equalityI)
  show "length (take n (drop i mem')) = length (take n (drop i mem))"
    using assms(1) by (simp add: touches_def)
  fix j assume "j < length (take n (drop i mem'))"
  then have "j < n" "i + j < length mem" using touches_length [OF assms(1)] by auto
  moreover have "mem' ! (i + j) = mem ! (i + j)"
  proof (rule ccontr)
    assume "mem' ! (i + j) \<noteq> mem ! (i + j)"
    then obtain a where "a \<in> A" "unat a \<le> i + j" "i + j < unat a + 2048"
      using assms(1) \<open>i + j < length mem\<close> by (auto simp: touches_def)
    then show False using assms(2) [of a] \<open>j < n\<close> by auto
  qed
  ultimately show "take n (drop i mem') ! j = take n (drop i mem) ! j"
    using assms(1) by (simp add: touches_def)
qed

lemma touches_drop:
  assumes "touches A mem mem'" "\<And>a. a \<in> A \<Longrightarrow> unat a + 2048 \<le> i"
  shows "drop i mem' = drop i mem"
  using touches_range [OF assms(1), of i "length mem"] assms touches_length [OF assms(1)] by simp

text \<open>Copying into a slice that lies in a frame.\<close>

lemma copy_from_slice_touches:
  assumes "copy_from_slice mem buf start stop bs = Ok mem'" "a \<in> A" "sl_off buf = unat a"
    "sl_len buf \<le> 2048" "unat a + 2048 \<le> length mem"
  shows "touches A mem mem'"
  using assms touches_write [OF assms(2), of "sl_off buf + start" bs mem]
  by (auto simp: copy_from_slice_def split: if_splits)

end
