(* ===== verification/Packet_Bytes.thy ===== *)
theory Packet_Bytes
  imports Tx_Properties Umem_Bytes
begin

unbundle bit_operations_syntax

text \<open>
  The bytes behind the frames of a transmit socket: what a call may write, and what it hands over. Every
  operation changes memory only inside available frames, keeps the packets in the queue and appends those that it submits.
\<close>

section \<open>The invariant\<close>

definition queued_packets :: "tx_world \<Rightarrow> u8 list list" where
  "queued_packets w = map (packet_of (w_mem w)) (queued_descs (w_sock w))"

definition lens_ok :: "socket \<Rightarrow> bool" where
  "lens_ok s \<longleftrightarrow> (\<forall>i. unat (d_len (slot_rd (x_ring s) i)) \<le> 2048)"

text \<open>The first holds for clients that make any call, the second for those that reclaim frames one at a time.\<close>

definition umem_inv :: "nat \<Rightarrow> tx_world \<Rightarrow> bool" where
  "umem_inv N w \<longleftrightarrow> pool_inv N (set (frame_pool 0 N)) w \<and> umem_ok (w_sock w) \<and> N \<le> 4096 \<and> lens_ok (w_sock w) \<and>
     8388608 \<le> length (w_mem w)"

definition fifo_inv :: "nat \<Rightarrow> tx_world \<Rightarrow> bool" where
  "fifo_inv N w \<longleftrightarrow> tx_inv (frame_pool 0 N) w \<and> umem_inv N w"

lemma umem_invD:
  assumes "umem_inv N w"
  shows "pool_inv N (set (frame_pool 0 N)) w" "umem_ok (w_sock w)" "N \<le> 4096" "unat (0 :: u32) + N \<le> 4096" "lens_ok (w_sock w)"
    "8388608 \<le> length (w_mem w)" "ring_ok (x_ring (w_sock w))" "wf_tx (w_sock w)"
    "queued_count (w_sock w) + unat (available (w_sock w)) \<le> ring_cap (x_ring (w_sock w))"
    "producer (w_sock w) = cons_ix (x_ring (w_sock w)) + of_nat (queued_count (w_sock w))"
  using assms pool_inv_count [of N "set (frame_pool 0 N)" w] pool_inv_wf [of N "set (frame_pool 0 N)" w]
  by (simp_all add: umem_inv_def pool_inv_def tx_shape_def queued_count_def)

lemma fifo_invD:
  assumes "fifo_inv N w"
  shows "tx_inv (frame_pool 0 N) w" "umem_inv N w"
  using assms by (simp_all add: fifo_inv_def)

lemma lens_ok_write:
  assumes "lens_ok s" "ring_ok (x_ring s)" "unat (d_len v) \<le> 2048"
  shows "lens_ok (s\<lparr>x_ring := slot_wr (x_ring s) i v\<rparr>)"
  using assms by (simp add: lens_ok_def slot_rd_wr)

lemma all_frames_in_pool:
  assumes "umem_inv N w" "a \<in># all_frames w"
  shows "\<exists>k < N. unat a = k * 2048"
  using frame_pool_in [OF pool_inv_subset [OF umem_invD(1) [OF assms(1)] assms(2)] umem_invD(4) [OF assms(1)]] by auto

lemma app_frame_all: "a \<in> set (app_frames (w_sock w)) \<Longrightarrow> a \<in># all_frames w"
  by (simp add: all_frames_def)

text \<open>A frame with another owner than the application does not overlap with an available one.\<close>

lemma frames_apart:
  assumes inv: "umem_inv N w" and a: "a \<in> set (app_frames (w_sock w))" and c: "c \<in># all_frames w" and ne: "a \<noteq> c"
  shows "unat c + 2048 \<le> unat a \<or> unat a + 2048 \<le> unat c"
proof -
  obtain k l where "unat a = k * 2048" "unat c = l * 2048"
    using all_frames_in_pool [OF inv, of a] all_frames_in_pool [OF inv, of c] app_frame_all [OF a] c by auto
  then show ?thesis
    using ne by (cases k l rule: linorder_cases) (auto simp: word_unat_eq_iff)
qed

text \<open>No frame has two owners as long as the frames are those of the pool, each once.\<close>

lemma one_owner:
  assumes inv: "fifo_inv N w"
    and c: "c \<in># mset (queued_frames (w_sock w)) + w_held w + mset (completed_frames (w_sock w))"
  shows "c \<notin> set (app_frames (w_sock w))"
proof
  let ?o = "mset (queued_frames (w_sock w)) + w_held w + mset (completed_frames (w_sock w))"
  assume a: "c \<in> set (app_frames (w_sock w))"
  have all: "all_frames w = mset (app_frames (w_sock w)) + ?o" by (simp add: all_frames_def ac_simps)
  have "all_frames w = mset (frame_pool 0 N)" using fifo_invD(1) [OF inv] by (simp add: tx_inv_def)
  then have "count (all_frames w) c \<le> 1"
    using distinct_frame_pool [OF umem_invD(4) [OF fifo_invD(2) [OF inv]]] by (simp add: distinct_count_atmost_1)
  moreover have "0 < count (mset (app_frames (w_sock w))) c" "0 < count ?o c" using a c by (simp, simp only: count_greater_zero_iff)
  moreover have "count (all_frames w) c = count (mset (app_frames (w_sock w))) c + count ?o c"
    by (simp only: all count_union)
  ultimately show False by linarith
qed

lemma app_frame_inside:
  assumes "umem_inv N w" "a \<in> set (app_frames (w_sock w))"
  shows "unat a + 2048 \<le> N * 2048" "unat a + 2048 \<le> 8388608"
  using all_frames_in_pool [OF assms(1) app_frame_all [OF assms(2)]] umem_invD(3) [OF assms(1)] by auto

text \<open>A change inside the available frames leaves the bytes of every other frame.\<close>

lemma other_frames_kept:
  assumes "umem_inv N w" "touches (set (app_frames (w_sock w))) (w_mem w) mem'"
    and "c \<in># all_frames w" "c \<notin> set (app_frames (w_sock w))"
  shows "frame_bytes mem' c = frame_bytes (w_mem w) c"
  unfolding frame_bytes_def using frames_apart [OF assms(1) _ assms(3)] assms(4) by (intro touches_range [OF assms(2)]) metis

lemma queued_packets_kept:
  assumes inv: "fifo_inv N w" and t: "touches (set (app_frames (w_sock w))) (w_mem w) mem'"
  shows "map (packet_of mem') (queued_descs (w_sock w)) = queued_packets w"
proof -
  have "packet_of mem' d = packet_of (w_mem w) d" if d: "d \<in> set (queued_descs (w_sock w))" for d
  proof -
    have "unat (d_len d) \<le> 2048"
      using d umem_invD(5) [OF fifo_invD(2) [OF inv]] by (auto simp: lens_ok_def queued_descs_def window_def)
    moreover have q: "d_addr d \<in> set (queued_frames (w_sock w))" using d by (simp add: frames_of_descs)
    then have "d_addr d \<notin> set (app_frames (w_sock w))" using one_owner [OF inv] by simp
    then have "frame_bytes mem' (d_addr d) = frame_bytes (w_mem w) (d_addr d)"
      using q by (intro other_frames_kept [OF fifo_invD(2) [OF inv] t]) (simp_all add: all_frames_def)
    ultimately show ?thesis by (simp add: packet_of_frame)
  qed
  then show ?thesis by (simp add: queued_packets_def)
qed

section \<open>What each call hands over\<close>

text \<open>
  The packets that a call submits: a successful \<^verbatim>\<open>send\<close> its header and data, a successful \<^verbatim>\<open>commit_n\<close> what is in
  the first available buffers, any other call nothing.
\<close>

fun submitted :: "build \<Rightarrow> tx_op \<Rightarrow> tx_world \<Rightarrow> u8 list list" where
  "submitted b (OpSend data header) w =
     (if snd (send b (w_sock w, w_mem w) data header) = Ok () then [header_bytes header @ data] else [])"
| "submitted b (OpCommit n) w =
     (if snd (socket_commit_n commit_tx b (w_sock w) n) = Ok ()
      then map (packet_of (w_mem w)) (take (unat n mod 2 ^ 32) (app_descs (w_sock w))) else [])"
| "submitted b _ w = []"

text \<open>Their descriptors, as they are in the queue after the call.\<close>

fun handed :: "build \<Rightarrow> tx_op \<Rightarrow> tx_world \<Rightarrow> xdp_desc list" where
  "handed b (OpSend data header) w =
     (if snd (send b (w_sock w, w_mem w) data header) = Ok ()
      then [(tx_desc (w_sock w) 0)\<lparr>d_len := of_nat (length (header_bytes header @ data))\<rparr>] else [])"
| "handed b (OpCommit n) w =
     (if snd (socket_commit_n commit_tx b (w_sock w) n) = Ok ()
      then take (unat n mod 2 ^ 32) (app_descs (w_sock w)) else [])"
| "handed b _ w = []"

text \<open>A step keeps the queue and appends the descriptors \<open>ds\<close>; it writes the frames that were available and no others.\<close>

definition queues :: "nat \<Rightarrow> xdp_desc list \<Rightarrow> tx_world \<Rightarrow> tx_world \<Rightarrow> bool" where
  "queues N ds w w' \<longleftrightarrow> umem_inv N w' \<and> queued_descs (w_sock w') = queued_descs (w_sock w) @ ds \<and>
     touches (set (app_frames (w_sock w))) (w_mem w) (w_mem w')"

lemma umem_ok_kept:
  assumes "umem_ok (w_sock w)" "frames s = frames (w_sock w)" "ring_cap (x_ring s) = ring_cap (x_ring (w_sock w))"
  shows "umem_ok s"
  using assms by (simp add: umem_ok_def)

text \<open>Changes of the socket that leave the queue: memory of available frames may change with them.\<close>

lemma queues_nothing:
  assumes inv: "umem_inv N w" and s: "pool_inv N (set (frame_pool 0 N)) (w\<lparr>w_sock := s\<rparr>)" "frames s = frames (w_sock w)" "lens_ok s"
      "queued_descs s = queued_descs (w_sock w)"
    and t: "touches (set (app_frames (w_sock w))) (w_mem w) mem'"
  shows "queues N [] w (w\<lparr>w_sock := s, w_mem := mem'\<rparr>)"
proof -
  have "ring_cap (x_ring s) = ring_cap (x_ring (w_sock w))"
    using s(1) umem_invD(1) [OF inv] by (simp add: pool_inv_def)
  then have "umem_ok s" using umem_ok_kept [OF umem_invD(2) [OF inv] s(2)] by simp
  moreover have "pool_inv N (set (frame_pool 0 N)) (w\<lparr>w_sock := s, w_mem := mem'\<rparr>)"
    using s(1) pool_inv_mem [where w = "w\<lparr>w_sock := s\<rparr>" and m = mem'] by simp
  ultimately have "umem_inv N (w\<lparr>w_sock := s, w_mem := mem'\<rparr>)"
    using umem_invD(3,6) [OF inv] s(3) touches_length [OF t] by (simp add: umem_inv_def)
  then show ?thesis using t s(4) by (simp add: queues_def)
qed

lemma queues_socket:
  assumes inv: "umem_inv N w" and s: "pool_inv N (set (frame_pool 0 N)) (w\<lparr>w_sock := s\<rparr>)" "frames s = frames (w_sock w)" "lens_ok s"
      "queued_descs s = queued_descs (w_sock w)"
  shows "queues N [] w (w\<lparr>w_sock := s\<rparr>)"
proof -
  have "w\<lparr>w_sock := s, w_mem := w_mem w\<rparr> = w\<lparr>w_sock := s\<rparr>" by simp
  then show ?thesis using queues_nothing [OF inv s touches_refl] by metis
qed

lemma queues_trans:
  assumes "queues N ds w w1" "queues N es w1 w2" "touches (set (app_frames (w_sock w))) (w_mem w1) (w_mem w2)"
  shows "queues N (ds @ es) w w2"
  using assms touches_trans by (auto simp: queues_def)

lemma queued_descs_write:
  assumes inv: "umem_inv N w" and i: "queued_count (w_sock w) + i < ring_cap (x_ring (w_sock w))"
  shows "queued_descs (w_sock w\<lparr>x_ring := slot_wr (x_ring (w_sock w)) (producer (w_sock w) + of_nat i) v\<rparr>) =
    queued_descs (w_sock w)"
proof -
  let ?s = "w_sock w" and ?q = "queued_count (w_sock w)"
  have "producer ?s + of_nat i = cons_ix (x_ring ?s) + of_nat (?q + i)"
    using umem_invD(10) [OF inv] by simp
  then show ?thesis
    using rings.window_wr_outside [OF umem_invD(7) [OF inv] _ i, of ?q "cons_ix (x_ring ?s)" v]
    by (simp add: queued_descs_def queued_count_def)
qed

lemma peek_keeps_queue:
  assumes inv: "umem_inv N w" and b: "safety_checks b"
  shows "lens_ok (fst (peek_tx b (w_sock w) i len)) \<and>
    queued_descs (fst (peek_tx b (w_sock w) i len)) = queued_descs (w_sock w)"
proof -
  let ?s = "w_sock w"
  note peek = peek_effect [OF umem_invD(1-3) [OF inv] b refl, of i len]
  show ?thesis
  proof (cases "ucast (available ?s) \<le> i \<or> 2048 < unat len")
    case True
    then show ?thesis using umem_invD(5) [OF inv] by (auto simp: peek)
  next
    case False
    let ?v = "(tx_desc ?s i)\<lparr>d_len := ucast len\<rparr>"
    have i: "unat i < unat (available ?s)" using False by (simp add: word_less_nat_alt not_le)
    then have "queued_count ?s + unat i < ring_cap (x_ring ?s)" using umem_invD(9) [OF inv] by simp
    note keep = queued_descs_write [OF inv this, of ?v]
    have "(ucast i :: u32) = of_nat (unat i)" by (rule ucast_eq_of_nat)
    then have "fst (peek_tx b ?s i len) = ?s\<lparr>x_ring := slot_wr (x_ring ?s) (producer ?s + of_nat (unat i)) ?v\<rparr>"
      using False by (simp only: peek) simp
    moreover have "unat (d_len ?v) \<le> 2048" using False by (simp add: unat_ucast_64_32)
    ultimately show ?thesis
      using keep lens_ok_write [OF umem_invD(5,7) [OF inv]] by metis
  qed
qed

lemma peek_buffer:
  assumes inv: "umem_inv N w" and b: "safety_checks b" and p: "snd (peek_tx b (w_sock w) i len) = Ok buf"
  shows "\<exists>a \<in> set (app_frames (w_sock w)). sl_off buf = unat a \<and> sl_len buf = unat len \<and> unat len < 2048"
proof -
  note peek = peek_effect [OF umem_invD(1-3) [OF inv] b refl, of i len]
  have i: "\<not> ucast (available (w_sock w)) \<le> i" and len: "unat len < 2048"
    and buf: "buf = \<lparr>sl_off = unat (app_frames (w_sock w) ! unat i), sl_len = unat len\<rparr>"
    using p by (auto simp: peek split: if_splits)
  have "unat i < length (app_frames (w_sock w))" using i by (simp add: word_less_nat_alt not_le)
  then have "app_frames (w_sock w) ! unat i \<in> set (app_frames (w_sock w))" by (rule nth_mem)
  then show ?thesis using len by (auto simp: buf)
qed

lemma copy_into_buffer:
  assumes inv: "umem_inv N w" and b: "safety_checks b" and p: "snd (peek_tx b (w_sock w) i len) = Ok buf"
    and l: "length mem = length (w_mem w)" and c: "copy_from_slice mem buf start stop bs = Ok mem'"
  shows "touches (set (app_frames (w_sock w))) mem mem'"
proof -
  obtain a where a: "a \<in> set (app_frames (w_sock w))" "sl_off buf = unat a" "sl_len buf \<le> 2048"
    using peek_buffer [OF inv b p] by auto
  then show ?thesis
    using copy_from_slice_touches [OF c a] app_frame_inside(2) [OF inv a(1)] umem_invD(6) [OF inv] l by simp
qed

lemma peek_queue:
  assumes inv: "umem_inv N w" and b: "safety_checks b" and t: "touches (set (app_frames (w_sock w))) (w_mem w) mem'"
  shows "queues N [] w (w\<lparr>w_sock := fst (peek_tx b (w_sock w) i len), w_mem := mem'\<rparr>)"
  using peek_keeps_queue [OF inv b] peek_pool_inv [OF umem_invD(1) [OF inv]] peek_tx_frames [OF umem_invD(7) [OF inv]]
  by (intro queues_nothing [OF inv _ _ _ _ t]) simp_all

text \<open>However many frames a \<^verbatim>\<open>seek_n\<close> reclaims, it leaves the queue alone.\<close>

lemma seek_queue:
  assumes inv: "umem_inv N w"
  shows "queues N [] w (w\<lparr>w_sock := fst (seek_tx b (w_sock w) n)\<rparr>)"
proof (rule queues_socket [OF inv seek_pool_inv [OF umem_invD(1) [OF inv]] seek_tx_frames [OF umem_invD(8) [OF inv]]])
  let ?s = "w_sock w"
  have "lens_ok (fst (seek_tx b ?s n)) \<and> queued_descs (fst (seek_tx b ?s n)) = queued_descs ?s"
  proof (cases "n \<le> ucast (available ?s) \<or> pending ?s = 0")
    case True
    then have "fst (seek_tx b ?s n) = ?s"
      using umem_invD(8) [OF inv] by (cases "n \<le> ucast (available ?s)") (simp_all add: seek_tx_hit seek_tx_empty)
    then show ?thesis using umem_invD(5) [OF inv] by simp
  next
    case False
    define k where "k = min (unat n - unat (available ?s)) (pending ?s)"
    have r: "fst (seek_tx b ?s n) = reclaimed k ?s"
      using seek_tx_reclaims [OF umem_invD(8) [OF inv], of n k b] False k_def by simp
    let ?x = "x_ring (reclaimed k ?s)"
    have "queued_count ?s + 0 < ring_cap (x_ring ?s)"
      using pool_inv_count [OF umem_invD(1) [OF inv]] False by simp
    then have "queued_descs (?s\<lparr>x_ring := ?x\<rparr>) = queued_descs ?s"
      using queued_descs_write [OF inv, of 0] by (simp add: reclaimed_def)
    moreover have "lens_ok (?s\<lparr>x_ring := ?x\<rparr>)"
      using lens_ok_write [OF umem_invD(5,7) [OF inv]] by (simp add: reclaimed_def xdp_desc_new_def)
    ultimately show ?thesis
      by (simp add: r lens_ok_def queued_descs_def queued_count_def) (simp add: reclaimed_def)
  qed
  then show "lens_ok (fst (seek_tx b ?s n))" "queued_descs (fst (seek_tx b ?s n)) = queued_descs ?s" by simp_all
qed

lemma commit_queue:
  assumes inv: "umem_inv N w" and b: "safety_checks b"
  shows "queues N (handed b (OpCommit n) w) w (w\<lparr>w_sock := fst (commit_tx b (w_sock w) n)\<rparr>)"
proof (cases "available (w_sock w) < ucast n")
  case True
  then have "commit_tx b (w_sock w) n = (w_sock w, Err NotAvailable)" using b tx.commit_refused by blast
  then show ?thesis
    using queues_socket [OF inv, of "w_sock w"] umem_invD(1,5) [OF inv] by (simp add: socket_commit_n_def)
next
  case False
  let ?s = "w_sock w" and ?s' = "fst (commit_tx b (w_sock w) n)" and ?m = "unat (ucast n :: u32)"
  have n: "ucast n \<le> available ?s" using False by simp
  note eq = commit_tx_ok [OF umem_invD(8) [OF inv] n, of b]
  have q: "queued_descs ?s' = queued_descs ?s @ take ?m (app_descs ?s)"
    using commit_descs [OF umem_invD(8) [OF inv] n umem_invD(9) [OF inv]] by blast
  have "lens_ok ?s'" using umem_invD(5) [OF inv] by (simp add: eq lens_ok_def)
  then have "umem_inv N (w\<lparr>w_sock := ?s'\<rparr>)"
    using commit_pool_inv [OF umem_invD(1) [OF inv], of b n] b umem_invD(3,6) [OF inv]
      umem_ok_kept [OF umem_invD(2) [OF inv], of ?s'] by (simp add: umem_inv_def eq)
  moreover have "handed b (OpCommit n) w = take ?m (app_descs ?s)"
    by (simp add: socket_commit_n_def eq unat_ucast_64_32)
  ultimately show ?thesis by (simp add: queues_def q)
qed

text \<open>
  \<^verbatim>\<open>send\<close>: it succeeds for every packet shorter than a frame if a frame is available. If not, it commits
  nothing, though the header of a packet whose length overflows may have been written.
\<close>

lemma send_fails:
  assumes inv: "umem_inv N w" and b: "safety_checks b"
    and no: "\<not> (0 < available (w_sock w) \<and> length (header_bytes header) + length data < 2048)"
  shows "\<exists>s' mem' r. send b (w_sock w, w_mem w) data header = ((s', mem'), r) \<and> r \<noteq> Ok () \<and>
    (s' = w_sock w \<or> (\<exists>l. s' = fst (peek_tx b (w_sock w) 0 l))) \<and>
    touches (set (app_frames (w_sock w))) (w_mem w) mem'"
proof -
  let ?s = "w_sock w" and ?m = "w_mem w" and ?h = "header_bytes header"
  let ?l = "of_nat (length data) + of_nat (length ?h) :: usize"
  have hdr: "(case header of None \<Rightarrow> 0 | Some h \<Rightarrow> length h) = length ?h"
    by (simp add: header_bytes_def split: option.split)
  obtain s1 r1 where p: "peek_tx b ?s 0 ?l = (s1, r1)" by fastforce
  then have "s1 = fst (peek_tx b ?s 0 ?l)" by simp
  then have s1: "s1 = ?s \<or> (\<exists>l. s1 = fst (peek_tx b ?s 0 l))" by blast
  show ?thesis
  proof (cases "\<exists>buf. add_chk b (of_nat (length data)) (of_nat (length ?h)) = (Ok ?l :: (ring_error, usize) res) \<and> r1 = Ok buf")
    case False
    then show ?thesis
      using s1 by (cases r1) (auto simp: send_def Let_def hdr peek_tx_0_def p add_chk_def split: if_splits)
  next
    case True
    then obtain buf where add: "add_chk b (of_nat (length data)) (of_nat (length ?h)) = (Ok ?l :: (ring_error, usize) res)"
      and r1: "r1 = Ok buf" by blast
    have buf: "snd (peek_tx b ?s 0 ?l) = Ok buf" using p r1 by simp
    then have av: "0 < available ?s"
      using peek_effect [OF umem_invD(1-3) [OF inv] b refl, of 0 ?l] by (auto simp: word_gt_0 split: if_splits)
    have len: "sl_len buf < 2048" using peek_buffer [OF inv b buf] by auto
    define c where "c = (case header of Some bs \<Rightarrow> copy_from_slice ?m buf 0 (length ?h) bs | None \<Rightarrow> Ok ?m)"
    have send: "send b (?s, ?m) data header =
      try_in (s1, ?m) c (\<lambda>m1. try_in (s1, m1) (copy_from_slice m1 buf (length ?h) (sl_len buf) data)
        (\<lambda>m2. case socket_commit commit_tx b s1 of (s2, r2) \<Rightarrow> ((s2, m2), r2)))"
      by (simp add: send_def Let_def hdr add peek_tx_0_def p r1 c_def)
    have t: "touches (set (app_frames ?s)) ?m m1" if "c = Ok m1" for m1
      using that copy_into_buffer [OF inv b buf refl] by (auto simp: c_def split: option.splits)
    have "copy_from_slice m1 buf (length ?h) (sl_len buf) data = Panic" if "c = Ok m1" for m1
      using no av len by (auto simp: copy_from_slice_def)
    moreover have "c = Panic \<or> (\<exists>m1. c = Ok m1)"
      by (simp add: c_def copy_from_slice_def split: option.split)
    ultimately show ?thesis using t s1 by (auto simp: send)
  qed
qed

lemma app_frames_head:
  assumes "0 < available s"
  shows "d_addr (tx_desc s 0) \<in> set (app_frames s)"
proof -
  have i: "(0 :: usize) < ucast (available s)" using assms by (simp add: word_less_nat_alt)
  then have "0 < length (app_frames s)" by (simp add: word_less_nat_alt)
  then show ?thesis using i by (simp add: tx_desc_addr del: length_frames)
qed

lemma send_result:
  assumes inv: "umem_inv N w" and a: "0 < available (w_sock w)"
    and n: "n = length (header_bytes header @ data)" "n < 2048"
  shows "send b (w_sock w, w_mem w) data header =
    ((sent n (w_sock w), write_bytes (w_mem w) (unat (d_addr (tx_desc (w_sock w) 0))) (header_bytes header @ data)), Ok ())"
proof -
  have "d_addr (tx_desc (w_sock w) 0) \<in> set (app_frames (w_sock w))" using a by (rule app_frames_head)
  then show ?thesis
    using send_ok [OF umem_invD(8,2) [OF inv] a, of header data "w_mem w" b] app_frame_inside [OF inv] umem_invD(6) [OF inv] n
    by simp
qed

lemma send_queue:
  assumes inv: "umem_inv N w" and b: "safety_checks b"
  shows "queues N (handed b (OpSend data header) w) w (tx_apply b (OpSend data header) w)"
proof (cases "0 < available (w_sock w) \<and> length (header_bytes header) + length data < 2048")
  case False
  then obtain s' mem' r where send: "send b (w_sock w, w_mem w) data header = ((s', mem'), r)" "r \<noteq> Ok ()"
    and s': "s' = w_sock w \<or> (\<exists>l. s' = fst (peek_tx b (w_sock w) 0 l))"
    and t: "touches (set (app_frames (w_sock w))) (w_mem w) mem'"
    using send_fails [OF inv b False] by blast
  from s' have "queues N [] w (w\<lparr>w_sock := s', w_mem := mem'\<rparr>)"
  proof
    assume "s' = w_sock w"
    then show ?thesis using umem_invD(1,5) [OF inv] by (intro queues_nothing [OF inv _ _ _ _ t]) simp_all
  next
    assume "\<exists>l. s' = fst (peek_tx b (w_sock w) 0 l)"
    then show ?thesis using peek_queue [OF inv b t] by blast
  qed
  then show ?thesis using send by simp
next
  case True
  let ?s = "w_sock w" and ?p = "header_bytes header @ data" and ?a = "d_addr (tx_desc (w_sock w) 0)"
  define n where "n = length ?p"
  let ?m = "write_bytes (w_mem w) (unat ?a) ?p" and ?d = "(tx_desc ?s 0)\<lparr>d_len := of_nat n\<rparr>"
  have a: "?a \<in> set (app_frames ?s)" using True by (simp add: app_frames_head)
  note in_mem = app_frame_inside [OF inv a] umem_invD(6) [OF inv]
  have n: "n < 2048" using True by (simp add: n_def)
  have send: "send b (?s, w_mem w) data header = ((sent n ?s, ?m), Ok ())"
    using send_result [OF inv _ n_def n] True by blast
  let ?w1 = "w\<lparr>w_sock := peeked n ?s, w_mem := ?m\<rparr>"
  have t: "touches (set (app_frames ?s)) (w_mem w) ?m"
    using in_mem n by (intro touches_write [OF a]) (simp_all add: n_def)
  have ul: "unat (of_nat n :: usize) = n" using n by (intro unat_of_nat_u64) simp
  have peek: "peek_tx b ?s 0 (of_nat n) = (peeked n ?s, Ok \<lparr>sl_off = unat ?a, sl_len = n\<rparr>)"
    by (rule peek_head_ok [OF umem_invD(8,2) [OF inv] _ ul n]) (use True in_mem in simp_all)
  then have 1: "queues N [] w ?w1" using peek_queue [OF inv b t, of 0 "of_nat n"] by simp
  then have inv1: "umem_inv N ?w1" by (simp add: queues_def)
  have com: "commit_tx b (peeked n ?s) 1 = (sent n ?s, Ok ())"
    using commit_peeked [OF umem_invD(8) [OF inv], of b n] True by (simp add: socket_commit_def)
  have ne: "0 < unat (available (peeked n ?s))" using True by (simp add: peeked_def word_less_nat_alt)
  have "take 1 (app_descs (peeked n ?s)) = [?d]"
    using ne umem_invD(7) [OF inv] by (simp add: app_descs_def take_window window_Cons peeked_def rings.rd_wr_same)
  then have sub: "handed b (OpCommit 1) ?w1 = [?d]" using com by (simp add: socket_commit_n_def)
  have swap: "?w1\<lparr>w_sock := sent n ?s\<rparr> = w\<lparr>w_sock := sent n ?s, w_mem := ?m\<rparr>" by simp
  have "queues N [?d] ?w1 (?w1\<lparr>w_sock := fst (sent n ?s, Ok () :: (ring_error, unit) res)\<rparr>)"
    using commit_queue [OF inv1 b, of 1] unfolding sub com [symmetric] by simp
  then have "queues N [?d] ?w1 (w\<lparr>w_sock := sent n ?s, w_mem := ?m\<rparr>)" by (simp only: fst_conv swap)
  then have "queues N [?d] w (w\<lparr>w_sock := sent n ?s, w_mem := ?m\<rparr>)"
    using queues_trans [OF 1, of "[?d]"] by simp
  then show ?thesis using send by (simp add: n_def)
qed

lemma tx_apply_queue:
  assumes inv: "umem_inv N w" and b: "safety_checks b"
  shows "queues N (handed b op w) w (tx_apply b op w)"
proof (cases op)
  case (OpSeek n)
  then show ?thesis using seek_queue [OF inv] by (simp add: socket_seek_n_def)
next
  case (OpPeekAt i len)
  have "w\<lparr>w_sock := s, w_mem := w_mem w\<rparr> = w\<lparr>w_sock := s\<rparr>" for s by simp
  then show ?thesis using peek_queue [OF inv b touches_refl, of i len] by (simp add: OpPeekAt peek_at_tx_def)
next
  case (OpSeekAndPeek len)
  obtain s1 r where s1: "seek_tx b (w_sock w) 1 = (s1, r)" by fastforce
  have 1: "queues N [] w (w\<lparr>w_sock := s1\<rparr>)" using seek_queue [OF inv, of b 1] by (simp add: s1)
  then have inv1: "umem_inv N (w\<lparr>w_sock := s1\<rparr>)" by (simp add: queues_def)
  have "w\<lparr>w_sock := s, w_mem := w_mem w\<rparr> = w\<lparr>w_sock := s\<rparr>" for s by simp
  then have "queues N [] (w\<lparr>w_sock := s1\<rparr>) (w\<lparr>w_sock := fst (peek_tx b s1 0 len)\<rparr>)"
    using peek_queue [OF inv1 b touches_refl, of 0 len] by simp
  then have "queues N ([] @ []) w (w\<lparr>w_sock := fst (peek_tx b s1 0 len)\<rparr>)"
    by (intro queues_trans [OF 1]) simp_all
  then show ?thesis using 1 by (cases r) (simp_all add: OpSeekAndPeek seek_and_peek_tx_def s1)
next
  case (OpCommit n)
  then show ?thesis using commit_queue [OF inv b, of n] by (simp add: socket_commit_n_def)
next
  case (OpSend data header)
  then show ?thesis using send_queue [OF inv b] by simp
next
  case (OpWrite i len start bs)
  have same: "w\<lparr>w_sock := s, w_mem := w_mem w\<rparr> = w\<lparr>w_sock := s\<rparr>" for s by simp
  obtain s1 r where p: "peek_tx b (w_sock w) i len = (s1, r)" by fastforce
  have 1: "queues N [] w (w\<lparr>w_sock := s1\<rparr>)"
    using peek_queue [OF inv b touches_refl, of i len] by (simp only: p fst_conv same)
  have "queues N [] w (w\<lparr>w_sock := s1, w_mem := mem'\<rparr>)"
    if "r = Ok buf" "copy_from_slice (w_mem w) buf start (start + length bs) bs = Ok mem'" for buf mem'
  proof -
    have "snd (peek_tx b (w_sock w) i len) = Ok buf" using p that(1) by simp
    then have "touches (set (app_frames (w_sock w))) (w_mem w) mem'" using copy_into_buffer [OF inv b _ refl that(2)] by blast
    then show ?thesis using peek_queue [OF inv b, of mem' i len] by (simp add: p)
  qed
  then show ?thesis using 1 by (simp add: OpWrite peek_at_tx_def p split: res.split)
qed

section \<open>Packets in the queue\<close>

lemma handed_packets:
  assumes inv: "umem_inv N w" and b: "safety_checks b"
  shows "map (packet_of (w_mem (tx_apply b op w))) (handed b op w) = submitted b op w"
proof (cases op)
  case (OpSend data header)
  let ?s = "w_sock w" and ?p = "header_bytes header @ data" and ?a = "d_addr (tx_desc (w_sock w) 0)"
  show ?thesis
  proof (cases "0 < available ?s \<and> length (header_bytes header) + length data < 2048")
    case True
    have a: "?a \<in> set (app_frames ?s)" using True by (simp add: app_frames_head)
    have "packet_of (write_bytes (w_mem w) (unat ?a) ?p) ((tx_desc ?s 0)\<lparr>d_len := of_nat (length ?p)\<rparr>) = ?p"
      using app_frame_inside [OF inv a] umem_invD(6) [OF inv] True unat_of_nat_u32 [of "length ?p"]
        packet_of_write [of "(tx_desc ?s 0)\<lparr>d_len := of_nat (length ?p)\<rparr>" ?p "w_mem w"] by simp
    then show ?thesis using send_result [OF inv _ refl, of header data b] True by (simp add: OpSend)
  next
    case False
    then show ?thesis using send_fails [OF inv b False] by (auto simp: OpSend)
  qed
qed simp_all

text \<open>A step of a client that reclaims frames one at a time appends the packets \<open>ps\<close> and keeps those in the queue.\<close>

definition appends :: "nat \<Rightarrow> u8 list list \<Rightarrow> tx_world \<Rightarrow> tx_world \<Rightarrow> bool" where
  "appends N ps w w' \<longleftrightarrow> fifo_inv N w' \<and> queued_packets w' = queued_packets w @ ps"

lemma tx_apply_appends:
  assumes inv: "fifo_inv N w" and b: "safety_checks b" and one: "single_frame op (w_sock w)"
  shows "appends N (submitted b op w) w (tx_apply b op w)"
proof -
  note q = tx_apply_queue [OF fifo_invD(2) [OF inv] b, of op, unfolded queues_def]
  have "fifo_inv N (tx_apply b op w)"
    using q tx_apply_inv [OF fifo_invD(1) [OF inv] b one] by (simp add: fifo_inv_def)
  moreover have "map (packet_of (w_mem (tx_apply b op w))) (queued_descs (w_sock w)) = queued_packets w"
    using queued_packets_kept [OF inv] q by blast
  ultimately show ?thesis
    using q handed_packets [OF fifo_invD(2) [OF inv] b, of op] by (simp add: appends_def queued_packets_def)
qed

end
