(* ===== verification/Packet_Fifo.thy ===== *)
theory Packet_Fifo
  imports Packet_Bytes Create_Properties
begin

text \<open>
  Runs of a transmit socket packet by packet, of any client or of one that reclaims one frame at a time: no call changes a byte of a
  frame that is not available, and for the second client the kernel takes exactly the packets that it submitted, in that order.
\<close>

section \<open>The kernel\<close>

text \<open>
  The kernel may write the frames of receive sockets that share the memory, but not those of the transmit
  socket, the first \<open>N\<close> frames.
\<close>

definition spares_frames :: "nat \<Rightarrow> (tx_world \<Rightarrow> tx_world \<Rightarrow> bool) \<Rightarrow> bool" where
  "spares_frames N K \<longleftrightarrow> (\<forall>w w'. K w w' \<longrightarrow>
     length (w_mem w') = length (w_mem w) \<and> take (N * 2048) (w_mem w') = take (N * 2048) (w_mem w))"

text \<open>The number of descriptors that a move takes from the queue.\<close>

definition taken_count :: "tx_world \<Rightarrow> tx_world \<Rightarrow> nat" where
  "taken_count w w' = queued_count (w_sock w) - queued_count (w_sock w')"

lemma packet_in_pool:
  assumes "take n mem' = take n mem" "unat (d_addr d) + unat (d_len d) \<le> n"
  shows "packet_of mem' d = packet_of mem d"
proof -
  have "packet_of m d = take (unat (d_len d)) (drop (unat (d_addr d)) (take n m))" for m
    using assms(2) by (simp add: packet_of_def drop_take min_def)
  then show ?thesis using assms(1) by metis
qed

lemma kernel_umem:
  assumes inv: "umem_inv N w" and rely: "tx_rely w w'" and K: "K w w'" "spares_frames N K"
  shows "umem_inv N w' \<and> queued_packets w' = drop (taken_count w w') (queued_packets w)"
proof -
  let ?s = "w_sock w" and ?s' = "w_sock w'"
  have mem: "length (w_mem w') = length (w_mem w)" "take (N * 2048) (w_mem w') = take (N * 2048) (w_mem w)"
    using K unfolding spares_frames_def by blast+
  have same: "producer ?s' = producer ?s" "frames ?s' = frames ?s" "slot_rd (x_ring ?s') = slot_rd (x_ring ?s)"
    "ring_cap (x_ring ?s') = ring_cap (x_ring ?s)"
    using rely by (simp_all add: tx_rely_def Let_def)
  obtain k where k: "k \<le> queued_count ?s" "queued_frames ?s' = drop k (queued_frames ?s)"
    using rely by (auto simp: tx_rely_def Let_def)
  have "pool_inv N (set (frame_pool 0 N)) w'" by (rule tx_rely_pool_inv [OF umem_invD(1) [OF inv] rely])
  then have inv': "umem_inv N w'"
    using umem_invD(3,5,6) [OF inv] umem_ok_kept [OF umem_invD(2) [OF inv] same(2,4)] mem(1)
    by (simp add: umem_inv_def lens_ok_def same)
  have "length (queued_frames ?s') = queued_count ?s - k" by (simp add: k(2))
  then have count: "queued_count ?s' = queued_count ?s - k" "taken_count w w' = k"
    using k(1) by (simp_all add: taken_count_def)
  have "cons_ix (x_ring ?s') = producer ?s - of_nat (queued_count ?s - k)"
    using umem_invD(10) [OF inv'] by (simp add: same count)
  then have "cons_ix (x_ring ?s') = cons_ix (x_ring ?s) + of_nat k"
    using umem_invD(10) [OF inv] k(1) by (simp add: of_nat_diff)
  then have q: "queued_descs ?s' = drop k (queued_descs ?s)"
    by (simp add: queued_descs_def count same drop_window k(1))
  have "packet_of (w_mem w') d = packet_of (w_mem w) d" if d: "d \<in> set (queued_descs ?s)" for d
  proof (rule packet_in_pool [OF mem(2)])
    have "unat (d_len d) \<le> 2048"
      using d umem_invD(5) [OF inv] by (auto simp: lens_ok_def queued_descs_def window_def)
    moreover have "d_addr d \<in># all_frames w" using d by (simp add: all_frames_def frames_of_descs)
    ultimately show "unat (d_addr d) + unat (d_len d) \<le> N * 2048"
      using all_frames_in_pool [OF inv, of "d_addr d"] by auto
  qed
  then show ?thesis using inv' by (simp add: queued_packets_def q count drop_map) (metis in_set_dropD)
qed

lemma kernel_takes:
  assumes inv: "fifo_inv N w" and rely: "tx_rely w w'" and K: "K w w'" "spares_frames N K"
  shows "fifo_inv N w' \<and> queued_packets w' = drop (taken_count w w') (queued_packets w)"
  using kernel_umem [OF fifo_invD(2) [OF inv] rely K] tx_rely_inv [OF fifo_invD(1) [OF inv] rely] by (simp add: fifo_inv_def)

section \<open>Runs with their history\<close>

text \<open>
  A run together with the packets that the application has submitted and those that the kernel has taken
  from the queue, as they were in memory at that moment.
\<close>

inductive tx_history ::
  "(tx_op \<Rightarrow> socket \<Rightarrow> bool) \<Rightarrow> (tx_world \<Rightarrow> tx_world \<Rightarrow> bool) \<Rightarrow> build \<Rightarrow> tx_world \<Rightarrow>
    u8 list list \<Rightarrow> u8 list list \<Rightarrow> tx_world \<Rightarrow> bool"
  for A K b w0 where
  history_start: "tx_history A K b w0 [] [] w0"
| history_kernel: "tx_history A K b w0 sub taken w \<Longrightarrow> K w w' \<Longrightarrow>
    tx_history A K b w0 sub (taken @ take (taken_count w w') (queued_packets w)) w'"
| history_call: "tx_history A K b w0 sub taken w \<Longrightarrow> A op (w_sock w) \<Longrightarrow>
    tx_history A K b w0 (sub @ submitted b op w) taken (tx_apply b op w)"

lemma tx_history_any: "tx_history A K b w0 sub taken w \<Longrightarrow> tx_history any_call K b w0 sub taken w"
  by (induction rule: tx_history.induct) (auto simp: any_call_def intro: tx_history.intros)

lemma tx_history_umem:
  assumes "tx_history A K b w0 sub taken w" "umem_inv N w0" "safety_checks b"
    and "\<And>w w'. K w w' \<Longrightarrow> tx_rely w w'" "spares_frames N K"
  shows "umem_inv N w"
  using assms(1)
proof (induction rule: tx_history.induct)
  case history_start
  then show ?case using assms(2) .
next
  case (history_kernel sub taken w w')
  then show ?case using kernel_umem [OF _ assms(4) _ assms(5), of w w'] by auto
next
  case (history_call sub taken w op)
  then show ?case using tx_apply_queue [OF _ assms(3), of N w op] by (auto simp: queues_def)
qed

lemma tx_history_inv:
  assumes "tx_history single_frame K b w0 sub taken w" "fifo_inv N w0" "queued_packets w0 = []" "safety_checks b"
    and "\<And>w w'. K w w' \<Longrightarrow> tx_rely w w'" "spares_frames N K"
  shows "fifo_inv N w \<and> sub = taken @ queued_packets w"
  using assms(1)
proof (induction rule: tx_history.induct)
  case history_start
  then show ?case using assms(2,3) by simp
next
  case (history_kernel sub taken w w')
  then show ?case using kernel_takes [OF _ assms(5) _ assms(6), of w w'] by auto
next
  case (history_call sub taken w op)
  then show ?case using tx_apply_appends [OF _ assms(4), of N w op] by (auto simp: appends_def)
qed

section \<open>Made sockets\<close>

lemma created_fifo_inv:
  assumes os: "os_ok os" "page_ok os" "zero_indices os"
    and made: "create_socket os b if_index if_queue d config = (tr, Ok (Some s, rx))" and mem: "8388608 \<le> length mem"
  shows "fifo_inv (tx_frame_count d) \<lparr>w_sock = s, w_mem = mem, w_held = {#}\<rparr> \<and> queued_descs s = []"
proof -
  let ?w = "\<lparr>w_sock = s, w_mem = mem, w_held = {#}\<rparr>"
  obtain rx_n tx_n where n: "ring_sizes d = (rx_n, tx_n)" by fastforce
  obtain io where io: "d \<noteq> DirRx" "made_tx os tx_n io s"
    using create_socket_Ok [OF os(1,2) n made] by (auto split: if_splits)
  have sz: "ring_size (unat tx_n)" using ring_sizes_ok(1) [OF n io(1)] by simp
  have "lens_ok s" by (simp add: lens_ok_def made_slots [OF io(2) os(3) sz] frame_desc_def)
  then have inv: "fifo_inv (tx_frame_count d) ?w"
    using made_tx_start [OF os made, of mem] mem by (simp add: fifo_inv_def umem_inv_def)
  have "length (app_frames s) = ring_cap (x_ring s)"
    using made_tx_frames [OF io(2) os(3) sz] fifo_invD(1) [OF inv] by (simp add: tx_inv_def frame_pool_def tx_frame_count_def n)
  then have "queued_count s = 0" using tx_inv_count [OF fifo_invD(1) [OF inv]] by simp
  then show ?thesis using inv by (simp add: queued_descs_def)
qed

text \<open>A history that starts with a socket of \<^verbatim>\<open>create_socket\<close>.\<close>

definition tx_log ::
  "(tx_op \<Rightarrow> socket \<Rightarrow> bool) \<Rightarrow> (tx_world \<Rightarrow> tx_world \<Rightarrow> bool) \<Rightarrow> os \<Rightarrow> build \<Rightarrow> direction \<Rightarrow> xdp_config option \<Rightarrow>
    u8 list list \<Rightarrow> u8 list list \<Rightarrow> tx_world \<Rightarrow> bool" where
  "tx_log A K os b d config sub taken w \<longleftrightarrow>
     (\<exists>if_index if_queue tr s rx mem.
        create_socket os b if_index if_queue d config = (tr, Ok (Some s, rx)) \<and>
        8388608 \<le> length mem \<and> tx_history A K b \<lparr>w_sock = s, w_mem = mem, w_held = {#}\<rparr> sub taken w)"

lemma tx_log_any: "tx_log A K os b d config sub taken w \<Longrightarrow> tx_log any_call K os b d config sub taken w"
  unfolding tx_log_def using tx_history_any by blast

lemma tx_log_facts:
  assumes "kernel_ok os K" "safety_checks b" "spares_frames (tx_frame_count d) K"
    and "tx_log single_frame K os b d config sub taken w"
  shows "fifo_inv (tx_frame_count d) w \<and> sub = taken @ queued_packets w"
proof -
  obtain if_index if_queue tr s rx mem where
      made: "create_socket os b if_index if_queue d config = (tr, Ok (Some s, rx))"
    and h: "tx_history single_frame K b \<lparr>w_sock = s, w_mem = mem, w_held = {#}\<rparr> sub taken w" and mem: "8388608 \<le> length mem"
    using assms(4) unfolding tx_log_def by blast
  have "os_ok os" "page_ok os" "zero_indices os" and K: "\<And>w w'. K w w' \<Longrightarrow> tx_rely w w'"
    using assms(1) by (simp_all add: kernel_ok_def)
  then show ?thesis
    using tx_history_inv [OF h _ _ assms(2) K assms(3)] created_fifo_inv [OF _ _ _ made mem]
    by (simp add: queued_packets_def)
qed

lemma tx_log_umem:
  assumes "kernel_ok os K" "safety_checks b" "spares_frames (tx_frame_count d) K" "tx_log A K os b d config sub taken w"
  shows "umem_inv (tx_frame_count d) w"
proof -
  obtain if_index if_queue tr s rx mem where
      made: "create_socket os b if_index if_queue d config = (tr, Ok (Some s, rx))"
    and h: "tx_history A K b \<lparr>w_sock = s, w_mem = mem, w_held = {#}\<rparr> sub taken w" and mem: "8388608 \<le> length mem"
    using assms(4) unfolding tx_log_def by blast
  have os: "os_ok os" "page_ok os" "zero_indices os" and K: "\<And>w w'. K w w' \<Longrightarrow> tx_rely w w'"
    using assms(1) by (simp_all add: kernel_ok_def)
  have "umem_inv (tx_frame_count d) \<lparr>w_sock = s, w_mem = mem, w_held = {#}\<rparr>"
    using created_fifo_inv [OF os made mem] by (simp add: fifo_inv_def)
  then show ?thesis using tx_history_umem [OF h _ assms(2) K assms(3)] by blast
qed

section \<open>Properties\<close>

text \<open>A sample history: one packet is sent and taken by the kernel.\<close>

lemma loopback_spares: "spares_frames N loopback_kernel"
  by (simp add: spares_frames_def loopback_kernel_def loopback_def Let_def)

lemma unat_eq_u32: "unat (x :: u32) = numeral n \<Longrightarrow> x = numeral n"
  by (metis of_nat_numeral of_nat_unat ucast_id)

lemma loopback_takes:
  assumes "tx_shape (w_sock w)" "0 < queued_count (w_sock w)" "pending (w_sock w) < ring_cap (u_ring (w_sock w))"
    "w_held w = {#}"
  shows "loopback_kernel w (loopback w) \<and> queued_count (w_sock (loopback w)) = queued_count (w_sock w) - 1 \<and>
    available (w_sock (loopback w)) = available (w_sock w)"
proof -
  let ?s = "w_sock w"
  have "producer ?s - cons_ix (x_ring ?s) \<noteq> 0" using assms(2) by (auto simp: queued_count_def)
  then have "unat (producer ?s - cons_ix (x_ring ?s) - 1) = queued_count ?s - 1"
    by (simp add: queued_count_def unat_minus_one)
  then show ?thesis
    using assms by (simp add: loopback_kernel_def) (simp add: loopback_def Let_def queued_count_def diff_diff_eq)
qed

lemma fifo_inv_room:
  assumes "fifo_inv N w" "0 < queued_count (w_sock w)"
  shows "tx_shape (w_sock w)" "pending (w_sock w) < ring_cap (u_ring (w_sock w))"
  using tx_inv_count [OF fifo_invD(1) [OF assms(1)]] fifo_invD(1) [OF assms(1)] assms(2)
  by (simp_all add: tx_inv_def tx_shape_def)

lemma sample_available:
  assumes "create_socket sample_os b i q DirTx None = (tr, Ok (Some s, rx))"
  shows "available s = 4096"
proof -
  obtain io where "made_tx sample_os FRAME_COUNT io s"
    using create_socket_Ok [OF sample_os_ok(1,2) _ assms, of 0 FRAME_COUNT] by (auto simp: ring_sizes_def)
  then have "length (app_frames s) = 4096"
    using made_tx_frames [OF _ sample_os_ok(3)] by (simp add: frame_pool_def)
  then show ?thesis by (simp add: unat_eq_u32)
qed

lemma sample_log:
  "\<exists>w. tx_log single_frame loopback_kernel sample_os sample_build DirTx None [[9, 1, 2, 3], [5]] [[9, 1, 2, 3]] w \<and>
     available (w_sock w) = 4094 \<and> queued_count (w_sock w) = 1 \<and> w_held w = {#}"
proof -
  obtain tr s rx where s: "create_socket sample_os sample_build 2 0 DirTx None = (tr, Ok (Some s, rx))"
    using sample_creates_tx [of DirTx] by blast
  define mem :: "u8 list" where "mem = replicate 8388608 0"
  define w0 where "w0 = \<lparr>w_sock = s, w_mem = mem, w_held = {#}\<rparr>"
  have mem: "8388608 \<le> length mem" unfolding mem_def length_replicate ..
  have log: "tx_log single_frame loopback_kernel sample_os sample_build DirTx None sub taken w"
    if "tx_history single_frame loopback_kernel sample_build w0 sub taken w" for sub taken w
    using s that mem unfolding tx_log_def w0_def by blast
  have facts: "fifo_inv 4096 w \<and> sub = taken @ queued_packets w"
    if "tx_history single_frame loopback_kernel sample_build w0 sub taken w" for sub taken w
    using tx_log_facts [OF sample_kernel_ok _ loopback_spares log [OF that]]
    by (simp add: tx_frame_count_def ring_sizes_def FRAME_COUNT_def)
  have call: "tx_history single_frame loopback_kernel sample_build w0 (sub @ [header_bytes h @ data]) taken (tx_apply sample_build (OpSend data h) w) \<and>
      available (w_sock (tx_apply sample_build (OpSend data h) w)) = available (w_sock w) - 1"
    if t: "tx_history single_frame loopback_kernel sample_build w0 sub taken w" and a: "0 < available (w_sock w)"
      and l: "length (header_bytes h @ data) < 2048" for sub taken w h data
  proof -
    have inv: "fifo_inv 4096 w" using facts [OF t] by blast
    have "submitted sample_build (OpSend data h) w = [header_bytes h @ data]"
      using send_result [OF fifo_invD(2) [OF inv] a refl l, of sample_build] by simp
    then show ?thesis
      using history_call [OF t, of "OpSend data h"] send_result [OF fifo_invD(2) [OF inv] a refl l, of sample_build] by (simp add: sent_def)
  qed
  have av0: "available (w_sock w0) = 4096" using sample_available [OF s] by (simp add: w0_def)
  define w1 where "w1 = tx_apply sample_build (OpSend [1, 2, 3] (Some [9])) w0"
  have 1: "tx_history single_frame loopback_kernel sample_build w0 [[9, 1, 2, 3]] [] w1" "available (w_sock w1) = 4095"
    using call [OF history_start, of "Some [9]" "[1, 2, 3]"] av0 by (simp_all add: w1_def header_bytes_def)
  have inv1: "fifo_inv 4096 w1" and q1: "queued_packets w1 = [[9, 1, 2, 3]]" using facts [OF 1(1)] by simp_all
  have "length (queued_packets w1) = 1" by (simp only: q1) simp
  then have c1: "queued_count (w_sock w1) = 1" by (simp add: queued_packets_def)
  have h1: "w_held w1 = {#}" unfolding w1_def tx_apply_held by (simp add: w0_def)
  note k = loopback_takes [OF fifo_inv_room(1) [OF inv1] _ fifo_inv_room(2) [OF inv1] h1, unfolded c1]
  define w2 where "w2 = loopback w1"
  have 2: "tx_history single_frame loopback_kernel sample_build w0 [[9, 1, 2, 3]] [[9, 1, 2, 3]] w2" "available (w_sock w2) = 4095"
    using history_kernel [OF 1(1), of w2] k 1(2) by (simp_all add: taken_count_def c1 q1 w2_def)
  define w3 where "w3 = tx_apply sample_build (OpSend [5] None) w2"
  have 3: "tx_history single_frame loopback_kernel sample_build w0 [[9, 1, 2, 3], [5]] [[9, 1, 2, 3]] w3" "available (w_sock w3) = 4094"
    using call [OF 2(1), of None "[5]"] 2(2) by (simp_all add: w3_def header_bytes_def)
  have q3: "[[5]] = queued_packets w3" using facts [OF 3(1)] by simp
  have "length (queued_packets w3) = 1" unfolding q3 [symmetric] by simp
  then have "queued_count (w_sock w3) = 1" by (simp add: queued_packets_def)
  moreover have "w_held w3 = {#}" unfolding w3_def tx_apply_held w2_def using h1 by (simp add: loopback_def Let_def)
  ultimately show ?thesis using log [OF 3(1)] 3(2) by blast
qed

text \<open>
  C1. Packets leave in the order in which they were submitted, unchanged: in every run of a made transmit socket, with any
  interleaving of calls, writes into buffers and kernel moves, in which no \<^verbatim>\<open>seek_n\<close> reclaims several frames, or one while others are
  available (\<open>single_frame\<close>), and with a kernel that only reads the frames of the socket, the packets that the kernel took from the queue followed by those still in it are exactly, byte by
  byte, the packets that successful calls of \<^verbatim>\<open>send\<close> and \<^verbatim>\<open>commit_n\<close> handed over. A \<^verbatim>\<open>seek_n\<close> that is not of this kind gives two buffers
  one frame (\<open>Seek_Batch\<close>), and what is then written into one is sent in the other.
\<close>

theorem packets_in_order:
  assumes "kernel_ok os K" "safety_checks b" "spares_frames (tx_frame_count d) K"
    and "tx_log single_frame K os b d config sub taken w"
  shows "sub = taken @ queued_packets w"
  using tx_log_facts [OF assms] by blast

theorem packets_in_order_witness:
  "\<exists>w. tx_log single_frame loopback_kernel sample_os sample_build DirTx None [[9, 1, 2, 3], [5]] [[9, 1, 2, 3]] w \<and>
     queued_packets w = [[5]]"
proof -
  obtain w where w: "tx_log single_frame loopback_kernel sample_os sample_build DirTx None [[9, 1, 2, 3], [5]] [[9, 1, 2, 3]] w"
    using sample_log by blast
  have "[[9, 1, 2, 3], [5]] = [[9, 1, 2, 3]] @ queued_packets w"
    using packets_in_order [OF sample_kernel_ok _ loopback_spares w] by simp
  then show ?thesis using w by auto
qed

text \<open>
  C3. No call changes a byte outside the frames that are available when it is made: in every state of every run of a made transmit
  socket, whatever the application has called, however many frames it has reclaimed at once and whatever it calls or writes into a buffer
  now, each byte that changes is in an available frame. So memory behind the frames of the socket, where the receive socket of a
  pair has its own, stays as it was, and so does every frame that is queued, held by the kernel or completed, unless it is available at
  the same time; and it never is in a run in which no \<^verbatim>\<open>seek_n\<close> reclaims several frames, or one while others are available.
\<close>

theorem calls_spare_owned_frames:
  assumes "kernel_ok os K" "safety_checks b" "spares_frames (tx_frame_count d) K"
    and "tx_log any_call K os b d config sub taken w"
    and "N = tx_frame_count d * 2048" "mem' = w_mem (tx_apply b op w)"
    and "owned = mset (queued_frames (w_sock w)) + w_held w + mset (completed_frames (w_sock w))"
  shows "length mem' = length (w_mem w) \<and> drop N mem' = drop N (w_mem w) \<and>
    (\<forall>i < length mem'. mem' ! i \<noteq> w_mem w ! i \<longrightarrow>
       (\<exists>a \<in> set (app_frames (w_sock w)). unat a \<le> i \<and> i < unat a + 2048)) \<and>
    (\<forall>a \<in># owned. a \<notin> set (app_frames (w_sock w)) \<longrightarrow> frame_bytes mem' a = frame_bytes (w_mem w) a) \<and>
    (tx_log single_frame K os b d config sub taken w \<longrightarrow> (\<forall>a \<in># owned. a \<notin> set (app_frames (w_sock w))))"
proof (intro conjI ballI impI)
  have inv: "umem_inv (tx_frame_count d) w" by (rule tx_log_umem [OF assms(1-4)])
  have t: "touches (set (app_frames (w_sock w))) (w_mem w) mem'"
    using tx_apply_queue [OF inv assms(2), of op] by (simp add: queues_def assms(6))
  show "length mem' = length (w_mem w)" by (rule touches_length [OF t])
  show "drop N mem' = drop N (w_mem w)"
    using app_frame_inside(1) [OF inv] by (intro touches_drop [OF t]) (simp add: assms(5))
  show "\<forall>i < length mem'. mem' ! i \<noteq> w_mem w ! i \<longrightarrow> (\<exists>a \<in> set (app_frames (w_sock w)). unat a \<le> i \<and> i < unat a + 2048)"
    using t unfolding touches_def by fastforce
  show "frame_bytes mem' a = frame_bytes (w_mem w) a" if "a \<in># owned" "a \<notin> set (app_frames (w_sock w))" for a
    using other_frames_kept [OF inv t _ that(2)] that(1) by (auto simp: assms(7) all_frames_def)
  show "a \<notin> set (app_frames (w_sock w))" if "tx_log single_frame K os b d config sub taken w" "a \<in># owned" for a
    using one_owner tx_log_facts [OF assms(1-3) that(1)] that(2) unfolding assms(7) by blast
qed

theorem calls_spare_owned_frames_witness:
  "\<exists>w. tx_log single_frame loopback_kernel sample_os sample_build DirTx None [[9, 1, 2, 3], [5]] [[9, 1, 2, 3]] w \<and>
     length (queued_frames (w_sock w)) = 1 \<and>
     (\<forall>a \<in> set (queued_frames (w_sock w)).
        frame_bytes (w_mem (tx_apply sample_build (OpWrite 0 60 4 [7, 7]) w)) a = frame_bytes (w_mem w) a)"
proof -
  obtain w where w: "tx_log single_frame loopback_kernel sample_os sample_build DirTx None [[9, 1, 2, 3], [5]] [[9, 1, 2, 3]] w"
    "queued_count (w_sock w) = 1"
    using sample_log by blast
  then show ?thesis
    using calls_spare_owned_frames [OF sample_kernel_ok _ loopback_spares tx_log_any [OF w(1)] refl refl refl,
        of "OpWrite 0 60 4 [7, 7]"]
    by (intro exI [of _ w]) simp
qed

end
