(* ===== verification/Send_Cycle.thy ===== *)
theory Send_Cycle
  imports Packet_Fifo
begin

text \<open>
  The documented way to send (\<^verbatim>\<open>send.rs\<close>): \<^verbatim>\<open>seek\<close> a frame, then \<^verbatim>\<open>send\<close> a packet, over and over. With a kernel that
  completes what it takes, this goes on forever, however many packets there are and however small the ring.
\<close>

section \<open>The client\<close>

text \<open>\<open>k\<close> is what the kernel does between two packets.\<close>

fun send_each ::
  "build \<Rightarrow> (tx_world \<Rightarrow> tx_world) \<Rightarrow> u8 list list \<Rightarrow> tx_world \<Rightarrow> tx_world \<times> (ring_error, unit) res"
where
  "send_each b k [] w = (w, Ok ())"
| "send_each b k (p # ps) w =
     (case socket_seek seek_tx b (w_sock w) of (s1, r1) \<Rightarrow>
      try_in (w\<lparr>w_sock := s1\<rparr>) r1 (\<lambda>_.
      case send b (s1, w_mem w) p None of ((s2, mem2), r2) \<Rightarrow>
      try_in (w\<lparr>w_sock := s2, w_mem := mem2\<rparr>) r2 (\<lambda>_.
      send_each b k ps (k (w\<lparr>w_sock := s2, w_mem := mem2\<rparr>)))))"

text \<open>The kernel is prompt: it takes a packet that is queued and completes it before the next one.\<close>

definition prompt :: "(tx_world \<Rightarrow> tx_world \<Rightarrow> bool) \<Rightarrow> (tx_world \<Rightarrow> tx_world) \<Rightarrow> bool" where
  "prompt K k \<longleftrightarrow> (\<forall>w. tx_shape (w_sock w) \<longrightarrow> queued_count (w_sock w) = 1 \<longrightarrow> w_held w = {#} \<longrightarrow>
     pending (w_sock w) < ring_cap (u_ring (w_sock w)) \<longrightarrow>
     K w (k w) \<and> queued_count (w_sock (k w)) = 0 \<and> w_held (k w) = {#})"

definition settled_tx :: "nat \<Rightarrow> tx_world \<Rightarrow> bool" where
  "settled_tx N w \<longleftrightarrow> fifo_inv N w \<and> queued_count (w_sock w) = 0 \<and> w_held w = {#}"

section \<open>One packet\<close>

lemma seek_gives_frame:
  assumes "settled_tx N w" "0 < N"
  shows "\<exists>s r. socket_seek seek_tx b (w_sock w) = (s, Ok r) \<and> 0 < available s \<and>
    w\<lparr>w_sock := s\<rparr> = tx_apply b (OpSeek 1) w"
proof -
  let ?s = "w_sock w"
  have inv: "fifo_inv N w" and q: "queued_count ?s = 0" "w_held w = {#}"
    using assms(1) by (simp_all add: settled_tx_def)
  have wf: "wf_tx ?s" by (rule umem_invD(8) [OF fifo_invD(2) [OF inv]])
  have "unat (available ?s) + pending ?s = N"
    using tx_inv_count [OF fifo_invD(1) [OF inv]] fifo_invD(1) [OF inv] q by (simp add: tx_inv_def frame_pool_def)
  then have some: "available ?s = 0 \<Longrightarrow> 0 < pending ?s" using assms(2) by simp
  show ?thesis
  proof (cases "available ?s = 0")
    case True
    then have n: "\<not> (1 :: usize) \<le> ucast (available ?s)" by (simp add: word_le_nat_alt)
    have "Suc 0 = min (unat (1 :: usize) - unat (available ?s)) (pending ?s)" using True some by simp
    then have "seek_tx b ?s 1 = (reclaimed (Suc 0) ?s, Ok (ucast (available (reclaimed (Suc 0) ?s))))"
      by (rule seek_tx_reclaims [OF wf n some [OF True]])
    then show ?thesis by (simp add: socket_seek_def socket_seek_n_def) (simp add: reclaimed_def True)
  next
    case False
    then have "(1 :: usize) \<le> ucast (available ?s)" by (simp add: word_le_nat_alt unat_gt_0 Suc_le_eq)
    then show ?thesis
      using False by (simp add: socket_seek_def socket_seek_n_def seek_tx_hit word_gt_0)
  qed
qed

lemma send_each_step:
  assumes h: "tx_history single_frame K b w0 sub taken w" and w: "settled_tx N w" "0 < N" and b: "safety_checks b"
    and K: "\<And>w w'. K w w' \<Longrightarrow> tx_rely w w'" "spares_frames N K" "prompt K k" and p: "length p < 2048"
  shows "\<exists>w'. tx_history single_frame K b w0 (sub @ [p]) (taken @ [p]) w' \<and> settled_tx N w' \<and>
    send_each b k (p # ps) w = send_each b k ps w'"
proof -
  obtain s r where s: "socket_seek seek_tx b (w_sock w) = (s, Ok r)" "0 < available s"
    "w\<lparr>w_sock := s\<rparr> = tx_apply b (OpSeek 1) w"
    using seek_gives_frame [OF w] by blast
  have inv: "fifo_inv N w" and q: "queued_count (w_sock w) = 0" "w_held w = {#}"
    using w(1) by (simp_all add: settled_tx_def)
  define w1 where "w1 = w\<lparr>w_sock := s\<rparr>"
  have w1: "w_sock w1 = s" "w_mem w1 = w_mem w" "w_held w1 = {#}" by (simp_all add: w1_def q)
  have 1: "appends N [] w w1"
    using tx_apply_appends [OF inv b single_frame_one] by (simp add: w1_def s(3))
  then have inv1: "fifo_inv N w1" by (simp add: appends_def)
  define w2 where "w2 = tx_apply b (OpSend p None) w1"
  have send: "\<exists>s2 m2. send b (s, w_mem w) p None = ((s2, m2), Ok ()) \<and> w2 = w1\<lparr>w_sock := s2, w_mem := m2\<rparr>"
    using send_result [OF fifo_invD(2) [OF inv1], of "length p" None p b] s(2) p by (simp add: w1 w2_def header_bytes_def)
  then have sub: "submitted b (OpSend p None) w1 = [p]" using w1 by (auto simp: header_bytes_def)
  have 2: "appends N [p] w1 w2" using tx_apply_appends [OF inv1 b, of "OpSend p None"] by (simp only: sub w2_def single_frame.simps)
  then have inv2: "fifo_inv N w2" by (simp add: appends_def)
  have "queued_packets w = []" using q by (simp add: queued_packets_def flip: length_0_conv)
  then have q2: "queued_packets w2 = [p]" using 1 2 by (simp add: appends_def)
  then have "length (queued_packets w2) = 1" by simp
  then have c2: "queued_count (w_sock w2) = 1" by (simp add: queued_packets_def)
  have held: "w_held w2 = {#}" using send w1 by auto
  have "tx_shape (w_sock w2)" "pending (w_sock w2) < ring_cap (u_ring (w_sock w2))"
    using fifo_inv_room [OF inv2] c2 by simp_all
  then have k: "K w2 (k w2)" "queued_count (w_sock (k w2)) = 0" "w_held (k w2) = {#}"
    using K(3) c2 held by (simp_all add: prompt_def)
  have "tx_history single_frame K b w0 sub taken w1"
    using history_call [OF h single_frame_one] by (simp add: w1_def s(3))
  then have "tx_history single_frame K b w0 (sub @ [p]) taken w2"
    using history_call [of single_frame K b w0 sub taken w1 "OpSend p None"] by (simp only: sub w2_def single_frame.simps)
  then have "tx_history single_frame K b w0 (sub @ [p]) (taken @ [p]) (k w2)"
    using history_kernel [where K = K and w' = "k w2", OF _ k(1)] by (fastforce simp: taken_count_def c2 k q2)
  moreover have "settled_tx N (k w2)"
    using kernel_takes [OF inv2 K(1) [OF k(1)] k(1) K(2)] k by (simp add: settled_tx_def)
  moreover have "send_each b k (p # ps) w = send_each b k ps (k w2)"
    using send by (auto simp: s(1) w1_def)
  ultimately show ?thesis by blast
qed

lemma send_each_all:
  assumes "tx_history single_frame K b w0 sub taken w" "settled_tx N w" "0 < N" "safety_checks b"
    and "\<And>w w'. K w w' \<Longrightarrow> tx_rely w w'" "spares_frames N K" "prompt K k" "\<forall>p \<in> set ps. length p < 2048"
  shows "\<exists>w'. send_each b k ps w = (w', Ok ()) \<and> tx_history single_frame K b w0 (sub @ ps) (taken @ ps) w'"
  using assms(1,2,8)
proof (induction ps arbitrary: sub taken w)
  case Nil
  then show ?case by simp
next
  case (Cons p ps)
  then obtain w' where "tx_history single_frame K b w0 (sub @ [p]) (taken @ [p]) w'" "settled_tx N w'"
    "send_each b k (p # ps) w = send_each b k ps w'"
    using send_each_step [OF Cons.prems(1,2) assms(3-7), of p ps] by auto
  then show ?case using Cons.IH [of "sub @ [p]" "taken @ [p]" w'] Cons.prems(3) by simp
qed

section \<open>Any number of packets\<close>

text \<open>
  C9. The documented cycle never runs out of frames: on a socket that \<^verbatim>\<open>create_socket\<close> made, a client that calls \<^verbatim>\<open>seek\<close> before
  each \<^verbatim>\<open>send\<close> sends any number of packets without an error, if the kernel completes each packet before the next
  one, and the kernel has then taken exactly these packets in their order.
\<close>

theorem send_cycle_never_stops:
  assumes "kernel_ok os K" "safety_checks b" "spares_frames (tx_frame_count d) K" "prompt K k"
    and "create_socket os b if_index if_queue d config = (tr, Ok (Some s, rx))" "8388608 \<le> length mem"
    and "\<forall>p \<in> set ps. length p < 2048"
  shows "\<exists>w. send_each b k ps \<lparr>w_sock = s, w_mem = mem, w_held = {#}\<rparr> = (w, Ok ()) \<and>
    tx_log single_frame K os b d config ps ps w"
proof -
  let ?w = "\<lparr>w_sock = s, w_mem = mem, w_held = {#}\<rparr>" and ?N = "tx_frame_count d"
  have K: "\<And>w w'. K w w' \<Longrightarrow> tx_rely w w'" using assms(1) by (simp add: kernel_ok_def)
  have log: "tx_log single_frame K os b d config sub taken w" if "tx_history single_frame K b ?w sub taken w" for sub taken w
    using assms(5,6) that unfolding tx_log_def by blast
  have inv: "fifo_inv ?N ?w" "queued_packets ?w = []"
    using tx_log_facts [OF assms(1-3) log [OF history_start]] by simp_all
  have "length (queued_packets ?w) = 0" using inv(2) by simp
  then have "settled_tx ?N ?w" using inv(1) by (simp add: settled_tx_def queued_packets_def)
  moreover have "ring_cap (x_ring s) = ?N" using fifo_invD(1) [OF inv(1)] by (simp add: tx_inv_def frame_pool_def)
  then have "0 < ?N" using umem_invD(7) [OF fifo_invD(2) [OF inv(1)]] ring_okD(3) ring_size_pos by force
  ultimately show ?thesis
    using send_each_all [OF history_start _ _ assms(2) K assms(3,4,7), of ?w] log by fastforce
qed

lemma loopback_prompt: "prompt loopback_kernel loopback"
  unfolding prompt_def using loopback_takes by (simp add: loopback_def Let_def)

theorem send_cycle_never_stops_witness:
  "\<exists>s mem w. send_each sample_build loopback (replicate 10000 [1, 2, 3]) \<lparr>w_sock = s, w_mem = mem, w_held = {#}\<rparr> = (w, Ok ()) \<and>
     tx_log single_frame loopback_kernel sample_os sample_build DirTx None (replicate 10000 [1, 2, 3]) (replicate 10000 [1, 2, 3]) w"
proof -
  obtain tr s rx where s: "create_socket sample_os sample_build 2 0 DirTx None = (tr, Ok (Some s, rx))"
    using sample_creates_tx [of DirTx] by blast
  obtain mem :: "u8 list" where "length mem = 8388608" using Ex_list_of_length by blast
  then have "8388608 \<le> length mem" by simp
  from send_cycle_never_stops [OF sample_kernel_ok _ loopback_spares loopback_prompt s this, of "replicate 10000 [1, 2, 3]"]
  show ?thesis by auto
qed

end
