(* ===== verification/Rx_Fifo.thy ===== *)
theory Rx_Fifo
  imports Rx_Protocol Rx_Properties Umem_Bytes
begin

unbundle bit_operations_syntax

text \<open>
  Packets on the receive side: what the application reads is, byte by byte and in order, what the kernel
  delivered, although the kernel goes on receiving into the frames it was given.
\<close>

section \<open>Packets in the RX ring\<close>

definition received_packets :: "rx_world \<Rightarrow> u8 list \<Rightarrow> u8 list list" where
  "received_packets w mem = map (packet_of mem) (received_descs (rw_sock w))"

definition in_frame :: "xdp_desc \<Rightarrow> bool" where
  "in_frame d \<longleftrightarrow> unat (d_addr d) mod 2048 + unat (d_len d) \<le> 2048"

lemma in_frame_range:
  "in_frame d \<Longrightarrow> unat (frame_of (d_addr d)) \<le> unat (d_addr d) \<and>
    unat (d_addr d) + unat (d_len d) \<le> unat (frame_of (d_addr d)) + 2048"
  using div_mult_mod_eq [of "unat (d_addr d)" 2048] unfolding in_frame_def unat_frame_of by linarith

text \<open>The frames that the kernel may write: those it holds and those in the Fill ring.\<close>

definition kernel_frames :: "rx_world \<Rightarrow> u64 set" where
  "kernel_frames w = set_mset (rw_held w) \<union> set (map frame_of (free_frames (rw_sock w)))"

text \<open>
  A move of the kernel, now with descriptors and memory: the packets that were there stay as they are, new
  ones lie each in one frame, and only frames of the kernel are written.
\<close>

definition delivers :: "rx_world \<Rightarrow> u8 list \<Rightarrow> rx_world \<Rightarrow> u8 list \<Rightarrow> bool" where
  "delivers w mem w' mem' \<longleftrightarrow> rx_rely w w' \<and> touches (kernel_frames w) mem mem' \<and>
     (\<exists>ds. received_descs (rw_sock w') = received_descs (rw_sock w) @ ds \<and> (\<forall>d \<in> set ds. in_frame d))"

section \<open>Runs with their history\<close>

text \<open>The packets that a call gives back: those that a successful \<^verbatim>\<open>commit_n\<close> releases.\<close>

fun given_back :: "build \<Rightarrow> rx_op \<Rightarrow> rx_world \<Rightarrow> u8 list \<Rightarrow> u8 list list" where
  "given_back b (RxCommit n) w mem =
     (if snd (socket_commit_n commit_rx b (rw_sock w) n) = Ok ()
      then take (unat n mod 2 ^ 32) (received_packets w mem) else [])"
| "given_back b _ w mem = []"

text \<open>
  A run with the packets that the kernel has delivered, as they were in memory at that moment, and the packets
  that were given back, as the application could read them until then.
\<close>

inductive rx_history ::
  "(rx_world \<Rightarrow> u8 list \<Rightarrow> rx_world \<Rightarrow> u8 list \<Rightarrow> bool) \<Rightarrow> build \<Rightarrow> rx_world \<Rightarrow> u8 list \<Rightarrow>
    u8 list list \<Rightarrow> u8 list list \<Rightarrow> rx_world \<Rightarrow> u8 list \<Rightarrow> bool"
  for K b w0 mem0 where
  rx_history_start: "rx_history K b w0 mem0 (received_packets w0 mem0) [] w0 mem0"
| rx_history_kernel: "rx_history K b w0 mem0 del given w mem \<Longrightarrow> K w mem w' mem' \<Longrightarrow>
    rx_history K b w0 mem0
      (del @ map (packet_of mem') (drop (received (rw_sock w)) (received_descs (rw_sock w')))) given w' mem'"
| rx_history_call: "rx_history K b w0 mem0 del given w mem \<Longrightarrow>
    rx_history K b w0 mem0 del (given @ given_back b op w mem) (rx_apply b op w) mem"

definition rx_fifo_inv :: "u64 list \<Rightarrow> rx_world \<Rightarrow> bool" where
  "rx_fifo_inv pool w \<longleftrightarrow> rx_inv pool w \<and> distinct pool \<and> (\<forall>a \<in> set pool. frame_of a = a) \<and>
     (\<forall>d \<in> set (received_descs (rw_sock w)). in_frame d)"

section \<open>Steps\<close>

text \<open>No call of the application changes a descriptor that waits; a commit takes the first ones off.\<close>

lemma seek_rx_descs:
  assumes "ring_ok (x_ring s)"
  shows "received_descs (fst (seek_rx b s n)) = received_descs s"
proof -
  have "fst (seek_rx b s n) \<in> {s, s\<lparr>available := of_nat (received s)\<rparr>}"
    using seek_rx_empty [OF assms, of n b] seek_rx_finds [OF assms, of n b]
    by (cases "n \<le> ucast (available s)"; cases "received s = 0") (simp_all add: seek_rx_def)
  then show ?thesis by (auto simp: received_descs_def received_def)
qed

lemma peek_rx_descs:
  assumes "ring_ok (x_ring s)"
  shows "received_descs (fst (peek_rx b s i)) = received_descs s"
  using peek_rx_rings [OF assms, of b i] by (auto simp: received_descs_def received_def)

lemma commit_rx_descs:
  assumes wf: "wf_rx s" and b: "safety_checks b"
  shows "\<exists>r. commit_rx b s n = (fst (commit_rx b s n), r) \<and> received_descs (fst (commit_rx b s n)) =
    (if r = Ok () then drop (unat n mod 2 ^ 32) (received_descs s) else received_descs s)"
proof (cases "available s < ucast n")
  case True
  then show ?thesis using rx.commit_refused [OF b True] by simp
next
  case False
  then have n: "ucast n \<le> available s" by simp
  then have "unat (ucast n :: u32) \<le> received s" using wf by (simp add: wf_rx_def word_le_nat_alt)
  then show ?thesis
    using commit_rx_ok [OF _ n, of b] received_descs_released wf by (simp add: wf_rx_def unat_ucast_64_32)
qed

lemma rx_apply_descs:
  assumes inv: "rx_inv pool w" and b: "safety_checks b"
  shows "received_packets w mem = given_back b op w mem @ received_packets (rx_apply b op w) mem \<and>
    set (received_descs (rw_sock (rx_apply b op w))) \<subseteq> set (received_descs (rw_sock w))"
proof -
  have x: "ring_ok (x_ring (rw_sock w))" using inv by (simp add: rx_inv_def rx_shape_def rings_rx_def)
  show ?thesis
  proof (cases op)
    case (RxSeek n)
    then show ?thesis using seek_rx_descs [OF x] by (simp add: socket_seek_n_def received_packets_def)
  next
    case (RxPeekAt i)
    then show ?thesis using peek_rx_descs [OF x] by (simp add: peek_at_rx_def received_packets_def)
  next
    case RxSeekAndPeek
    obtain s1 r where s1: "seek_rx b (rw_sock w) 1 = (s1, r)" by fastforce
    have "ring_ok (x_ring s1)"
      using seek_rx_inv [OF inv, of b 1] by (simp add: s1 rx_inv_def rx_shape_def rings_rx_def)
    then have "received_descs (fst (peek_rx b s1 0)) = received_descs (rw_sock w)" "received_descs s1 = received_descs (rw_sock w)"
      using peek_rx_descs seek_rx_descs [OF x, of b 1] by (simp_all add: s1)
    then show ?thesis
      by (cases r) (simp_all add: RxSeekAndPeek seek_and_peek_rx_def s1 received_packets_def)
  next
    case (RxCommit n)
    obtain r where r: "commit_rx b (rw_sock w) n = (fst (commit_rx b (rw_sock w) n), r)"
      "received_descs (fst (commit_rx b (rw_sock w) n)) =
        (if r = Ok () then drop (unat n mod 2 ^ 32) (received_descs (rw_sock w)) else received_descs (rw_sock w))"
      using commit_rx_descs [OF rx_inv_wf [OF inv] b] by blast
    then have "snd (commit_rx b (rw_sock w) n) = r" by (metis snd_conv)
    then show ?thesis
      using r(2) by (auto simp: RxCommit socket_commit_n_def received_packets_def take_map drop_map
          simp flip: map_append dest: in_set_dropD)
  qed
qed

lemma rx_apply_fifo:
  assumes "rx_fifo_inv pool w" "safety_checks b"
  shows "rx_fifo_inv pool (rx_apply b op w) \<and>
    received_packets w mem = given_back b op w mem @ received_packets (rx_apply b op w) mem"
  using assms rx_apply_inv [of pool w b op] rx_apply_descs [where pool = pool and w = w and b = b and op = op and mem = mem] by (auto simp: rx_fifo_inv_def)

text \<open>A frame with a received packet is not one of the kernel, so that its bytes stay.\<close>

lemma received_frames_apart:
  assumes inv: "rx_fifo_inv pool w" and d: "d \<in> set (received_descs (rw_sock w))" and a: "a \<in> kernel_frames w"
  shows "unat (frame_of (d_addr d)) + 2048 \<le> unat a \<or> unat a + 2048 \<le> unat (frame_of (d_addr d))"
proof -
  let ?k = "mset (map frame_of (free_frames (rw_sock w))) + rw_held w"
    and ?r = "mset (map frame_of (received_frames (rw_sock w)))" and ?f = "frame_of (d_addr d)"
  have all: "?k + ?r = mset pool" using inv by (simp add: rx_fifo_inv_def rx_inv_def rx_frames_def)
  have f: "?f \<in># ?r" using d by (auto simp: received_frames_descs)
  have ak: "a \<in># ?k" using a by (auto simp: kernel_frames_def)
  have "count (mset pool) ?f \<le> 1" using inv by (simp add: rx_fifo_inv_def distinct_count_atmost_1)
  moreover have "count (mset pool) ?f = count ?k ?f + count ?r ?f" by (simp only: all [symmetric] count_union)
  moreover have "0 < count ?r ?f" using f by (simp only: count_greater_zero_iff)
  ultimately have "count ?k ?f = 0" by linarith
  then have ne: "a \<noteq> ?f" using ak by (metis count_eq_zero_iff)
  have "a \<in># mset pool" using ak by (simp only: all [symmetric] union_iff) simp
  then have "frame_of a = a" using inv by (simp add: rx_fifo_inv_def)
  then obtain k l where "unat a = k * 2048" "unat ?f = l * 2048" by (metis unat_frame_of)
  then show ?thesis using ne by (cases k l rule: linorder_cases) (auto simp: word_unat_eq_iff)
qed

lemma delivers_fifo:
  assumes inv: "rx_fifo_inv pool w" and del: "delivers w mem w' mem'"
  shows "rx_fifo_inv pool w' \<and> received_packets w' mem' =
    received_packets w mem @ map (packet_of mem') (drop (received (rw_sock w)) (received_descs (rw_sock w')))"
proof -
  obtain ds where ds: "received_descs (rw_sock w') = received_descs (rw_sock w) @ ds" "\<forall>d \<in> set ds. in_frame d"
    and rely: "rx_rely w w'" and t: "touches (kernel_frames w) mem mem'"
    using del by (auto simp: delivers_def)
  have "packet_of mem' d = packet_of mem d" if d: "d \<in> set (received_descs (rw_sock w))" for d
    unfolding packet_of_def
  proof (rule touches_range [OF t])
    fix a assume "a \<in> kernel_frames w"
    then show "unat (d_addr d) + unat (d_len d) \<le> unat a \<or> unat a + 2048 \<le> unat (d_addr d)"
      using received_frames_apart [OF inv d, of a] in_frame_range [of d] d inv by (force simp: rx_fifo_inv_def)
  qed
  then have "map (packet_of mem') (received_descs (rw_sock w)) = received_packets w mem"
    by (simp add: received_packets_def)
  moreover have "rx_fifo_inv pool w'"
    using inv ds rx_rely_inv [OF _ rely] by (auto simp: rx_fifo_inv_def)
  ultimately show ?thesis by (simp add: received_packets_def ds(1))
qed

lemma rx_history_inv:
  assumes "rx_history K b w0 mem0 del given w mem" "rx_fifo_inv pool w0" "safety_checks b"
    and "\<And>w mem w' mem'. K w mem w' mem' \<Longrightarrow> delivers w mem w' mem'"
  shows "rx_fifo_inv pool w \<and> del = given @ received_packets w mem"
  using assms(1)
proof (induction rule: rx_history.induct)
  case rx_history_start
  then show ?case using assms(2) by simp
next
  case (rx_history_kernel del given w mem w' mem')
  then show ?case using delivers_fifo [OF _ assms(4)] by fastforce
next
  case (rx_history_call del given w mem op)
  then show ?case using rx_apply_fifo [OF _ assms(3), where pool = pool and w = w and op = op and mem = mem] by auto
qed

section \<open>Reading\<close>

text \<open>A buffer that \<^verbatim>\<open>peek_at\<close> gives out is what its descriptor describes.\<close>

lemma peek_rx_gives:
  assumes "ring_ok (x_ring s)" "safety_checks b" "snd (peek_rx b s i) = Ok sl" "d = slot_rd (x_ring s) (consumer s + ucast i)"
  shows "unat i < unat (available s) \<and> sl = \<lparr>sl_off = unat (d_addr d), sl_len = unat (d_len d)\<rparr>"
  using assms
  by (auto simp: peek_rx_def desc_at_ok mut_desc_at_ok mut_bytes_at_def add_chk_def Let_def word_le_nat_alt
      split: if_splits prod.splits option.splits)

text \<open>
  C13. What the application reads is what was delivered: from a socket whose producer index is the published one, in every
  run with any interleaving of calls and kernel moves, in which the kernel writes only into frames that it
  holds or finds in the Fill ring, the packets delivered so far are, in order and byte by byte, the packets given back followed by those that
  wait, and every buffer that \<^verbatim>\<open>peek_at(i)\<close> gives out holds exactly the \<open>i\<close>-th packet after those given back.
\<close>

theorem rx_packets_in_order:
  assumes "rx_fifo_inv pool w0" "safety_checks b" "\<And>w mem w' mem'. K w mem w' mem' \<Longrightarrow> delivers w mem w' mem'"
    and "rx_history K b w0 mem0 del given w mem"
  shows "del = given @ received_packets w mem \<and>
    (\<forall>i sl. snd (peek_at_rx b (rw_sock w) i) = Ok sl \<longrightarrow>
       take (sl_len sl) (drop (sl_off sl) mem) = del ! (length given + unat i))"
proof -
  have inv: "rx_fifo_inv pool w" and del: "del = given @ received_packets w mem"
    using rx_history_inv [OF assms(4,1,2,3)] by blast+
  have shape: "ring_ok (x_ring (rw_sock w))" "unat (available (rw_sock w)) \<le> received (rw_sock w)"
    using inv by (simp_all add: rx_fifo_inv_def rx_inv_def rx_shape_def rings_rx_def)
  have "take (sl_len sl) (drop (sl_off sl) mem) = del ! (length given + unat i)"
    if p: "snd (peek_at_rx b (rw_sock w) i) = Ok sl" for i sl
  proof -
    let ?d = "slot_rd (x_ring (rw_sock w)) (consumer (rw_sock w) + ucast i)"
    have i: "unat i < received (rw_sock w)" and sl: "sl = \<lparr>sl_off = unat (d_addr ?d), sl_len = unat (d_len ?d)\<rparr>"
      using peek_rx_gives [OF shape(1) assms(2), of i sl] p shape(2) by (simp_all add: peek_at_rx_def)
    have "(ucast i :: u32) = of_nat (unat i)" by (rule ucast_eq_of_nat)
    then have "received_descs (rw_sock w) ! unat i = ?d" using i by (simp only: received_descs_def nth_window)
    then show ?thesis using i by (simp add: del sl received_packets_def packet_of_def)
  qed
  then show ?thesis using del by blast
qed

text \<open>The sample kernel, which writes 60 bytes into the frame that it takes.\<close>

definition written :: "rx_world \<Rightarrow> u8 list \<Rightarrow> u8 list" where
  "written w mem = write_bytes mem (unat (d_addr (next_desc w))) (replicate 60 7)"

definition writing_kernel :: "rx_world \<Rightarrow> u8 list \<Rightarrow> rx_world \<Rightarrow> u8 list \<Rightarrow> bool" where
  "writing_kernel w mem w' mem' \<longleftrightarrow> deliver_kernel w w' \<and> unat (d_addr (next_desc w)) + 60 \<le> length mem \<and>
     mem' = written w mem"

lemma next_desc_in_frame: "in_frame (next_desc w)"
  using next_desc_addr [of w] by (simp add: in_frame_def unat_frame_of) (simp add: next_desc_def xdp_desc_new_def)

lemma writing_kernel_delivers:
  assumes "writing_kernel w mem w' mem'"
  shows "delivers w mem w' mem'"
proof -
  have k: "deliver_kernel w w'" "unat (d_addr (next_desc w)) + 60 \<le> length mem" "mem' = written w mem"
    using assms by (simp_all add: writing_kernel_def)
  have "0 < free_count (rw_sock w)" using k(1) by (simp add: deliver_kernel_def)
  then have "next_free w \<in> set (free_frames (rw_sock w))"
    by (cases "free_count (rw_sock w)") (simp_all add: free_frames_def next_free_def window_Cons)
  then have "frame_of (next_free w) \<in> kernel_frames w" by (simp add: kernel_frames_def)
  then have "touches (kernel_frames w) mem mem'"
    unfolding k(3) written_def by (rule touches_write) (use next_desc_addr [of w] k(2) in simp_all)
  then show ?thesis
    using deliver_rely [OF k(1)] deliver_descs [OF k(1)] next_desc_in_frame by (simp add: delivers_def)
qed

definition sample_mem :: "u8 list" where
  "sample_mem = replicate 10240 0"

lemma rx_start_descs:
  "received_descs small_rx = [\<lparr>d_addr = 0, d_len = 60, d_options = 0\<rparr>, \<lparr>d_addr = 2048, d_len = 60, d_options = 0\<rparr>]"
  "free_frames small_rx = [4096]"
proof -
  have "received small_rx = 2" "free_count small_rx = 1"
    by (simp_all add: free_count_def received_def) (simp_all add: small_rx_def)
  then show "received_descs small_rx = [\<lparr>d_addr = 0, d_len = 60, d_options = 0\<rparr>, \<lparr>d_addr = 2048, d_len = 60, d_options = 0\<rparr>]"
    "free_frames small_rx = [4096]"
    by (simp_all add: received_descs_def free_frames_def window_numeral window_Cons) (simp_all add: small_rx_def slot_rd_def)
qed

lemma rx_start_fifo: "rx_fifo_inv [4096, 8192, 0, 2048] rx_start"
proof -
  have "rx_shape small_rx" "ring_cap (x_ring small_rx) = 4"
    by (simp_all add: rx_shape_def rings_rx_def received_def) (simp_all add: small_rx_def)
  then show ?thesis
    using rx_start_descs by (simp add: rx_fifo_inv_def rx_inv_def rx_frames_def rx_start_def received_frames_descs frame_of_def in_frame_def)
qed

theorem rx_packets_in_order_witness:
  "\<exists>del w mem sl. rx_history writing_kernel sample_build rx_start sample_mem del [] w mem \<and>
     snd (peek_at_rx sample_build (rw_sock w) 2) = Ok sl \<and> length del = 3 \<and>
     take (sl_len sl) (drop (sl_off sl) mem) = del ! 2 \<and> del ! 2 = replicate 60 7"
proof -
  let ?w1 = "deliver rx_start" and ?w2 = "rx_apply sample_build (RxSeek 3) (deliver rx_start)"
  let ?d = "xdp_desc_new 4352 60 0" and ?m = "write_bytes sample_mem 4352 (replicate 60 7)"
  have s: "rx_shape small_rx" "free_count small_rx = 1" "received small_rx = 2" "ring_cap (x_ring small_rx) = 4"
    by (simp_all add: rx_shape_def rings_rx_def free_count_def received_def) (simp_all add: small_rx_def)
  then have k: "deliver_kernel rx_start ?w1" by (simp add: deliver_kernel_def rx_start_def)
  then have "writing_kernel rx_start sample_mem ?w1 ?m"
    by (simp add: writing_kernel_def written_def rx_start_next xdp_desc_new_def) (simp add: sample_mem_def)
  note h1 = rx_history_kernel [where K = writing_kernel, OF rx_history_start this]
  have ds: "received_descs (rw_sock ?w1) = received_descs small_rx @ [?d]"
    using deliver_descs [OF k] rx_start_next by (simp add: rx_start_def)
  let ?del = "received_packets rx_start sample_mem @ [packet_of ?m ?d]"
  have h2: "rx_history writing_kernel sample_build rx_start sample_mem ?del [] ?w2 ?m"
    using rx_history_call [OF h1, of sample_build "RxSeek 3"] ds s(3) by (simp add: rx_start_def)
  have len: "length (received_packets rx_start sample_mem) = 2" using s(3) by (simp add: received_packets_def rx_start_def)
  have "length sample_mem = 10240" by (simp only: sample_mem_def length_replicate)
  then have p: "packet_of ?m ?d = replicate 60 7"
    using packet_of_write [of ?d "replicate 60 7" sample_mem] by (simp add: xdp_desc_new_def)
  have x: "ring_ok (x_ring (rw_sock ?w1))" "received (rw_sock ?w1) = 3" "available (rw_sock ?w1) = 2" "umem_ok (rw_sock ?w1)"
    by (simp_all add: deliver_def rx_start_def received_def small_rx_def Let_def umem_ok_def)
  then have w2: "rw_sock ?w2 = (rw_sock ?w1)\<lparr>available := 3\<rparr>"
    using seek_rx_finds [of "rw_sock ?w1" 3 sample_build] by (simp add: socket_seek_n_def)
  have "received_descs (rw_sock ?w1) ! 2 = ?d" using ds s(3) by (simp add: nth_append)
  then have d: "slot_rd (x_ring (rw_sock ?w2)) (consumer (rw_sock ?w2) + ucast (2 :: usize)) = ?d"
    using x(2) unfolding w2 by (simp add: received_descs_def)
  let ?sl = "\<lparr>sl_off = 4352, sl_len = 60\<rparr>"
  have peek: "snd (peek_at_rx sample_build (rw_sock ?w2) 2) = Ok ?sl"
    using peek_rx_result [of "rw_sock ?w2" sample_build ?d 2] x d unfolding w2 by (simp add: umem_ok_def xdp_desc_new_def)
  have "\<forall>i sl. snd (peek_at_rx sample_build (rw_sock ?w2) i) = Ok sl \<longrightarrow>
      take (sl_len sl) (drop (sl_off sl) ?m) = ?del ! (length ([] :: u8 list list) + unat i)"
    by (rule conjunct2 [OF rx_packets_in_order [OF rx_start_fifo sample_build_simps(1) _ h2]]) (rule writing_kernel_delivers)
  then have "take (sl_len ?sl) (drop (sl_off ?sl) ?m) = ?del ! (length ([] :: u8 list list) + unat (2 :: usize))"
    using peek by blast
  moreover have "length ([] :: u8 list list) + unat (2 :: usize) = 2" by simp
  ultimately have read: "take (sl_len ?sl) (drop (sl_off ?sl) ?m) = ?del ! 2" by (simp only:)
  have del: "length ?del = 3" "?del ! 2 = replicate 60 7" using len p by (simp_all add: nth_append)
  show ?thesis by (intro exI conjI) (rule h2, rule peek, rule del(1), rule read, rule del(2))
qed

end
