(* ===== verification/Recv_Cycle.thy ===== *)
theory Recv_Cycle
  imports Rx_Fifo
begin

unbundle bit_operations_syntax

text \<open>
  The documented way to receive: \<^verbatim>\<open>seek_and_peek\<close> a packet, read it, \<^verbatim>\<open>commit\<close> it, over and over. With a kernel
  that goes on delivering, this never fails on a synchronised socket, although its frames are reused all the time.
\<close>

section \<open>The client\<close>

text \<open>\<open>k\<close> is what the kernel does before a packet is asked for; the packets read so far are collected.\<close>

fun recv_each ::
  "build \<Rightarrow> (rx_world \<times> u8 list \<Rightarrow> rx_world \<times> u8 list) \<Rightarrow> nat \<Rightarrow> u8 list list \<Rightarrow> rx_world \<times> u8 list \<Rightarrow>
    (rx_world \<times> u8 list) \<times> (ring_error, u8 list list) res"
where
  "recv_each b k 0 got wm = (wm, Ok got)"
| "recv_each b k (Suc n) got wm =
     (case k wm of (w, mem) \<Rightarrow>
      case seek_and_peek_rx b (rw_sock w) of (s1, r1) \<Rightarrow>
      try_in (w\<lparr>rw_sock := s1\<rparr>, mem) r1 (\<lambda>sl.
      case socket_commit commit_rx b s1 of (s2, r2) \<Rightarrow>
      try_in (w\<lparr>rw_sock := s2\<rparr>, mem) r2 (\<lambda>_.
      recv_each b k n (got @ [take (sl_len sl) (drop (sl_off sl) mem)]) (w\<lparr>rw_sock := s2\<rparr>, mem))))"

text \<open>Packets that \<^verbatim>\<open>peek\<close> can read: shorter than a frame and inside the UMEM.\<close>

definition readable :: "xdp_desc \<Rightarrow> bool" where
  "readable d \<longleftrightarrow> unat (d_len d) < 2048 \<and> unat (d_addr d) + unat (d_len d) < 8388608"

definition receiving :: "u64 list \<Rightarrow> u64 multiset \<Rightarrow> rx_world \<Rightarrow> u8 list \<Rightarrow> bool" where
  "receiving pool h w mem \<longleftrightarrow> rx_fifo_inv pool w \<and> umem_ok (rw_sock w) \<and> rw_held w = h \<and>
     (\<forall>d \<in> set (received_descs (rw_sock w)). readable d) \<and> length mem = 8388608"

text \<open>
  A steady kernel keeps the frames \<open>h\<close> for itself and sees to it that a readable packet waits in the RX ring
  whenever it is asked for one.
\<close>

definition steady ::
  "u64 list \<Rightarrow> u64 multiset \<Rightarrow> (rx_world \<Rightarrow> u8 list \<Rightarrow> rx_world \<Rightarrow> u8 list \<Rightarrow> bool) \<Rightarrow>
    (rx_world \<times> u8 list \<Rightarrow> rx_world \<times> u8 list) \<Rightarrow> bool"
where
  "steady pool h K k \<longleftrightarrow> (\<forall>w mem. receiving pool h w mem \<longrightarrow>
     (case k (w, mem) of (w', mem') \<Rightarrow> K w mem w' mem' \<and> rw_held w' = h \<and> 0 < received (rw_sock w') \<and>
        (\<forall>d \<in> set (received_descs (rw_sock w')). readable d)))"

section \<open>One packet\<close>

lemma seek_and_peek_gives:
  assumes s: "wf_rx s" "umem_ok s" "0 < received s" and b: "safety_checks b" and d: "readable (received_descs s ! 0)"
  shows "\<exists>s1 sl. seek_and_peek_rx b s = (s1, Ok sl) \<and> 0 < available s1 \<and> frames s1 = frames s \<and>
    ring_cap (x_ring s1) = ring_cap (x_ring s) \<and> received_descs s1 = received_descs s \<and>
    (\<forall>mem. take (sl_len sl) (drop (sl_off sl) mem) = packet_of mem (received_descs s ! 0))"
proof -
  let ?d = "slot_rd (x_ring s) (consumer s)"
  have x: "ring_ok (x_ring s)" using s(1) by (simp add: wf_rx_def rings_rx_def)
  have d0: "received_descs s ! 0 = ?d" using s(3) by (simp add: received_descs_def)
  obtain r a where seek: "seek_rx b s 1 = (s\<lparr>available := a\<rparr>, Ok r)" "0 < a"
  proof (cases "(1 :: usize) \<le> ucast (available s)")
    case True
    then have "0 < available s" by (auto simp: word_le_nat_alt word_gt_0)
    then show thesis using that [of "available s" 1] True by (simp add: seek_rx_def)
  next
    case False
    have "0 < (of_nat (received s) :: u32)" using s(3) by (simp add: received_def unat_gt_0 word_gt_0)
    then show thesis using that seek_rx_finds [OF x False s(3), of b] by blast
  qed
  let ?t = "s\<lparr>available := a\<rparr>"
  have "snd (peek_rx b ?t 0) = Ok \<lparr>sl_off = unat (d_addr ?d), sl_len = unat (d_len ?d)\<rparr>"
    using peek_rx_result [of ?t b ?d 0] x s(2) b d seek(2)
    by (simp add: d0 peek_at_rx_def umem_ok_def readable_def word_less_nat_alt)
  moreover obtain x' where "fst (peek_rx b ?t 0) = ?t\<lparr>x_ring := x'\<rparr>" "ring_cap x' = ring_cap (x_ring s)"
    "prod_ix x' = prod_ix (x_ring s)" "slot_rd x' = slot_rd (x_ring s)"
    using peek_rx_rings [of ?t b 0] x by auto
  ultimately have "seek_and_peek_rx b s = (?t\<lparr>x_ring := x'\<rparr>, Ok \<lparr>sl_off = unat (d_addr ?d), sl_len = unat (d_len ?d)\<rparr>) \<and>
      received_descs (?t\<lparr>x_ring := x'\<rparr>) = received_descs s \<and> ring_cap x' = ring_cap (x_ring s)"
    by (simp add: seek_and_peek_rx_def seek(1) prod_eq_iff received_descs_def received_def)
  then show ?thesis using seek(2) by (auto simp: d0 packet_of_def)
qed

lemma recv_each_step:
  assumes h: "rx_history K b w0 mem0 del got w mem" and w: "receiving pool h w mem" and b: "safety_checks b"
    and K: "\<And>w mem w' mem'. K w mem w' mem' \<Longrightarrow> delivers w mem w' mem'" "steady pool h K k"
  shows "\<exists>del' p w' mem'. rx_history K b w0 mem0 del' (got @ [p]) w' mem' \<and> receiving pool h w' mem' \<and>
    recv_each b k (Suc n) got (w, mem) = recv_each b k n (got @ [p]) (w', mem')"
proof -
  obtain w1 m1 where k: "k (w, mem) = (w1, m1)" by fastforce
  have inv: "rx_fifo_inv pool w" "umem_ok (rw_sock w)" "length mem = 8388608" using w by (simp_all add: receiving_def)
  have m: "K w mem w1 m1" "rw_held w1 = h" "0 < received (rw_sock w1)" "\<forall>d \<in> set (received_descs (rw_sock w1)). readable d"
    using K(2) w k unfolding steady_def by fastforce+
  note del = K(1) [OF m(1)]
  have inv1: "rx_fifo_inv pool w1" using delivers_fifo [OF inv(1) del] by simp
  have u1: "umem_ok (rw_sock w1)" "length m1 = 8388608"
    using del inv(2,3) by (simp_all add: delivers_def rx_rely_def touches_def umem_ok_def Let_def)
  note h1 = rx_history_kernel [where K = K, OF h m(1)]
  let ?d = "received_descs (rw_sock w1) ! 0"
  have wf1: "wf_rx (rw_sock w1)" using inv1 rx_inv_wf [of pool w1] by (simp add: rx_fifo_inv_def)
  have "readable ?d" using m(3,4) by simp
  then obtain s1 sl where s1: "seek_and_peek_rx b (rw_sock w1) = (s1, Ok sl)" "0 < available s1"
    "frames s1 = frames (rw_sock w1)" "ring_cap (x_ring s1) = ring_cap (x_ring (rw_sock w1))"
    "received_descs s1 = received_descs (rw_sock w1)" "take (sl_len sl) (drop (sl_off sl) m1) = packet_of m1 ?d"
    using seek_and_peek_gives [OF wf1 u1(1) m(3) b] by blast
  define w2 where "w2 = w1\<lparr>rw_sock := s1\<rparr>"
  have w2: "rx_apply b RxSeekAndPeek w1 = w2" by (simp add: w2_def s1(1))
  have inv2: "rx_fifo_inv pool w2" using rx_apply_fifo [OF inv1 b, where op = RxSeekAndPeek] by (simp only: w2)
  have wf2: "wf_rx s1" using inv2 rx_inv_wf [of pool w2] by (simp add: rx_fifo_inv_def w2_def)
  have n: "ucast (1 :: usize) \<le> available s1" using s1(2) by (simp add: word_le_nat_alt word_less_nat_alt)
  have c: "commit_rx b s1 1 = (released 1 s1, Ok ())" using commit_rx_ok [OF _ n, of b] wf2 by (simp add: wf_rx_def)
  define w3 where "w3 = w1\<lparr>rw_sock := released 1 s1\<rparr>"
  have w3: "rx_apply b (RxCommit 1) w2 = w3" using c by (simp add: w2_def w3_def socket_commit_n_def)
  have "received_packets w2 m1 \<noteq> []" "received_packets w2 m1 ! 0 = packet_of m1 ?d"
    using m(3) s1(5) by (simp_all add: received_packets_def w2_def flip: length_greater_0_conv)
  then have give: "given_back b (RxCommit 1) w2 m1 = [packet_of m1 ?d]"
    using c by (cases "received_packets w2 m1") (simp_all add: w2_def socket_commit_n_def)
  have "given_back b RxSeekAndPeek w1 m1 = []" by simp
  note h2 = rx_history_call [OF h1, of RxSeekAndPeek, unfolded this append_Nil2 w2]
  note h3 = rx_history_call [OF h2, of "RxCommit 1", unfolded give w3]
  have "receiving pool h w3 m1"
  proof -
    have "rx_fifo_inv pool w3" using rx_apply_fifo [OF inv2 b, where op = "RxCommit 1"] by (simp only: w3)
    moreover have "set (received_descs (rw_sock w3)) \<subseteq> set (received_descs (rw_sock w1))"
      using rx_apply_descs [where pool = pool and op = "RxCommit 1", OF _ b] inv2 s1(5)
      by (fastforce simp: rx_fifo_inv_def w2_def w3_def c socket_commit_n_def)
    ultimately show ?thesis using u1 m s1(3,4) by (auto simp: receiving_def w3_def umem_ok_def released_def)
  qed
  moreover have "recv_each b k (Suc n) got (w, mem) = recv_each b k n (got @ [packet_of m1 ?d]) (w3, m1)"
    by (simp add: k s1(1,6) socket_commit_def c w3_def)
  ultimately show ?thesis using h3 by blast
qed

lemma recv_each_all:
  assumes "rx_history K b w0 mem0 del got w mem" "receiving pool h w mem" "safety_checks b"
    and "\<And>w mem w' mem'. K w mem w' mem' \<Longrightarrow> delivers w mem w' mem'" "steady pool h K k"
  shows "\<exists>del' more w' mem'. recv_each b k n got (w, mem) = ((w', mem'), Ok (got @ more)) \<and> length more = n \<and>
    rx_history K b w0 mem0 del' (got @ more) w' mem'"
  using assms(1,2)
proof (induction n arbitrary: del got w mem)
  case 0
  then show ?case by (intro exI [of _ "[]"] exI [of _ w] exI [of _ mem] exI [of _ del]) simp
next
  case (Suc n)
  then obtain del' p w' mem' where s: "rx_history K b w0 mem0 del' (got @ [p]) w' mem'" "receiving pool h w' mem'"
    "recv_each b k (Suc n) got (w, mem) = recv_each b k n (got @ [p]) (w', mem')"
    using recv_each_step [where K = K and k = k, OF Suc.prems assms(3-5)] by metis
  obtain del2 more w2 mem2 where "recv_each b k n (got @ [p]) (w', mem') = ((w2, mem2), Ok ((got @ [p]) @ more))" "length more = n"
    "rx_history K b w0 mem0 del2 ((got @ [p]) @ more) w2 mem2"
    using Suc.IH [OF s(1,2)] by blast
  then show ?case using s(3)
    by (intro exI [of _ del2] exI [of _ "p # more"] exI [of _ w2] exI [of _ mem2]) simp
qed

section \<open>Any number of packets\<close>

text \<open>
  C14. Receiving does not get stuck on a synchronised socket (\<open>receiving\<close>): one whose producer index is the published one of the Fill
  ring, and whose available descriptors are packets that the kernel has delivered, each readable. Neither holds of a socket as
  \<^verbatim>\<open>create_socket\<close> leaves it (\<open>Create_Properties\<close>), so that this is not a statement
  about a fresh socket. From a synchronised one, a client that calls \<^verbatim>\<open>seek_and_peek\<close>, reads the packet and calls \<^verbatim>\<open>commit\<close> does
  so any number of times without an error, if the kernel sees to it that a readable packet waits each time, and the packets
  that it has read are the first ones delivered, in their order and byte by byte.
\<close>

theorem recv_cycle_never_stops:
  assumes "receiving pool h w mem" "safety_checks b"
    and "\<And>w mem w' mem'. K w mem w' mem' \<Longrightarrow> delivers w mem w' mem'" "steady pool h K k"
  shows "\<exists>w' mem' got del. recv_each b k n [] (w, mem) = ((w', mem'), Ok got) \<and> length got = n \<and>
    rx_history K b w mem del got w' mem' \<and> got = take n del"
proof -
  obtain del got w' mem' where r: "recv_each b k n [] (w, mem) = ((w', mem'), Ok got)" "length got = n"
    "rx_history K b w mem del got w' mem'"
    using recv_each_all [where K = K and k = k, OF rx_history_start assms, of n] by auto
  have "del = got @ received_packets w' mem'"
    using rx_history_inv [OF r(3) _ assms(2,3), of pool] assms(1) by (simp add: receiving_def)
  then show ?thesis using r by auto
qed

text \<open>The sample kernel: as long as the Fill ring has a frame and the RX ring a slot, it delivers a packet.\<close>

definition deliverable :: "socket \<Rightarrow> bool" where
  "deliverable s \<longleftrightarrow> 0 < free_count s \<and> received s < ring_cap (x_ring s)"

definition busy_kernel :: "rx_world \<Rightarrow> u8 list \<Rightarrow> rx_world \<Rightarrow> u8 list \<Rightarrow> bool" where
  "busy_kernel w mem w' mem' \<longleftrightarrow> writing_kernel w mem w' mem' \<or> rx_shape (rw_sock w) \<and> w' = w \<and> mem' = mem"

fun busy :: "rx_world \<times> u8 list \<Rightarrow> rx_world \<times> u8 list" where
  "busy (w, mem) = (if deliverable (rw_sock w) then (deliver w, written w mem) else (w, mem))"

lemma rx_rely_refl: "rx_shape (rw_sock w) \<Longrightarrow> rx_rely w w"
  unfolding rx_rely_def Let_def rx_shape_def rings_rx_def
  by (intro conjI exI [of _ 0] exI [of _ "[]"]) simp_all

lemma busy_delivers: "busy_kernel w mem w' mem' \<Longrightarrow> delivers w mem w' mem'"
  using writing_kernel_delivers [of w mem w' mem'] rx_rely_refl [of w]
  by (auto simp: busy_kernel_def delivers_def)

lemma next_free_pool:
  assumes "rx_fifo_inv pool w" "0 < free_count (rw_sock w)"
  shows "frame_of (next_free w) \<in> set pool"
proof -
  have "next_free w \<in> set (free_frames (rw_sock w))"
    using assms(2) by (cases "free_count (rw_sock w)") (simp_all add: free_frames_def next_free_def window_Cons)
  then have "frame_of (next_free w) \<in># rx_frames w" by (simp add: rx_frames_def)
  then show ?thesis using assms(1) by (simp add: rx_fifo_inv_def rx_inv_def)
qed

lemma busy_steady: "steady [4096, 8192, 0, 2048] {#8192#} busy_kernel busy"
  unfolding steady_def
proof (intro allI impI)
  fix w mem
  assume "receiving [4096, 8192, 0, 2048] {#8192#} w mem"
  then have w: "rx_fifo_inv [4096, 8192, 0, 2048] w" "rw_held w = {#8192#}"
    "\<forall>d \<in> set (received_descs (rw_sock w)). readable d" "length mem = 8388608"
    by (simp_all add: receiving_def)
  then have shape: "rx_shape (rw_sock w)" by (simp add: rx_fifo_inv_def rx_inv_def)
  have c: "free_count (rw_sock w) + 1 + received (rw_sock w) = ring_cap (x_ring (rw_sock w))" "ring_cap (x_ring (rw_sock w)) = 4"
    using rx_inv_count [of "[4096, 8192, 0, 2048]" w] w(1,2) by (simp_all add: rx_fifo_inv_def rx_inv_def)
  show "case busy (w, mem) of (w', mem') \<Rightarrow> busy_kernel w mem w' mem' \<and> rw_held w' = {#8192#} \<and> 0 < received (rw_sock w') \<and>
      (\<forall>d \<in> set (received_descs (rw_sock w')). readable d)"
  proof (cases "deliverable (rw_sock w)")
    case True
    then have "unat (d_addr (next_desc w)) \<le> 8448"
      using next_free_pool [OF w(1)] by (auto simp: next_desc_addr deliverable_def)
    moreover have k: "deliver_kernel w (deliver w)" using True shape by (simp add: deliver_kernel_def deliverable_def)
    ultimately have "writing_kernel w mem (deliver w) (written w mem)" "readable (next_desc w)"
      using w(4) by (simp_all add: writing_kernel_def readable_def) (simp add: next_desc_def xdp_desc_new_def)
    moreover have "rw_held (deliver w) = {#8192#}" using w(2) by (simp add: deliver_def Let_def)
    moreover have "received (rw_sock (deliver w)) = Suc (received (rw_sock w))"
      using arg_cong [OF deliver_descs [OF k], of length] by simp
    ultimately show ?thesis using True w(3) deliver_descs [OF k] by (simp add: busy_kernel_def)
  next
    case False
    then show ?thesis using c w(2,3) shape by (simp add: deliverable_def busy_kernel_def)
  qed
qed

theorem recv_cycle_never_stops_witness:
  "\<exists>mem w' mem' got del. recv_each sample_build busy 10000 [] (rx_start, mem) = ((w', mem'), Ok got) \<and>
     length got = 10000 \<and> rx_history busy_kernel sample_build rx_start mem del got w' mem' \<and> got = take 10000 del"
proof -
  obtain mem :: "u8 list" where "length mem = 8388608" using Ex_list_of_length by blast
  then have "receiving [4096, 8192, 0, 2048] {#8192#} rx_start mem"
    using rx_start_fifo rx_start_descs by (auto simp: receiving_def readable_def rx_start_def) (simp add: small_rx_def umem_ok_def)
  from recv_cycle_never_stops [OF this sample_build_simps(1) busy_delivers busy_steady, of 10000]
  show ?thesis by blast
qed

end
