(* ===== verification/Build_Modes.thy ===== *)
theory Build_Modes
  imports Packet_Fifo
begin

unbundle bit_operations_syntax

text \<open>
  Builds without checks: the feature \<^verbatim>\<open>no_safety_checks\<close> and a release build remove checks that a client within the
  limits never meets: counts and indices that are available, lengths below 2048 bytes. Such a client sees no difference, so that what is
  shown of checked builds holds for it in every build. A length of exactly 2048 bytes, which the documentation allows, is not within
  the limits: the checked build panics on it.
\<close>

section \<open>Clients within the limits\<close>

fun within_limits :: "tx_op \<Rightarrow> socket \<Rightarrow> bool" where
  "within_limits (OpSeek n) s \<longleftrightarrow> True"
| "within_limits (OpPeekAt i len) s \<longleftrightarrow> i < ucast (available s) \<and> unat len < 2048"
| "within_limits (OpSeekAndPeek len) s \<longleftrightarrow> unat len < 2048"
| "within_limits (OpCommit n) s \<longleftrightarrow> ucast n \<le> available s"
| "within_limits (OpSend data header) s \<longleftrightarrow>
     0 < available s \<and> length (header_bytes header @ data) < 2048"
| "within_limits (OpWrite i len start bs) s \<longleftrightarrow> i < ucast (available s) \<and> unat len < 2048"

section \<open>The same calls\<close>

lemma seek_any_build:
  assumes "wf_tx s"
  shows "seek_tx b' s n = seek_tx b s n"
proof (cases "n \<le> ucast (available s)")
  case True
  then show ?thesis by (simp add: seek_tx_hit)
next
  case False
  then show ?thesis
    using assms by (cases "pending s = 0") (simp_all add: seek_tx_empty seek_tx_reclaims)
qed

lemma peek_any_build:
  assumes "umem_inv N w" "i < ucast (available (w_sock w))" "unat len < 2048"
  shows "peek_tx b' (w_sock w) i len = peek_tx b (w_sock w) i len"
proof -
  have "unat i < length (app_frames (w_sock w))" using assms(2) by (simp add: word_less_nat_alt)
  then have "app_frames (w_sock w) ! unat i \<in> set (app_frames (w_sock w))" by (rule nth_mem)
  then have "unat (d_addr (tx_desc (w_sock w) i)) + 2048 \<le> 8388608"
    using app_frame_inside(2) [OF assms(1)] tx_desc_addr [OF assms(2)] by simp
  then show ?thesis
    using peek_tx_ok [OF umem_invD(7,2) [OF assms(1)] assms(2,3)] by simp
qed

lemma call_any_build:
  assumes inv: "umem_inv N w" and lim: "within_limits op (w_sock w)"
  shows "tx_apply b' op w = tx_apply b op w \<and> tx_result b' op w = tx_result b op w"
proof (cases op)
  case (OpSeek n)
  then show ?thesis using seek_any_build [OF umem_invD(8) [OF inv], of b' n b] by (simp add: socket_seek_n_def)
next
  case (OpPeekAt i len)
  then show ?thesis using peek_any_build [OF inv, of i len b' b] lim by (simp add: peek_at_tx_def)
next
  case (OpSeekAndPeek len)
  obtain s1 r where s1: "seek_tx b (w_sock w) 1 = (s1, r)" by fastforce
  then have s1': "seek_tx b' (w_sock w) 1 = (s1, r)" using seek_any_build [OF umem_invD(8) [OF inv], of b' 1 b] by simp
  have "peek_tx b' s1 0 len = peek_tx b s1 0 len" if "r = Ok k" for k
  proof -
    have "umem_inv N (w\<lparr>w_sock := s1\<rparr>)" using seek_queue [OF inv, of b 1] by (simp add: s1 queues_def)
    moreover have "1 \<le> available s1"
      using tx.seek_then_available [OF umem_invD(8) [OF inv], of b s1 k] s1 that by (simp add: socket_seek_def)
    ultimately show ?thesis
      using peek_any_build [of N "w\<lparr>w_sock := s1\<rparr>" 0 len b' b] lim by (simp add: OpSeekAndPeek word_less_nat_alt word_le_nat_alt)
  qed
  then show ?thesis by (cases r) (simp_all add: OpSeekAndPeek seek_and_peek_tx_def s1 s1')
next
  case (OpCommit n)
  then show ?thesis using commit_tx_ok [OF umem_invD(8) [OF inv], of n] lim by (simp add: socket_commit_n_def)
next
  case (OpSend data header)
  then show ?thesis using send_result [OF inv _ refl] lim by simp
next
  case (OpWrite i len start bs)
  then show ?thesis using peek_any_build [OF inv, of i len b' b] lim by (simp add: peek_at_tx_def)
qed

text \<open>
  A length of exactly one frame is where the builds differ: the length check of \<^verbatim>\<open>peek_at\<close> lets it pass, and the assertion behind it does not.
\<close>

lemma mut_bytes_at_unchecked:
  assumes "ring_ok r" "\<not> safety_checks b" "unat (d_addr (slot_rd r i)) + unat len \<le> n"
  shows "mut_bytes_at b r (Some n) (i AND mod_mask r) len =
    (slot_wr r i ((slot_rd r i)\<lparr>d_len := ucast len\<rparr>), Ok \<lparr>sl_off = unat (d_addr (slot_rd r i)), sl_len = unat len\<rparr>)"
  using assms by (simp add: mut_bytes_at_def mut_desc_at_ok desc_at_ok)

lemma peek_full_unchecked:
  assumes inv: "umem_inv N w" and i: "i < ucast (available (w_sock w))" and len: "unat len = 2048" and b: "\<not> safety_checks b"
  shows "snd (peek_tx b (w_sock w) i len) = Ok \<lparr>sl_off = unat (app_frames (w_sock w) ! unat i), sl_len = 2048\<rparr>"
proof -
  let ?s = "w_sock w"
  have x: "ring_ok (x_ring ?s)" by (rule umem_invD(7) [OF inv])
  obtain n where n: "frames ?s = Some n" "8388608 \<le> n"
    using umem_invD(2) [OF inv] by (auto simp: umem_ok_def split: option.splits)
  have "unat i < length (app_frames ?s)" using i by (simp add: word_less_nat_alt)
  then have "app_frames ?s ! unat i \<in> set (app_frames ?s)" by (rule nth_mem)
  then have "unat (d_addr (tx_desc ?s i)) + 2048 \<le> n"
    using app_frame_inside(2) [OF inv] tx_desc_addr [OF i] n(2) by fastforce
  moreover define v where "v = (tx_desc ?s i)\<lparr>d_len := ucast len\<rparr>"
  moreover define r where "r = slot_wr (x_ring ?s) (producer ?s + ucast i) v"
  ultimately have "(mut_bytes_at b r (Some n) ((producer ?s + ucast i) AND mod_mask r) len :: _ \<times> (ring_error, slice) res) =
      (slot_wr r (producer ?s + ucast i) (v\<lparr>d_len := ucast len\<rparr>), Ok \<lparr>sl_off = unat (d_addr (tx_desc ?s i)), sl_len = unat len\<rparr>)"
    using x b len mut_bytes_at_unchecked [of r b "producer ?s + ucast i" len n] by (simp add: rings.rd_wr_same)
  moreover have "peek_tx b ?s i len = (case mut_bytes_at b r (Some n) ((producer ?s + ucast i) AND mod_mask r) len of
      (x', res) \<Rightarrow> (?s\<lparr>x_ring := x'\<rparr>, res))"
    using b n(1) x by (simp add: peek_tx_def mut_desc_at_ok Let_def r_def v_def tx_desc_def)
  ultimately show ?thesis using len tx_desc_addr [OF i] by simp
qed

section \<open>Whole runs\<close>

text \<open>A run in the build \<open>b\<close> of a client that stays within the limits.\<close>

inductive disciplined :: "(tx_world \<Rightarrow> tx_world \<Rightarrow> bool) \<Rightarrow> build \<Rightarrow> tx_world \<Rightarrow> tx_world \<Rightarrow> bool"
  for K b w0 where
  disciplined_start: "disciplined K b w0 w0"
| disciplined_kernel: "disciplined K b w0 w \<Longrightarrow> K w w' \<Longrightarrow> disciplined K b w0 w'"
| disciplined_call: "disciplined K b w0 w \<Longrightarrow> within_limits op (w_sock w) \<Longrightarrow> disciplined K b w0 (tx_apply b op w)"

lemma disciplined_checked:
  assumes "disciplined K b' w0 w" "umem_inv N w0" "safety_checks b"
    and "\<And>w w'. K w w' \<Longrightarrow> tx_rely w w'" "spares_frames N K"
  shows "umem_inv N w \<and> disciplined K b w0 w"
  using assms(1)
proof (induction rule: disciplined.induct)
  case disciplined_start
  then show ?case using assms(2) by (simp add: disciplined.disciplined_start)
next
  case (disciplined_kernel w w')
  then show ?case
    using kernel_umem [OF _ assms(4) _ assms(5), of w w'] disciplined.disciplined_kernel by blast
next
  case (disciplined_call w op)
  then have same: "tx_apply b' op w = tx_apply b op w" using call_any_build by blast
  have "disciplined K b w0 (tx_apply b op w)"
    using disciplined_call disciplined.disciplined_call by blast
  then show ?case
    using tx_apply_queue [OF _ assms(3), of N w op] disciplined_call.IH by (simp add: same queues_def)
qed

text \<open>
  C15. The checks cost a client within the limits nothing but time: if a transmit socket is made and used in any build, with or without
  \<^verbatim>\<open>no_safety_checks\<close> and debug assertions, and no call asks for an index or a count beyond what is available or for a length of a whole frame
  (2048 bytes) or more, then the run is one of the checked build as well, and the next such call changes the same and returns the same in
  both. \<^verbatim>\<open>seek_n\<close> may ask for any number. The limit on the length is sharp: a buffer of exactly 2048 bytes, which the
  documentation allows, is a panic in every build with the checks and is given out in every build without them.
\<close>

theorem unchecked_builds_agree:
  assumes "kernel_ok os K" "safety_checks b" "spares_frames (tx_frame_count d) K"
    and "create_socket os b' if_index if_queue d config = (tr, Ok (Some s, rx))" "8388608 \<le> length mem"
    and "disciplined K b' \<lparr>w_sock = s, w_mem = mem, w_held = {#}\<rparr> w"
  shows "disciplined K b \<lparr>w_sock = s, w_mem = mem, w_held = {#}\<rparr> w \<and>
    (within_limits op (w_sock w) \<longrightarrow> tx_apply b' op w = tx_apply b op w \<and> tx_result b' op w = tx_result b op w) \<and>
    (i < ucast (available (w_sock w)) \<longrightarrow>
       tx_result b (OpPeekAt i 2048) w = BufferResult Panic \<and>
       (\<not> safety_checks b' \<longrightarrow> tx_result b' (OpPeekAt i 2048) w =
          BufferResult (Ok \<lparr>sl_off = unat (app_frames (w_sock w) ! unat i), sl_len = 2048\<rparr>)))"
proof -
  have "umem_inv (tx_frame_count d) \<lparr>w_sock = s, w_mem = mem, w_held = {#}\<rparr>"
    using created_fifo_inv [OF _ _ _ assms(4,5)] assms(1) by (simp add: kernel_ok_def fifo_inv_def)
  then have run: "umem_inv (tx_frame_count d) w" "disciplined K b \<lparr>w_sock = s, w_mem = mem, w_held = {#}\<rparr> w"
    using disciplined_checked [OF assms(6) _ assms(2) _ assms(3)] assms(1) by (simp_all add: kernel_ok_def)
  have "snd (peek_tx b (w_sock w) i 2048) = Panic" if "i < ucast (available (w_sock w))"
    using peek_tx_full_frame [OF umem_invD(7) [OF run(1)] assms(2) that, of 2048] by simp
  then show ?thesis
    using run call_any_build [OF run(1)] peek_full_unchecked [OF run(1), of i 2048 b'] by (simp add: peek_at_tx_def)
qed

definition fast_build :: build where
  "fast_build = \<lparr>safety_checks = False, debug_assertions = False\<rparr>"

theorem unchecked_builds_agree_witness:
  "\<exists>w. disciplined loopback_kernel fast_build w (tx_apply fast_build (OpCommit 1) w) \<and> available (w_sock w) = 4096 \<and>
     tx_result fast_build (OpPeekAt 4000 60) (tx_apply fast_build (OpCommit 1) w) =
       tx_result sample_build (OpPeekAt 4000 60) (tx_apply fast_build (OpCommit 1) w)"
proof -
  obtain tr s rx where s: "create_socket sample_os fast_build 2 0 DirTx None = (tr, Ok (Some s, rx))"
    using sample_creates_tx [of DirTx] by blast
  obtain mem :: "u8 list" where "length mem = 8388608" using Ex_list_of_length by blast
  then have mem: "8388608 \<le> length mem" by simp
  let ?w = "\<lparr>w_sock = s, w_mem = mem, w_held = {#}\<rparr>"
  have av: "available s = 4096" by (rule sample_available [OF s])
  have run: "disciplined loopback_kernel fast_build ?w (tx_apply fast_build (OpCommit 1) ?w)"
    by (rule disciplined_call [OF disciplined_start]) (simp_all add: av)
  have inv: "fifo_inv 4096 ?w"
    using created_fifo_inv [OF sample_os_ok(1-3) s mem] by (simp add: tx_frame_count_def ring_sizes_def FRAME_COUNT_def)
  then have "available (w_sock (tx_apply fast_build (OpCommit 1) ?w)) = 4095"
    using commit_tx_ok [of s 1 fast_build] umem_invD(8) [OF fifo_invD(2) [OF inv]] av by (simp add: socket_commit_n_def)
  then have "within_limits (OpPeekAt 4000 60) (w_sock (tx_apply fast_build (OpCommit 1) ?w))" by simp
  from unchecked_builds_agree [OF sample_kernel_ok _ loopback_spares s mem run, of sample_build "OpPeekAt 4000 60"] this
  show ?thesis using run av by (intro exI [of _ ?w]) (simp del: tx_apply.simps tx_result.simps)
qed

end
