(* ===== verification/Seek_Batch.thy ===== *)
theory Seek_Batch
  imports Packet_Fifo
begin

unbundle bit_operations_syntax

text \<open>
  Reclaiming more than one frame. With a kernel that completes packets in the order in which they were queued, a socket that
  reclaims one frame at a time has the same address in each slot of its TX ring for ever; then every \<^verbatim>\<open>seek_n\<close> after
  which two or more buffers are available, and that has reclaimed one of them, gives out one frame twice. At the end, what
  holds of a client that reclaims as many frames at once as it likes.
\<close>

section \<open>A kernel that completes in order\<close>

text \<open>
  The frames it adds to the Completion ring are those of the oldest descriptors that are not completed: the \<open>queued_count\<close> and
  held ones before the producer index.
\<close>

definition oldest_out :: "tx_world \<Rightarrow> u32" where
  "oldest_out w = producer (w_sock w) - of_nat (queued_count (w_sock w) + size (w_held w))"

definition slot_addr :: "socket \<Rightarrow> u32 \<Rightarrow> u64" where
  "slot_addr s i = d_addr (slot_rd (x_ring s) i)"

definition in_order :: "(tx_world \<Rightarrow> tx_world \<Rightarrow> bool) \<Rightarrow> bool" where
  "in_order K \<longleftrightarrow> (\<forall>w w'. K w w' \<longrightarrow>
     (\<exists>n. completed_frames (w_sock w') = completed_frames (w_sock w) @ window (slot_addr (w_sock w)) (oldest_out w) n))"

text \<open>Each slot has its own frame, and the completed ones are those of the slots behind the available ones.\<close>

definition home :: "nat \<Rightarrow> u32 \<Rightarrow> u64" where
  "home N i = frame_addr (unat i mod N)"

definition home_inv :: "nat \<Rightarrow> tx_world \<Rightarrow> bool" where
  "home_inv N w \<longleftrightarrow> tx_inv (frame_pool 0 N) w \<and> slot_addr (w_sock w) = home N \<and>
     completed_frames (w_sock w) = window (home N) (producer (w_sock w) + available (w_sock w)) (pending (w_sock w))"

lemma home_invD:
  assumes "home_inv N w"
  shows "tx_inv (frame_pool 0 N) w" "slot_addr (w_sock w) = home N"
    "completed_frames (w_sock w) = window (home N) (producer (w_sock w) + available (w_sock w)) (pending (w_sock w))"
    "ring_ok (x_ring (w_sock w))" "ring_cap (x_ring (w_sock w)) = N" "ring_size N" "wf_tx (w_sock w)"
proof -
  show inv: "tx_inv (frame_pool 0 N) w" and "slot_addr (w_sock w) = home N"
    "completed_frames (w_sock w) = window (home N) (producer (w_sock w) + available (w_sock w)) (pending (w_sock w))"
    using assms by (simp_all add: home_inv_def)
  show "wf_tx (w_sock w)" by (rule tx_inv_wf [OF inv])
  show x: "ring_ok (x_ring (w_sock w))" and cap: "ring_cap (x_ring (w_sock w)) = N"
    using inv by (simp_all add: tx_inv_def tx_shape_def frame_pool_def)
  show "ring_size N" using ring_okD(3) [OF x] by (simp add: cap)
qed

lemma home_period: "ring_size N \<Longrightarrow> home N (i + of_nat N) = home N i"
  by (simp add: home_def unat_plus_of_nat_mod_ring)

lemma window_period:
  assumes "ring_size N"
  shows "window (home N) (s + of_nat N) n = window (home N) s n"
proof (rule window_cong)
  fix i
  have "s + of_nat N + of_nat i = s + of_nat i + of_nat N" by simp
  then show "home N (s + of_nat N + of_nat i) = home N (s + of_nat i)"
    by (simp only: home_period [OF assms])
qed

section \<open>Steps\<close>

text \<open>A change that keeps the addresses of the slots, the completed frames and the end of the available ones.\<close>

lemma home_keep:
  assumes "home_inv N w" "tx_inv (frame_pool 0 N) w'" "slot_addr (w_sock w') = slot_addr (w_sock w)"
    "completed_frames (w_sock w') = completed_frames (w_sock w)"
    "producer (w_sock w') + available (w_sock w') = producer (w_sock w) + available (w_sock w)"
  shows "home_inv N w'"
proof -
  have "pending (w_sock w') = pending (w_sock w)" using assms(4) length_frames(3) by metis
  then show ?thesis using assms by (simp add: home_inv_def)
qed

lemma home_seek:
  assumes inv: "home_inv N w" and n: "single_frame (OpSeek n) (w_sock w)"
  shows "home_inv N (w\<lparr>w_sock := fst (seek_tx b (w_sock w) n)\<rparr>)"
  using home_invD(1) [OF inv] n
proof (rule single_seek_cases [where b = b])
  assume "fst (seek_tx b (w_sock w) n) = w_sock w"
  then show ?thesis using inv by simp
next
  let ?s = "w_sock w"
  assume r: "available ?s = 0" "0 < pending ?s" "fst (seek_tx b ?s n) = reclaimed (Suc 0) ?s"
  note D = home_invD [OF inv]
  have c: "slot_rd (u_ring ?s) (consumer ?s) # completed_frames (reclaimed (Suc 0) ?s) = window (home N) (producer ?s) (pending ?s)"
    using seek_one_moves [OF D(1) r(1,2)] D(3) r(1) by simp
  moreover have "pending ?s = Suc (pending (reclaimed (Suc 0) ?s))" using r(2) by (simp add: pending_reclaimed)
  ultimately have a: "slot_rd (u_ring ?s) (consumer ?s) = home N (producer ?s)"
    and rest: "completed_frames (reclaimed (Suc 0) ?s) = window (home N) (producer ?s + 1) (pending (reclaimed (Suc 0) ?s))"
    by (simp_all add: window_Cons)
  have "slot_addr (reclaimed (Suc 0) ?s) = slot_addr ?s"
  proof
    fix i
    have "d_addr (slot_rd (slot_wr (x_ring ?s) (producer ?s) v) i) = d_addr (slot_rd (x_ring ?s) i)"
      if "d_addr v = home N (producer ?s)" for v
      using slot_wr_same_addr [OF D(4), of v "producer ?s" i] that fun_cong [OF D(2), of "producer ?s"] by (simp add: slot_addr_def)
    then show "slot_addr (reclaimed (Suc 0) ?s) i = slot_addr ?s i"
      using a by (simp add: slot_addr_def reclaimed_def xdp_desc_new_def)
  qed
  moreover have "producer (reclaimed (Suc 0) ?s) + available (reclaimed (Suc 0) ?s) = producer ?s + 1"
    using r(1) by (simp add: reclaimed_def)
  ultimately show ?thesis
    using seek_one_inv [OF D(1) r(1,2)] D(2) rest by (simp add: home_inv_def r(3))
qed

lemma home_peek:
  assumes "home_inv N w"
  shows "home_inv N (w\<lparr>w_sock := fst (peek_tx b (w_sock w) i len)\<rparr>)"
proof -
  note D = home_invD [OF assms]
  have "same_addrs (w_sock w) (fst (peek_tx b (w_sock w) i len))" by (rule peek_tx_same_addrs [OF D(4)])
  then have "slot_addr (fst (peek_tx b (w_sock w) i len)) = slot_addr (w_sock w)"
    "completed_frames (fst (peek_tx b (w_sock w) i len)) = completed_frames (w_sock w)"
    "producer (fst (peek_tx b (w_sock w) i len)) = producer (w_sock w)"
    "available (fst (peek_tx b (w_sock w) i len)) = available (w_sock w)"
    using same_addrs_frames by (auto simp: same_addrs_def slot_addr_def fun_eq_iff)
  then show ?thesis using peek_inv [OF D(1)] by (intro home_keep [OF assms]) simp_all
qed

lemma home_commit:
  assumes inv: "home_inv N w" and b: "safety_checks b"
  shows "home_inv N (w\<lparr>w_sock := fst (commit_tx b (w_sock w) n)\<rparr>)"
proof (cases "available (w_sock w) < ucast n")
  case True
  then show ?thesis using inv b tx.commit_refused [of b "w_sock w" n] by simp
next
  case False
  then have n: "ucast n \<le> available (w_sock w)" by simp
  note eq = commit_tx_ok [OF home_invD(7) [OF inv] n, of b]
  show ?thesis
    using commit_inv [OF home_invD(1) [OF inv] b, of n]
    by (intro home_keep [OF inv]) (simp_all add: eq slot_addr_def completed_frames_def pending_def fun_eq_iff)
qed

lemma home_mem [simp]: "home_inv N (w\<lparr>w_mem := m\<rparr>) = home_inv N w"
  by (simp add: home_inv_def)

lemma home_apply:
  assumes inv: "home_inv N w" and b: "safety_checks b" and one: "single_frame op (w_sock w)"
  shows "home_inv N (tx_apply b op w)"
proof (rule tx_apply_keeps [where P = "home_inv N"])
  show "home_inv N (w\<lparr>w_sock := fst (seek_tx b (w_sock w) n)\<rparr>)" if "op = OpSeek n \<or> n = 1" for n
    using that home_seek [OF inv] one single_frame_one by blast
qed (use inv b home_peek home_commit in simp_all)

lemma home_kernel:
  assumes inv: "home_inv N w" and rely: "tx_rely w w'" and K: "K w w'" "in_order K"
  shows "home_inv N w'"
proof -
  let ?s = "w_sock w" and ?s' = "w_sock w'"
  note D = home_invD [OF inv]
  have same: "producer ?s' = producer ?s" "available ?s' = available ?s" "slot_addr ?s' = slot_addr ?s"
    using rely by (simp_all add: tx_rely_def Let_def slot_addr_def fun_eq_iff)
  obtain n where n: "completed_frames ?s' = completed_frames ?s @ window (slot_addr ?s) (oldest_out w) n"
    using K unfolding in_order_def by blast
  have "N = unat (available ?s) + pending ?s + (queued_count ?s + size (w_held w))"
    using tx_inv_count [OF D(1)] D(5) by simp
  then have "(of_nat N :: u32) = available ?s + of_nat (pending ?s) + of_nat (queued_count ?s + size (w_held w))"
    by simp
  then have "oldest_out w + of_nat N = producer ?s + available ?s + of_nat (pending ?s)"
    by (simp only: oldest_out_def) simp
  then have "window (home N) (oldest_out w) n = window (home N) (producer ?s + available ?s + of_nat (pending ?s)) n"
    using window_period [OF D(6), of "oldest_out w" n] by simp
  then have c: "completed_frames ?s' = window (home N) (producer ?s + available ?s) (pending ?s + n)"
    by (simp add: n D(2,3) window_append)
  then have "pending ?s' = pending ?s + n" by (metis length_frames(3) length_window)
  then show ?thesis using c same D(2) tx_rely_inv [OF D(1) rely] by (simp add: home_inv_def)
qed

lemma home_reach:
  assumes "tx_reach single_frame K b w0 w" "home_inv N w0" "safety_checks b" "\<And>w w'. K w w' \<Longrightarrow> tx_rely w w'" "in_order K"
  shows "home_inv N w"
  using assms(1,2)
proof (induction rule: tx_reach.induct)
  case reach_refl
  then show ?case .
next
  case (reach_step w w')
  then have w: "home_inv N w" by blast
  from reach_step.hyps(2) show ?case
  proof (rule tx_stepE)
    assume "K w w'"
    then show ?thesis using home_kernel [OF w assms(4) _ assms(5)] by blast
  next
    fix op assume "w' = tx_apply b op w" "single_frame op (w_sock w)"
    then show ?thesis using home_apply [OF w assms(3)] by blast
  qed
qed

section \<open>Two buffers, one frame\<close>

lemma made_home:
  assumes made: "made_tx os n io s" and os: "zero_indices os" and n: "ring_size (unat n)"
  shows "home_inv (unat n) \<lparr>w_sock = s, w_mem = mem, w_held = {#}\<rparr>"
proof -
  let ?w = "\<lparr>w_sock = s, w_mem = mem, w_held = {#}\<rparr>"
  have inv: "tx_inv (frame_pool 0 (unat n)) ?w" using made_tx_inv [OF made os n] by blast
  have "length (app_frames s) = unat n" using made_tx_frames [OF made os n] by (simp add: frame_pool_def)
  then have "pending s = 0" using tx_inv_count [OF inv] inv by (simp add: tx_inv_def frame_pool_def)
  moreover have "slot_addr s = home (unat n)"
    by (simp add: fun_eq_iff slot_addr_def home_def made_slots [OF made os n] frame_desc_def)
  ultimately show ?thesis using inv by (simp add: home_inv_def completed_frames_def)
qed

lemma home_run:
  assumes "kernel_ok os K" "safety_checks b" "in_order K" "tx_run single_frame K os b d config w"
  shows "home_inv (tx_frame_count d) w"
proof -
  obtain if_index if_queue tr s rx mem where
      made: "create_socket os b if_index if_queue d config = (tr, Ok (Some s, rx))"
    and reach: "tx_reach single_frame K b \<lparr>w_sock = s, w_mem = mem, w_held = {#}\<rparr> w"
    using assms(4) unfolding tx_run_def by blast
  obtain rx_n tx_n where n: "ring_sizes d = (rx_n, tx_n)" by fastforce
  have os: "os_ok os" "page_ok os" "zero_indices os" and K: "\<And>w w'. K w w' \<Longrightarrow> tx_rely w w'"
    using assms(1) by (simp_all add: kernel_ok_def)
  obtain io where io: "d \<noteq> DirRx" "made_tx os tx_n io s"
    using create_socket_Ok [OF os(1,2) n made] by (auto split: if_splits)
  have "ring_size (unat tx_n)" using ring_sizes_ok(1) [OF n io(1)] by simp
  then show ?thesis
    using home_reach [OF reach made_home [OF io(2) os(3)] assms(2) K assms(3)] by (simp add: tx_frame_count_def n)
qed

text \<open>After the call the slot of the producer index has the last reclaimed frame, which the last available slot has already.\<close>

lemma reclaimed_twice:
  assumes inv: "home_inv N w" and k: "0 < k" "k \<le> pending (w_sock w)" "2 \<le> unat (available (w_sock w)) + k"
    and s': "s' = reclaimed k (w_sock w)"
  shows "unat (available s') = unat (available (w_sock w)) + k \<and> app_frames s' ! 0 = app_frames s' ! (unat (available s') - 1)"
proof -
  let ?s = "w_sock w" and ?a = "unat (available (w_sock w))"
  note D = home_invD [OF inv]
  have av: "unat (available s') = ?a + k" using D(7) k(2) by (simp add: s' available_reclaimed)
  have cap: "?a + k \<le> ring_cap (x_ring ?s)" using tx_inv_count [OF D(1)] k(2) by simp
  let ?v = "xdp_desc_new (completed_frames ?s ! (k - 1)) 0 0"
  have x: "x_ring s' = slot_wr (x_ring ?s) (producer ?s) ?v" "producer s' = producer ?s"
    using k(1,2) by (simp_all add: s' reclaimed_def completed_frames_def)
  have rd: "slot_rd (x_ring s') (producer ?s + of_nat i) = (if i = 0 then ?v else slot_rd (x_ring ?s) (producer ?s + of_nat i))"
    if "i < ring_cap (x_ring ?s)" for i
    using rings.rd_wr_offset [OF D(4) that, of 0 "producer ?s" ?v] cap k(1) by (simp add: x)
  have "app_frames s' ! 0 = completed_frames ?s ! (k - 1)"
    using rd [of 0] cap k(1) av by (simp add: app_frames_def x(2) xdp_desc_new_def)
  also have "\<dots> = home N (producer ?s + of_nat (?a + k - 1))"
    using k(1,2) by (simp add: D(3) of_nat_diff algebra_simps)
  also have "\<dots> = slot_addr ?s (producer ?s + of_nat (?a + k - 1))" by (simp only: D(2))
  also have "\<dots> = app_frames s' ! (?a + k - 1)"
    using rd [of "?a + k - 1"] cap k(1,3) av by (simp add: app_frames_def x(2) slot_addr_def)
  finally show ?thesis using av by simp
qed

text \<open>
  C16. Reclaiming more than one frame always shares one: in every state of every run of a made transmit socket whose kernel completes
  packets in order, and that has reclaimed one frame at a time so far, a \<^verbatim>\<open>seek_n\<close> that reclaims \<open>k\<close> frames, of which at
  least one, and leaves two or more available makes the first and the last available buffer the same
  frame, so that one packet overwrites the other.
\<close>

theorem seek_n_shares_frame:
  assumes "kernel_ok os K" "safety_checks b" "in_order K" "tx_run single_frame K os b d config w"
    and "k = min (unat n - unat (available (w_sock w))) (pending (w_sock w))" "0 < k"
    and "2 \<le> unat (available (w_sock w)) + k" "s' = fst (socket_seek_n seek_tx b (w_sock w) n)"
  shows "unat (available s') = unat (available (w_sock w)) + k \<and>
    app_frames s' ! 0 = app_frames s' ! (unat (available s') - 1)"
proof -
  have inv: "home_inv (tx_frame_count d) w" by (rule home_run [OF assms(1-4)])
  have "\<not> n \<le> ucast (available (w_sock w))" "0 < pending (w_sock w)" "k \<le> pending (w_sock w)"
    using assms(5,6) by (simp_all add: word_le_nat_alt)
  then have "s' = reclaimed k (w_sock w)" "k \<le> pending (w_sock w)"
    using seek_tx_reclaims [OF home_invD(7) [OF inv] _ _ assms(5), of b] assms(8) by (simp_all add: socket_seek_n_def)
  then show ?thesis using reclaimed_twice [OF inv assms(6) _ assms(7)] by blast
qed

lemma loopback_in_order: "in_order loopback_kernel"
  unfolding in_order_def
proof (intro allI impI)
  fix w w'
  assume k: "loopback_kernel w w'"
  have "oldest_out w = cons_ix (x_ring (w_sock w))"
    using k by (simp add: loopback_kernel_def oldest_out_def queued_count_def)
  then have "completed_frames (w_sock w') = completed_frames (w_sock w) @ window (slot_addr (w_sock w)) (oldest_out w) 1"
    using loopback_completes [OF k] by (simp add: window_Cons slot_addr_def)
  then show "\<exists>n. completed_frames (w_sock w') = completed_frames (w_sock w) @ window (slot_addr (w_sock w)) (oldest_out w) n" ..
qed

theorem seek_n_shares_frame_witness:
  "\<exists>w s'. tx_run single_frame loopback_kernel sample_os sample_build DirTx None w \<and>
     s' = fst (socket_seek_n seek_tx sample_build (w_sock w) 4096) \<and>
     unat (available s') = 4096 \<and> app_frames s' ! 0 = app_frames s' ! 4095"
proof -
  obtain w where w: "tx_run single_frame loopback_kernel sample_os sample_build DirTx None w"
    "available (w_sock w) = 4095" "pending (w_sock w) = 1"
    using sample_run by blast
  have "unat (available (w_sock w)) = 4095" using w(2) by simp
  then show ?thesis
    using seek_n_shares_frame [OF sample_kernel_ok _ loopback_in_order w(1), of 1 4096] w by auto
qed

section \<open>What holds for every client\<close>

text \<open>
  C34. A client that reclaims as many frames at once as it likes: in every state of every run of a made transmit socket, whatever
  \<^verbatim>\<open>seek_n\<close> has been called with, the available, queued, held and completed descriptors add up to the number of frames of the socket, each of
  them is a whole frame of the socket inside the UMEM, and the next call, whatever it is, keeps every descriptor in
  the queue as it is and appends those that a successful \<^verbatim>\<open>send\<close> or \<^verbatim>\<open>commit_n\<close> hands over, with address and length. What such a client
  loses is that the frames are different ones.
\<close>

theorem any_client_accounts:
  assumes "kernel_ok os K" "safety_checks b" "spares_frames (tx_frame_count d) K"
    and "tx_log any_call K os b d config sub taken w" and "s = w_sock w"
  shows "unat (available s) + queued_count s + size (w_held w) + pending s = tx_frame_count d \<and>
    (\<forall>a \<in># all_frames w. \<exists>k < tx_frame_count d. unat a = k * 2048) \<and> tx_frame_count d * 2048 \<le> length (w_mem w) \<and>
    queued_descs (w_sock (tx_apply b op w)) = queued_descs s @ handed b op w"
proof -
  have inv: "umem_inv (tx_frame_count d) w" by (rule tx_log_umem [OF assms(1-4)])
  have "queued_descs (w_sock (tx_apply b op w)) = queued_descs s @ handed b op w"
    using tx_apply_queue [OF inv assms(2), of op] by (simp add: queues_def assms(5))
  moreover have "tx_frame_count d * 2048 \<le> length (w_mem w)" using umem_invD(3,6) [OF inv] by simp
  ultimately show ?thesis
    using pool_inv_count [OF umem_invD(1) [OF inv]] umem_invD(1) [OF inv] all_frames_in_pool [OF inv]
    by (simp add: pool_inv_def frame_pool_def assms(5))
qed

text \<open>A run in which a \<^verbatim>\<open>seek_n\<close> has reclaimed a frame while others were available.\<close>

lemma sample_batch:
  "\<exists>w sub taken. tx_log any_call loopback_kernel sample_os sample_build DirTx None sub taken w \<and>
     unat (available (w_sock w)) = 4095 \<and> queued_count (w_sock w) = 1 \<and> pending (w_sock w) = 0"
proof -
  obtain w where w: "tx_log single_frame loopback_kernel sample_os sample_build DirTx None [[9, 1, 2, 3], [5]] [[9, 1, 2, 3]] w"
    "available (w_sock w) = 4094" "queued_count (w_sock w) = 1" "w_held w = {#}"
    using sample_log by blast
  have inv: "fifo_inv 4096 w"
    using tx_log_facts [OF sample_kernel_ok _ loopback_spares w(1)]
    by (simp add: tx_frame_count_def ring_sizes_def FRAME_COUNT_def)
  have wf: "wf_tx (w_sock w)" by (rule umem_invD(8) [OF fifo_invD(2) [OF inv]])
  have p: "pending (w_sock w) = 1"
    using tx_inv_count [OF fifo_invD(1) [OF inv]] fifo_invD(1) [OF inv] w(2-4) by (simp add: tx_inv_def frame_pool_def)
  let ?w = "tx_apply sample_build (OpSeek 4095) w"
  have "w_sock ?w = reclaimed 1 (w_sock w)"
    using seek_tx_reclaims [OF wf, of 4095 1 sample_build] p w(2)
    by (simp add: socket_seek_n_def word_le_nat_alt)
  then have "unat (available (w_sock ?w)) = 4095 \<and> queued_count (w_sock ?w) = 1 \<and> pending (w_sock ?w) = 0"
    using available_reclaimed [OF wf, of 1] pending_reclaimed [of 1 "w_sock w"] p w(2,3) by (simp add: queued_count_reclaimed)
  moreover obtain sub taken where "tx_log any_call loopback_kernel sample_os sample_build DirTx None sub taken ?w"
    using tx_log_any [OF w(1)] history_call [of any_call] unfolding tx_log_def any_call_def by blast
  ultimately show ?thesis by blast
qed

theorem any_client_accounts_witness:
  "\<exists>w sub taken. tx_log any_call loopback_kernel sample_os sample_build DirTx None sub taken w \<and>
     4095 + 1 + size (w_held w) + 0 = tx_frame_count DirTx \<and>
     queued_descs (w_sock (tx_apply sample_build (OpCommit 2) w)) =
       queued_descs (w_sock w) @ handed sample_build (OpCommit 2) w"
proof -
  obtain w sub taken where w: "tx_log any_call loopback_kernel sample_os sample_build DirTx None sub taken w"
    "unat (available (w_sock w)) = 4095" "queued_count (w_sock w) = 1" "pending (w_sock w) = 0"
    using sample_batch by blast
  then show ?thesis
    using any_client_accounts [OF sample_kernel_ok _ loopback_spares w(1) refl, of "OpCommit 2"]
    by (intro exI [of _ w] exI [of _ sub] exI [of _ taken]) simp
qed

end
