(* ===== verification/Spec2Isabelle.thy ===== *)
theory Spec2Isabelle
  imports Tx_Properties Rx_Properties Rx_Protocol Create_Properties Ring_Properties Io_Properties
    Util_Properties Socket_Types Harness_Properties Udp_Properties Apps_Properties
    Pingpong_Properties Packet_Tests Refinement Tx_Shared Rx_Shared Send_Cycle
    Rx_Fifo Recv_Cycle Build_Modes Seek_Batch
begin

text \<open>
  A model of xdp-rs: AF\_XDP sockets (\<^verbatim>\<open>xdp-socket\<close>) and the helpers around them (\<^verbatim>\<open>xdp-util\<close>).

  \<^bold>\<open>The program.\<close> \<^verbatim>\<open>create_socket\<close> maps one block of memory (the UMEM, 4096 frames of 2048 bytes),
  registers it with the kernel, maps four rings of descriptors and gives out a transmit socket, a receive
  socket or both. A ring is a power-of-two array of cells with a producer and a consumer index of 32 bits,
  shared with the kernel. A transmit socket reclaims frames from the Completion ring (\<^verbatim>\<open>seek\<close>), writes a
  packet into the frame of a TX descriptor (\<^verbatim>\<open>peek\<close>) and publishes it (\<^verbatim>\<open>commit\<close>); a receive socket finds
  packets in the RX ring (\<^verbatim>\<open>seek\<close>), reads them (\<^verbatim>\<open>peek\<close>) and returns their frames through the Fill ring
  (\<^verbatim>\<open>commit\<close>). \<^verbatim>\<open>send\<close> is one packet, \<^verbatim>\<open>kick\<close> wakes the kernel, \<^verbatim>\<open>poll_wait\<close> waits for it. The helpers ask
  the kernel for links, routes and neighbours over netlink, choose the next hop of a destination, write
  UDP headers, attach the XDP program that redirects packets and read hardware addresses.

  \<^bold>\<open>Conventions.\<close> \<open>Prelude\<close>: \<^verbatim>\<open>u32\<close>, \<^verbatim>\<open>u64\<close> and \<^verbatim>\<open>usize\<close> are words of 32, 64 and 64 bits. A Rust function is a
  function to \<open>('e, 'a) res\<close>: \<open>Ok\<close>, \<open>Err\<close> or \<open>Panic\<close>; an access outside a mapped ring or a null pointer
  is \<open>Undef\<close>. \<open>build\<close> says whether debug assertions, overflow checks and the \<^verbatim>\<open>safety_checks\<close> of the code are on. A
  method of a socket takes the socket and returns the changed one with the result. Calls of the kernel
  and of libraries that are not in the repository are arguments (\<open>os\<close>, \<open>net_lib\<close> and others), and what is
  assumed of them stands in the theorems.

  \<^bold>\<open>Theories of the socket crate\<close> (\<^verbatim>\<open>xdp-socket/src\<close>):
  \<^item> \<open>Ring\<close>, \<open>Ring_Facts\<close>, \<open>Ring_Properties\<close> (\<^verbatim>\<open>ring.rs\<close>): cells, indices, descriptors, \<^verbatim>\<open>fill\<close>, the byte slices.
    \<open>Slots\<close> is the contract of a store addressed by an index that wraps (locale \<open>slot_store\<close>) and of one
    with published indices (\<open>published_ring\<close>); rings are its interpretation \<open>rings\<close>.
  \<^item> \<open>Socket\<close> (\<^verbatim>\<open>socket.rs\<close>): the state, the errors, the methods both directions share. The traits
    \<^verbatim>\<open>Seek_\<close> and \<^verbatim>\<open>Commit_\<close> are the locale \<open>socket_dir\<close>, with the interpretations \<open>tx\<close> and \<open>rx\<close>.
  \<^item> \<open>Socket_Types\<close>: what a well-formed socket of each direction is and that every method keeps it.
  \<^item> \<open>Tx\<close>, \<open>Rx\<close> (\<^verbatim>\<open>seek.rs\<close>, \<^verbatim>\<open>peek.rs\<close>, \<^verbatim>\<open>commit.rs\<close>): the operations of each direction and their exact results.
  \<^item> \<open>Send\<close> (\<^verbatim>\<open>send.rs\<close>), \<open>Kick_Poll\<close> (\<^verbatim>\<open>kick.rs\<close>, \<^verbatim>\<open>poll.rs\<close>), \<open>Io_Properties\<close>. \<open>Search_Loop\<close> is the
    locale of a loop that asks until an answer ends it (\<open>search_loop\<close>); \<^verbatim>\<open>poll_wait\<close> and the ponger
    of \<^verbatim>\<open>udp_pingpong.rs\<close> are its interpretations \<open>poll\<close> and \<open>ponger\<close>.
  \<^item> \<open>Os\<close>, \<open>Mmap\<close> (\<^verbatim>\<open>mmap.rs\<close>), \<open>Create\<close>, \<open>Create_Facts\<close>, \<open>Create_Properties\<close> (\<^verbatim>\<open>create.rs\<close>): a run of system calls is
    a log; locale \<open>resource_scope\<close> says that a step releases on failure what it took.
  \<^item> \<open>Tx_Protocol\<close>, \<open>Tx_Properties\<close>, \<open>Rx_Protocol\<close>, \<open>Rx_Properties\<close>: the application and the kernel as a step
    relation on a socket and the frames the kernel holds; invariants by rule induction. The transmit relation has the rule of the
    client as a parameter: \<open>any_call\<close> allows every call in every state, \<open>single_frame\<close> all but a \<^verbatim>\<open>seek_n\<close> that reclaims
    several frames, or one while others are available (the batches of which the documentation speaks).
  \<^item> \<open>Frame_Queues\<close>, \<open>Refinement\<close>: an abstract machine of two queues of frames and the kernel, the contract
    of its refinements (locale \<open>frame_cycle\<close>), and that both protocols are refinements (\<open>tx_cycle\<close>, \<open>rx_cycle\<close>).
  \<^item> \<open>Umem_Bytes\<close>, \<open>Packet_Bytes\<close>, \<open>Packet_Fifo\<close>, \<open>Send_Cycle\<close>, \<open>Rx_Fifo\<close>, \<open>Recv_Cycle\<close>: packets instead
    of frames. The bytes behind the descriptors, what each call may write, runs with the history of what was
    submitted and taken or delivered and given back, a client that seeks before each send, and one that seeks,
    reads and commits. \<open>Build_Modes\<close>: clients within the limits in builds without checks.
    \<open>Seek_Batch\<close>: what \<^verbatim>\<open>seek_n\<close> does to the frames when it reclaims more than one, and what is left to a client that does so.
  \<^item> \<open>Shared_Rings\<close>: what the kernel may do to a ring in the middle of a call (locale \<open>shared_access\<close>, with the
    interpretations \<open>tx_side\<close> and \<open>rx_side\<close>). \<open>Seek_Shared\<close>, \<open>Commit_Shared\<close>: the two calls that loop over both rings, the
    transmit \<^verbatim>\<open>seek_\<close> and the receive \<^verbatim>\<open>commit_\<close>, with moves of the kernel before every access to shared memory.
    \<open>Tx_Shared\<close>, \<open>Rx_Shared\<close>: all calls of a socket in this way; the two accesses of \<^verbatim>\<open>mut_bytes_at\<close>, the address and the
    length of a descriptor, are separate ones (\<open>mut_bytes_at_shared\<close>). \<open>Linearize\<close>: when interrupted calls have the histories of
    atomic ones (locale \<open>atomic_calls\<close>, with the interpretations \<open>tx_lin\<close> and \<open>rx_lin\<close>).
  \<^item> \<open>Sample\<close>: the systems, kernels and small sockets on which the theorems are applied.

  \<^bold>\<open>Theories of the helpers\<close> (\<^verbatim>\<open>xdp-util/src\<close>): \<open>Netlink\<close> (\<^verbatim>\<open>netlink.rs\<close>), \<open>Router\<close> (\<^verbatim>\<open>router.rs\<close>), \<open>Packet\<close>
  (\<^verbatim>\<open>packet.rs\<close>, locale \<open>byte_writer\<close>; its unit tests are \<open>Packet_Tests\<close>), \<open>Xdp_Prog\<close> (\<^verbatim>\<open>xdp_prog.rs\<close>, \<^verbatim>\<open>mac_by_ifindex.rs\<close>), \<open>Util_Properties\<close>.

  \<^bold>\<open>Theories of the test crate\<close> (\<^verbatim>\<open>xdp-tests\<close>):
  \<^item> \<open>Std_Net\<close>: the parsers and printers of IPv4 addresses, socket addresses and UTF-8 of the standard
    library, as far as the programs use them.
  \<^item> \<open>Harness\<close>, \<open>Harness_Properties\<close> (\<^verbatim>\<open>nettest/suite/*.rs\<close>, \<^verbatim>\<open>build.rs\<close>, \<^verbatim>\<open>try_netlink.rs\<close>): commands run through
    \<^verbatim>\<open>sudo\<close>, the restart with capabilities, the pair of virtual interfaces, the runner of a test on that pair.
  \<^item> \<open>Udp_Tools\<close>, \<open>Udp_Properties\<close> (\<^verbatim>\<open>udp_pingpong.rs\<close>, \<^verbatim>\<open>ponger.rs\<close>): the UDP pinger and ponger and the
    echo server.
  \<^item> \<open>Apps\<close>, \<open>Apps_Facts\<close>, \<open>Apps_Properties\<close> (\<^verbatim>\<open>xdp_pass.rs\<close>, \<^verbatim>\<open>xdp_sender.rs\<close>, \<^verbatim>\<open>xdp_pinger.rs\<close>): whole
    programs over the socket crate and the helpers, against a kernel that moves while they sleep.
  \<^item> \<open>Pingpong\<close>, \<open>Pingpong_Properties\<close> (\<^verbatim>\<open>pingpong_test.rs\<close>): the integration test, which attaches a program, starts two
    tasks and awaits them.

  \<^bold>\<open>What is shown.\<close> Unless said otherwise, of builds with the safety checks. For every client of a made transmit socket, however it reclaims: the exact outcome of every call, with every error;
  the number of descriptors in each place, each a whole frame; that no call writes outside the available frames; that the queue keeps
  what was handed over; that kernel moves in the middle of a call give no history that kernel moves between the calls do not
  give. For a client that reclaims one frame at a time also: no frame is lost, duplicated or shared with the kernel, the socket
  refines a machine of frame queues, packets leave in the order in which they were submitted, byte by byte, and the documented
  cycle of \<^verbatim>\<open>seek\<close> and \<^verbatim>\<open>send\<close> never runs out of frames. For any other client these are false, because of the store at
  \<^verbatim>\<open>seek.rs:65\<close>. For a receive socket whose producer index is the published one and whose available descriptors are delivered
  packets: conservation of frames, the refinement, packets read in the order in which they were delivered, the endless cycle of
  \<^verbatim>\<open>seek_and_peek\<close> and \<^verbatim>\<open>commit\<close>, and the same for kernel moves in the middle of a call. \<^verbatim>\<open>create_socket\<close> does not leave such a
  receive socket, and theorems say what its first calls do instead. A client within the limits sees no difference between checked and
  unchecked builds; at a length of a whole frame they differ. No resource is kept when creation fails; the frames of the made sockets divide the UMEM; what \<^verbatim>\<open>netlink\<close>, the
  router, the header writer and the loader of programs return, and where the router does not do what its documentation says. Every sequence of calls keeps a socket
  well formed (type soundness), and the two ways in which the programs build a packet give the same
  bytes. The sender transmits exactly its packets and leaves no resource behind; the pinger, which never
  reclaims a frame, stops after 4096 packets; the runner deletes only the links of a test that passed; a
  program restarts itself under \<^verbatim>\<open>sudo\<close> at most once; the integration test passes without an answer to its ping. Several theorems show where the code does
  not do what it means to: more than one reclaimed frame goes to one slot, so that two available buffers are one frame, a fresh receive socket reports
  packets that never came, its first commit withdraws the Fill ring, a frame of full length panics, and in a build without overflow checks an
  address near the end of the address space gives a slice outside the UMEM.

  \<^bold>\<open>Bounds and fuel.\<close> No definition is bounded by fuel that the code does not have. The copying loops
  count down the number of rounds of the source. The loops that may never end, \<open>poll_loop\<close>,
  \<open>ponger_loop\<close> and \<open>pinger_loop\<close>, are partial functions whose value \<open>None\<close> is a loop that never returns;
  theorems say exactly when they return. \<open>echo_loop\<close> of an echo server reads a list of receives, any finite
  prefix of what arrives. A sleep is a move of the kernel, an argument of the program.

  \<^bold>\<open>Not modelled.\<close> Memory orderings (the shared memory is sequentially consistent); logging; what libraries write into the text of an error; the
  shutdown of the runtime of \<^verbatim>\<open>tokio\<close>, which waits for a task that still runs, and how its tasks interleave, which acts on them only
  through the network, their environment. A mapping counts as released once \<^verbatim>\<open>munmap\<close> was called: the destructor ignores its result
  but for a message. The position in \<open>hdr_write\<close> is a number without bound, which a buffer in memory cannot tell from \<^verbatim>\<open>usize\<close>;
  the module lists of \<^verbatim>\<open>lib.rs\<close> and \<^verbatim>\<open>mod.rs\<close>.
\<close>

end
